(* ===== verification/Prelude.thy ===== *)
theory Prelude
  imports Main "HOL-Library.Word"
begin

text \<open>
  Shared foundations of the development: the error values of the C++ program (failed
  assertions, null or dangling dereferences, out-of-range memory accesses, library exceptions,
  self-deadlock), the result type every fallible operation returns, its total-correctness
  predicate \<open>okR\<close> with the rewrite rules collected in \<open>wp\<close>, the error-stopping fold over a
  list, unsigned 64-bit \<open>size_t\<close> arithmetic on \<open>nat\<close> with the wrap-around written out,
  and the bounds-checked vector reads and writes behind \<open>std::copy\<close>.
\<close>

named_theorems wp \<open>rewrite rules that compute okR and safeR of a program step\<close>
named_theorems sz \<open>size_t arithmetic inside its range is plain arithmetic\<close>


section \<open>Results\<close>

datatype err =
    AssertFailed string     \<comment> \<open>an \<open>assert\<close> fails; the string is its file and line\<close>
  | NotInLoopThread         \<comment> \<open>\<open>EventLoop::abortNotInLoopThread\<close>\<close>
  | NullDeref               \<comment> \<open>a null or dangling pointer is dereferenced\<close>
  | Indeterminate           \<comment> \<open>a member that was never initialised is read\<close>
  | OutOfBounds             \<comment> \<open>memory outside the underlying array is accessed\<close>
  | LengthError             \<comment> \<open>\<open>std::length_error\<close> of \<open>std::vector::resize\<close>\<close>
  | BadFunctionCall         \<comment> \<open>\<open>std::bad_function_call\<close>: an empty \<open>std::function\<close> is called\<close>
  | Deadlock                \<comment> \<open>a thread locks a \<open>std::mutex\<close> it already holds\<close>
  | SignedOverflow          \<comment> \<open>signed integer overflow, undefined behaviour in C++\<close>

type_synonym 'a res = "err + 'a"

definition bindR :: "'a res \<Rightarrow> ('a \<Rightarrow> 'b res) \<Rightarrow> 'b res" where
  "bindR m f = (case m of Inl e \<Rightarrow> Inl e | Inr x \<Rightarrow> f x)"

definition check :: "bool \<Rightarrow> err \<Rightarrow> 'a res \<Rightarrow> 'a res" where
  "check b e m = (if b then m else Inl e)"

definition deref :: "('p \<rightharpoonup> 'o) \<Rightarrow> 'p \<Rightarrow> 'o res" where
  "deref h p = (case h p of None \<Rightarrow> Inl NullDeref | Some x \<Rightarrow> Inr x)"

definition optR :: "err \<Rightarrow> 'a option \<Rightarrow> 'a res" where
  "optR e m = (case m of None \<Rightarrow> Inl e | Some x \<Rightarrow> Inr x)"

lemma bindR_Inl [simp]: "bindR (Inl e) f = Inl e"
  by (simp add: bindR_def)

lemma bindR_Inr [simp]: "bindR (Inr x) f = f x"
  by (simp add: bindR_def)

lemma bindR_assoc: "bindR (bindR m f) g = bindR m (\<lambda>x. bindR (f x) g)"
  by (cases m) simp_all

lemma bindR_eq_Inr_iff: "bindR m f = Inr y \<longleftrightarrow> (\<exists>x. m = Inr x \<and> f x = Inr y)"
  by (cases m) simp_all

lemma bindR_eq_Inl_iff: "bindR m f = Inl e \<longleftrightarrow> m = Inl e \<or> (\<exists>x. m = Inr x \<and> f x = Inl e)"
  by (cases m) simp_all

lemma bindR_cong [fundef_cong]:
  "m = m' \<Longrightarrow> (\<And>x. m' = Inr x \<Longrightarrow> f x = g x) \<Longrightarrow> bindR m f = bindR m' g"
  by (cases m') simp_all

lemma check_True [simp]: "check True e m = m"
  by (simp add: check_def)

lemma check_False [simp]: "check False e m = Inl e"
  by (simp add: check_def)

lemma check_eq_Inr_iff: "check b e m = Inr y \<longleftrightarrow> b \<and> m = Inr y"
  by (simp add: check_def)

lemma deref_Some [simp]: "h p = Some x \<Longrightarrow> deref h p = Inr x"
  by (simp add: deref_def)

lemma deref_None [simp]: "h p = None \<Longrightarrow> deref h p = Inl NullDeref"
  by (simp add: deref_def)

lemma deref_eq_Inr_iff: "deref h p = Inr x \<longleftrightarrow> h p = Some x"
  by (simp add: deref_def split: option.splits)

lemma optR_Some [simp]: "optR e (Some x) = Inr x"
  by (simp add: optR_def)

lemma optR_None [simp]: "optR e None = Inl e"
  by (simp add: optR_def)

lemma optR_eq_Inr_iff: "optR e m = Inr x \<longleftrightarrow> m = Some x"
  by (simp add: optR_def split: option.splits)

lemmas res_iffs = bindR_eq_Inr_iff check_eq_Inr_iff deref_eq_Inr_iff optR_eq_Inr_iff


section \<open>Total and partial correctness of a result\<close>

text \<open>
  \<open>okR m P\<close>: the step \<open>m\<close> returns without an error and its result satisfies \<open>P\<close>.
  \<open>safeR m P\<close>: if it returns, its result satisfies \<open>P\<close>.
\<close>

definition okR :: "'a res \<Rightarrow> ('a \<Rightarrow> bool) \<Rightarrow> bool" where
  "okR m P = (case m of Inl e \<Rightarrow> False | Inr x \<Rightarrow> P x)"

definition safeR :: "'a res \<Rightarrow> ('a \<Rightarrow> bool) \<Rightarrow> bool" where
  "safeR m P = (case m of Inl e \<Rightarrow> True | Inr x \<Rightarrow> P x)"

lemma okR_simps [simp]:
  "okR (Inr x) P = P x"
  "okR (Inl e) P = False"
  by (simp_all add: okR_def)

lemma okR_bindR [wp]: "okR (bindR m f) P = okR m (\<lambda>x. okR (f x) P)"
  by (cases m) simp_all

lemma okR_check [wp]: "okR (check b e m) P \<longleftrightarrow> b \<and> okR m P"
  by (cases b) simp_all

lemma okR_deref [wp]: "okR (deref h p) P \<longleftrightarrow> (\<exists>x. h p = Some x \<and> P x)"
  by (simp add: deref_def split: option.splits)

lemma okR_optR [wp]: "okR (optR e v) P \<longleftrightarrow> (\<exists>x. v = Some x \<and> P x)"
  by (cases v) simp_all

lemma okR_mono: "okR m P \<Longrightarrow> (\<And>x. P x \<Longrightarrow> Q x) \<Longrightarrow> okR m Q"
  by (cases m) simp_all

lemma okR_iff_ex: "okR m P \<longleftrightarrow> (\<exists>x. m = Inr x \<and> P x)"
  by (cases m) simp_all

lemma okR_D: "okR m P \<Longrightarrow> m = Inr x \<Longrightarrow> P x"
  by simp

lemma okR_obtain:
  assumes "okR m P"
  obtains x where "m = Inr x" and "P x"
  using assms by (auto simp: okR_iff_ex)

lemma safeR_simps [simp]:
  "safeR (Inr x) P = P x"
  "safeR (Inl e) P = True"
  by (simp_all add: safeR_def)

lemma safeR_bindR [wp]: "safeR (bindR m f) P = safeR m (\<lambda>x. safeR (f x) P)"
  by (cases m) simp_all

lemma safeR_check [wp]: "safeR (check b e m) P \<longleftrightarrow> (b \<longrightarrow> safeR m P)"
  by (cases b) simp_all

lemma safeR_deref [wp]: "safeR (deref h p) P \<longleftrightarrow> (\<forall>x. h p = Some x \<longrightarrow> P x)"
  by (simp add: deref_def split: option.splits)

lemma safeR_optR [wp]: "safeR (optR e v) P \<longleftrightarrow> (\<forall>x. v = Some x \<longrightarrow> P x)"
  by (cases v) simp_all

lemma safeR_mono: "safeR m P \<Longrightarrow> (\<And>x. P x \<Longrightarrow> Q x) \<Longrightarrow> safeR m Q"
  by (cases m) simp_all

lemma safeR_iff_all: "safeR m P \<longleftrightarrow> (\<forall>x. m = Inr x \<longrightarrow> P x)"
  by (cases m) simp_all

lemma safeR_bindI: "safeR m Q \<Longrightarrow> (\<And>x. Q x \<Longrightarrow> safeR (f x) P) \<Longrightarrow> safeR (bindR m f) P"
  by (cases m) simp_all

lemma safeR_bind_any: "(\<And>x. safeR (f x) P) \<Longrightarrow> safeR (bindR m f) P"
  by (cases m) simp_all

lemma safeR_bind_deref: "(\<And>x. h p = Some x \<Longrightarrow> safeR (f x) P) \<Longrightarrow> safeR (bindR (deref h p) f) P"
  by (simp add: wp)

lemma safeR_checkI: "(b \<Longrightarrow> safeR m P) \<Longrightarrow> safeR (check b e m) P"
  by (simp add: wp)

lemma okR_imp_safeR: "okR m P \<Longrightarrow> safeR m P"
  by (cases m) simp_all


section \<open>Running a list of steps\<close>

text \<open>A \<open>for\<close> loop over a vector whose body may fail: it stops at the first error.\<close>

fun foldR :: "('a \<Rightarrow> 's \<Rightarrow> 's res) \<Rightarrow> 'a list \<Rightarrow> 's \<Rightarrow> 's res" where
  "foldR f [] s = Inr s"
| "foldR f (x # xs) s = bindR (f x s) (foldR f xs)"

lemma foldR_append: "foldR f (xs @ ys) s = bindR (foldR f xs s) (foldR f ys)"
  by (induction xs arbitrary: s) (simp_all add: bindR_def split: sum.splits)

lemma foldR_okR:
  assumes "I s" and "\<And>x t. x \<in> set xs \<Longrightarrow> I t \<Longrightarrow> okR (f x t) I"
  shows "okR (foldR f xs s) I"
  using assms
proof (induction xs arbitrary: s)
  case Nil
  then show ?case by simp
next
  case (Cons x xs)
  have "okR (f x s) I" using Cons.prems by simp
  then have "okR (f x s) (\<lambda>t. okR (foldR f xs t) I)"
    by (rule okR_mono) (rule Cons.IH, use Cons.prems in auto)
  then show ?case by (simp add: wp)
qed

lemma foldR_safeR:
  assumes "I s" and "\<And>x t. x \<in> set xs \<Longrightarrow> I t \<Longrightarrow> safeR (f x t) I"
  shows "safeR (foldR f xs s) I"
  using assms
proof (induction xs arbitrary: s)
  case Nil
  then show ?case by simp
next
  case (Cons x xs)
  have "safeR (f x s) I" using Cons.prems by simp
  then have "safeR (f x s) (\<lambda>t. safeR (foldR f xs t) I)"
    by (rule safeR_mono) (rule Cons.IH, use Cons.prems in auto)
  then show ?case by (simp add: wp)
qed


section \<open>Unsigned 64-bit sizes\<close>

text \<open>
  A \<open>size_t\<close> is a natural number below \<open>2 ^ 64\<close>; addition and subtraction wrap around.
\<close>

type_synonym size_t = nat

definition sz_add :: "size_t \<Rightarrow> size_t \<Rightarrow> size_t" where
  "sz_add a b = (a + b) mod 2 ^ 64"

definition sz_sub :: "size_t \<Rightarrow> size_t \<Rightarrow> size_t" where
  "sz_sub a b = nat ((int a - int b) mod 2 ^ 64)"

lemma sz_add_small [sz]: "a + b < 2 ^ 64 \<Longrightarrow> sz_add a b = a + b"
  by (simp add: sz_add_def)

lemma sz_sub_small [sz]: "b \<le> a \<Longrightarrow> a < 2 ^ 64 \<Longrightarrow> sz_sub a b = a - b"
  by (simp add: sz_sub_def)

lemma sz_sub_wrap: "a < b \<Longrightarrow> b < 2 ^ 64 \<Longrightarrow> sz_sub a b = 2 ^ 64 - (b - a)"
proof -
  assume ab: "a < b" and b: "b < 2 ^ 64"
  have "(int a - int b) mod 2 ^ 64 = (int a - int b + 2 ^ 64) mod 2 ^ 64"
    by simp
  also have "\<dots> = int a - int b + 2 ^ 64"
    using ab b by (intro mod_pos_pos_trivial) auto
  finally show ?thesis
    using ab b by (simp add: sz_sub_def)
qed


section \<open>Vectors of bytes\<close>

type_synonym byte = char

text \<open>\<open>std::vector<char>::max_size()\<close>: \<open>PTRDIFF_MAX\<close> elements of one byte.\<close>

definition max_size :: nat where
  "max_size = 2 ^ 63 - 1"

lemma max_size_less [sz]: "n \<le> max_size \<Longrightarrow> n < 2 ^ 64"
  by (simp add: max_size_def)

text \<open>\<open>blit v off ys\<close>: the vector with the elements from offset \<open>off\<close> overwritten by \<open>ys\<close>.\<close>

definition blit :: "'a list \<Rightarrow> nat \<Rightarrow> 'a list \<Rightarrow> 'a list" where
  "blit v off ys = take off v @ ys @ drop (off + length ys) v"

definition read_range :: "'a list \<Rightarrow> nat \<Rightarrow> nat \<Rightarrow> 'a list res" where
  "read_range v off n = check (off + n \<le> length v) OutOfBounds (Inr (take n (drop off v)))"

definition write_range :: "'a list \<Rightarrow> nat \<Rightarrow> 'a list \<Rightarrow> 'a list res" where
  "write_range v off ys = check (off + length ys \<le> length v) OutOfBounds (Inr (blit v off ys))"

text \<open>\<open>std::vector::resize\<close>: truncates or pads with value-initialised elements.\<close>

definition resize :: "'a \<Rightarrow> 'a list \<Rightarrow> nat \<Rightarrow> 'a list res" where
  "resize z v n = check (n \<le> max_size) LengthError
     (Inr (if n \<le> length v then take n v else v @ replicate (n - length v) z))"

lemma length_blit [simp]: "off + length ys \<le> length v \<Longrightarrow> length (blit v off ys) = length v"
  by (simp add: blit_def)

lemma blit_Nil [simp]: "blit v off [] = v"
  by (simp add: blit_def)

lemma take_blit [simp]: "off + length ys \<le> length v \<Longrightarrow> take off (blit v off ys) = take off v"
  by (simp add: blit_def)

lemma take_drop_blit [simp]:
  "off + length ys \<le> length v \<Longrightarrow> take (length ys) (drop off (blit v off ys)) = ys"
  by (simp add: blit_def)

lemma drop_blit_less:
  "r \<le> off \<Longrightarrow> off + length ys \<le> length v \<Longrightarrow>
   take (off - r + length ys) (drop r (blit v off ys)) = take (off - r) (drop r v) @ ys"
  by (simp add: blit_def drop_take)

lemma okR_read_range [wp]:
  "okR (read_range v off n) P \<longleftrightarrow> off + n \<le> length v \<and> P (take n (drop off v))"
  by (simp add: read_range_def wp)

lemma okR_write_range [wp]:
  "okR (write_range v off ys) P \<longleftrightarrow> off + length ys \<le> length v \<and> P (blit v off ys)"
  by (simp add: write_range_def wp)

lemma okR_resize [wp]:
  "okR (resize z v n) P \<longleftrightarrow>
     n \<le> max_size \<and> P (if n \<le> length v then take n v else v @ replicate (n - length v) z)"
  by (simp add: resize_def wp)

end
