(* ===== verification/Buffer.thy ===== *)
theory Buffer
  imports Prelude
begin

text \<open>
  \<open>class Buffer\<close> (\<open>src/src/include/buffer.h\<close>, \<open>src/src/buffer.cpp\<close>): the byte buffer
  between non-blocking sockets and the application. The record keeps the vector and the two
  indices; every member function is one definition. Pointers into the buffer are offsets.
  Every \<open>std::copy\<close> is bounds-checked, so that a result \<open>Inr _\<close> also says that no memory
  outside the vector is touched. The theory states the invariant of the three regions, the
  abstraction \<open>contents\<close> (the readable bytes), the contract of every operation, and the
  interface \<open>byte_queue\<close> that the connection layer relies on.
\<close>

section \<open>State and operations\<close>

definition CheapPrependSize :: size_t where
  "CheapPrependSize = 8"

definition InitialSize :: size_t where
  "InitialSize = 1024"

record buffer =
  buffer_vec :: "byte list"
  reader_idx :: size_t
  writer_idx :: size_t

definition readableBytes :: "buffer \<Rightarrow> size_t" where
  "readableBytes b = sz_sub (writer_idx b) (reader_idx b)"

definition writableBytes :: "buffer \<Rightarrow> size_t" where
  "writableBytes b = sz_sub (length (buffer_vec b)) (writer_idx b)"

definition prependableBytes :: "buffer \<Rightarrow> size_t" where
  "prependableBytes b = reader_idx b"

text \<open>The constructor, with its three assertions.\<close>

definition Buffer_ctor :: "buffer res" where
  "Buffer_ctor =
     (let b = \<lparr>buffer_vec = replicate (CheapPrependSize + InitialSize) (CHR 0x00),
               reader_idx = CheapPrependSize, writer_idx = CheapPrependSize\<rparr> in
      check (readableBytes b = 0) (AssertFailed ''buffer.h:32'')
      (check (writableBytes b = InitialSize) (AssertFailed ''buffer.h:33'')
      (check (prependableBytes b = CheapPrependSize) (AssertFailed ''buffer.h:34'')
      (Inr b))))"

definition Buffer_swap :: "buffer \<Rightarrow> buffer \<Rightarrow> buffer \<times> buffer" where
  "Buffer_swap b rhs =
     (b\<lparr>buffer_vec := buffer_vec rhs, reader_idx := reader_idx rhs, writer_idx := writer_idx rhs\<rparr>,
      rhs\<lparr>buffer_vec := buffer_vec b, reader_idx := reader_idx b, writer_idx := writer_idx b\<rparr>)"

definition peek :: "buffer \<Rightarrow> size_t" where
  "peek b = reader_idx b"

definition beginWrite :: "buffer \<Rightarrow> size_t" where
  "beginWrite b = writer_idx b"

definition retrieve :: "buffer \<Rightarrow> size_t \<Rightarrow> buffer res" where
  "retrieve b len =
     check (len \<le> readableBytes b) (AssertFailed ''buffer.h:61'')
     (Inr (b\<lparr>reader_idx := sz_add (reader_idx b) len\<rparr>))"

definition retrieveUntil :: "buffer \<Rightarrow> size_t \<Rightarrow> buffer res" where
  "retrieveUntil b endp =
     check (peek b \<le> endp) (AssertFailed ''buffer.h:70'')
     (check (endp \<le> beginWrite b) (AssertFailed ''buffer.h:71'')
     (retrieve b (sz_sub endp (peek b))))"

definition retrieveAll :: "buffer \<Rightarrow> buffer" where
  "retrieveAll b = b\<lparr>reader_idx := CheapPrependSize, writer_idx := CheapPrependSize\<rparr>"

definition retrieveAsString :: "buffer \<Rightarrow> (string \<times> buffer) res" where
  "retrieveAsString b =
     bindR (read_range (buffer_vec b) (peek b) (readableBytes b)) (\<lambda>str.
     Inr (str, retrieveAll b))"

definition hasWritten :: "buffer \<Rightarrow> size_t \<Rightarrow> buffer" where
  "hasWritten b len = b\<lparr>writer_idx := sz_add (writer_idx b) len\<rparr>"

text \<open>
  \<open>makeSpace\<close>: grow the vector, or move the readable bytes to the front. The source and the
  destination of the move may overlap; the destination starts before the source, where
  \<open>std::copy\<close> moves the bytes as they were.
\<close>

definition makeSpace :: "buffer \<Rightarrow> size_t \<Rightarrow> buffer res" where
  "makeSpace b len =
     (if sz_add (writableBytes b) (prependableBytes b) < sz_add len CheapPrependSize then
        bindR (resize (CHR 0x00) (buffer_vec b) (sz_add (writer_idx b) len)) (\<lambda>v.
        Inr (b\<lparr>buffer_vec := v\<rparr>))
      else
        check (CheapPrependSize < reader_idx b) (AssertFailed ''buffer.h:158'')
        (let readable = readableBytes b in
         bindR (read_range (buffer_vec b) (reader_idx b) (sz_sub (writer_idx b) (reader_idx b))) (\<lambda>d.
         bindR (write_range (buffer_vec b) CheapPrependSize d) (\<lambda>v.
         let b' = b\<lparr>buffer_vec := v, reader_idx := CheapPrependSize,
                    writer_idx := sz_add CheapPrependSize readable\<rparr> in
         check (readable = readableBytes b') (AssertFailed ''buffer.h:164'')
         (Inr b')))))"

definition ensureWritableBytes :: "buffer \<Rightarrow> size_t \<Rightarrow> buffer res" where
  "ensureWritableBytes b len =
     bindR (if writableBytes b < len then makeSpace b len else Inr b) (\<lambda>b'.
     check (writableBytes b' \<ge> len) (AssertFailed ''buffer.h:110'')
     (Inr b'))"

text \<open>\<open>append(const char*, size_t)\<close>: \<open>data\<close> holds the \<open>len\<close> bytes behind the pointer.\<close>

definition Buffer_append :: "buffer \<Rightarrow> byte list \<Rightarrow> buffer res" where
  "Buffer_append b data =
     bindR (ensureWritableBytes b (length data)) (\<lambda>b1.
     bindR (write_range (buffer_vec b1) (beginWrite b1) data) (\<lambda>v.
     Inr (hasWritten (b1\<lparr>buffer_vec := v\<rparr>) (length data))))"

definition prepend :: "buffer \<Rightarrow> byte list \<Rightarrow> buffer res" where
  "prepend b data =
     check (length data \<le> prependableBytes b) (AssertFailed ''buffer.h:120'')
     (let b1 = b\<lparr>reader_idx := sz_sub (reader_idx b) (length data)\<rparr> in
      bindR (write_range (buffer_vec b1) (reader_idx b1) data) (\<lambda>v.
      Inr (b1\<lparr>buffer_vec := v\<rparr>)))"

definition shrink :: "buffer \<Rightarrow> size_t \<Rightarrow> buffer res" where
  "shrink b reserve =
     bindR (resize (CHR 0x00) [] (sz_add (sz_add CheapPrependSize (readableBytes b)) reserve)) (\<lambda>buf.
     bindR (read_range (buffer_vec b) (peek b) (readableBytes b)) (\<lambda>d.
     bindR (write_range buf CheapPrependSize d) (\<lambda>buf'.
     Inr (b\<lparr>buffer_vec := buf'\<rparr>))))"

text \<open>
  \<open>Buffer::readFd\<close>. The system call \<open>readv\<close> is a parameter: given the descriptor and the
  lengths of the two areas it returns the count, the bytes transferred in order (they fill the
  writable area first, then \<open>extrabuf\<close>) and \<open>errno\<close>, in the next kernel state. The result
  holds the returned count and the saved \<open>errno\<close>, if it was saved.
\<close>

definition extrabuf_size :: size_t where
  "extrabuf_size = 65536"

definition readFd ::
  "(int \<Rightarrow> nat list \<Rightarrow> 'k \<Rightarrow> (int \<times> byte list \<times> int) \<times> 'k) \<Rightarrow> int \<Rightarrow> buffer \<Rightarrow> 'k \<Rightarrow>
   ((int \<times> int option \<times> buffer) \<times> 'k) res" where
  "readFd readv fd b k =
     (let writable = writableBytes b;
          ((n, data, errno), k') = readv fd [writable, extrabuf_size] k in
      bindR (write_range (buffer_vec b) (writer_idx b) (take writable data)) (\<lambda>v.
      let b1 = b\<lparr>buffer_vec := v\<rparr> in
      if n < 0 then Inr ((n, Some errno, b1), k')
      else if nat n \<le> writable then
        Inr ((n, None, b1\<lparr>writer_idx := sz_add (writer_idx b1) (nat n)\<rparr>), k')
      else
        bindR (Buffer_append (b1\<lparr>writer_idx := length (buffer_vec b1)\<rparr>)
                 (take (sz_sub (nat n) writable) (drop writable data))) (\<lambda>b2.
        Inr ((n, None, b2), k'))))"

lemmas buffer_consts = CheapPrependSize_def InitialSize_def extrabuf_size_def
lemmas buffer_sizes = readableBytes_def writableBytes_def prependableBytes_def peek_def beginWrite_def


section \<open>Invariant and abstraction\<close>

text \<open>
  The picture in the header comment of \<open>buffer.h\<close>: the three regions partition a vector that
  always has room for the cheap prepend area.
\<close>

definition buf_inv :: "buffer \<Rightarrow> bool" where
  "buf_inv b \<longleftrightarrow> reader_idx b \<le> writer_idx b \<and> writer_idx b \<le> length (buffer_vec b) \<and>
     CheapPrependSize \<le> length (buffer_vec b) \<and> length (buffer_vec b) \<le> max_size"

definition contents :: "buffer \<Rightarrow> byte list" where
  "contents b = take (writer_idx b - reader_idx b) (drop (reader_idx b) (buffer_vec b))"

text \<open>The largest number of bytes an \<open>append\<close> can take without exceeding \<open>max_size\<close>.\<close>

definition buf_room :: "buffer \<Rightarrow> nat \<Rightarrow> bool" where
  "buf_room b len \<longleftrightarrow> writer_idx b + len \<le> max_size"

lemma buf_inv_sizes:
  assumes "buf_inv b"
  shows "readableBytes b = writer_idx b - reader_idx b"
    and "writableBytes b = length (buffer_vec b) - writer_idx b"
    and "length (contents b) = readableBytes b"
  using assms by (auto simp: buf_inv_def buffer_sizes contents_def sz max_size_def)

lemma buf_partition:
  assumes "buf_inv b"
  shows "prependableBytes b + readableBytes b + writableBytes b = length (buffer_vec b)"
  using assms by (auto simp: buf_inv_sizes prependableBytes_def buf_inv_def)

lemma Buffer_ctor_ok: "okR Buffer_ctor (\<lambda>b. buf_inv b \<and> contents b = [])"
  by (simp add: Buffer_ctor_def buffer_sizes buffer_consts sz wp buf_inv_def contents_def
        max_size_def)


section \<open>Retrieving\<close>

lemma retrieve_ok:
  assumes "buf_inv b" and "len \<le> readableBytes b"
  shows "okR (retrieve b len) (\<lambda>b'. buf_inv b' \<and> contents b' = drop len (contents b) \<and>
           buffer_vec b' = buffer_vec b \<and> writer_idx b' = writer_idx b)"
proof -
  have "reader_idx b + len \<le> writer_idx b"
    using assms by (auto simp: buf_inv_sizes) (auto simp: buf_inv_def)
  with assms show ?thesis
    by (auto simp: retrieve_def wp sz max_size_def buf_inv_def contents_def drop_take ac_simps)
qed

lemma retrieve_fails: "readableBytes b < len \<Longrightarrow> retrieve b len = Inl (AssertFailed ''buffer.h:61'')"
  by (simp add: retrieve_def)

lemma retrieveUntil_ok:
  assumes "buf_inv b" and "reader_idx b \<le> e" and "e \<le> writer_idx b"
  shows "okR (retrieveUntil b e) (\<lambda>b'. buf_inv b' \<and> contents b' = drop (e - reader_idx b) (contents b))"
proof -
  have "sz_sub e (reader_idx b) = e - reader_idx b"
    using assms by (simp add: sz buf_inv_def max_size_def)
  moreover have "e - reader_idx b \<le> readableBytes b"
    using assms by (simp add: buf_inv_sizes)
  ultimately show ?thesis
    using assms retrieve_ok [of b "e - reader_idx b"]
    by (auto simp: retrieveUntil_def peek_def beginWrite_def wp elim: okR_mono)
qed

lemma retrieveAll_ok: "buf_inv b \<Longrightarrow> buf_inv (retrieveAll b) \<and> contents (retrieveAll b) = []"
  by (simp add: retrieveAll_def buf_inv_def contents_def)

lemma retrieveAsString_ok:
  assumes "buf_inv b"
  shows "okR (retrieveAsString b) (\<lambda>(s, b'). s = contents b \<and> buf_inv b' \<and> contents b' = [] \<and>
           b' = retrieveAll b)"
  using assms
  by (auto simp: retrieveAsString_def wp buf_inv_sizes peek_def retrieveAll_ok)
     (auto simp: buf_inv_def contents_def)


section \<open>Appending\<close>

lemma makeSpace_sizes:
  assumes "buf_inv b" and "buf_room b len"
  shows "sz_add (writableBytes b) (prependableBytes b) =
           length (buffer_vec b) - writer_idx b + reader_idx b"
    and "sz_add len CheapPrependSize = len + 8"
    and "sz_add (writer_idx b) len = writer_idx b + len"
  using assms
  by (auto simp: buf_inv_sizes sz prependableBytes_def buf_inv_def buf_room_def max_size_def buffer_consts)

text \<open>The growing branch: the vector ends exactly \<open>len\<close> bytes after the writer index.\<close>

lemma makeSpace_grow:
  assumes inv: "buf_inv b" and room: "buf_room b len" and need: "writableBytes b < len"
    and grow: "length (buffer_vec b) - writer_idx b + reader_idx b < len + 8"
  shows "okR (makeSpace b len) (\<lambda>b'. buf_inv b' \<and> contents b' = contents b \<and>
           len \<le> writableBytes b' \<and> writer_idx b' \<le> writer_idx b)"
proof -
  let ?v = "buffer_vec b @ replicate (writer_idx b + len - length (buffer_vec b)) (CHR 0x00)"
  have longer: "length (buffer_vec b) < writer_idx b + len"
    using need inv by (auto simp: buf_inv_sizes)
  then have eq: "makeSpace b len = Inr (b\<lparr>buffer_vec := ?v\<rparr>)"
    using grow room
    by (simp add: makeSpace_def makeSpace_sizes[OF inv room] resize_def buf_room_def)
  have inv': "buf_inv (b\<lparr>buffer_vec := ?v\<rparr>)"
    using inv room longer by (auto simp: buf_inv_def buf_room_def)
  show ?thesis
    using inv inv' longer
    by (simp add: eq buf_inv_sizes[OF inv']) (auto simp: contents_def buf_inv_def)
qed

text \<open>
  The compacting branch: its assertion \<open>CheapPrependSize < reader_idx_\<close> holds, because the
  caller needs more than the writable bytes and the free bytes suffice.
\<close>

lemma makeSpace_move:
  assumes inv: "buf_inv b" and room: "buf_room b len" and need: "writableBytes b < len"
    and move: "len + 8 \<le> length (buffer_vec b) - writer_idx b + reader_idx b"
  shows "okR (makeSpace b len) (\<lambda>b'. buf_inv b' \<and> contents b' = contents b \<and>
           len \<le> writableBytes b' \<and> writer_idx b' \<le> writer_idx b)"
proof -
  let ?r = "writer_idx b - reader_idx b"
  let ?b = "b\<lparr>buffer_vec := blit (buffer_vec b) 8 (contents b), reader_idx := 8, writer_idx := 8 + ?r\<rparr>"
  have r8: "8 < reader_idx b" and len: "length (contents b) = ?r"
    using move need inv by (auto simp: buf_inv_sizes)
  have fit: "8 + ?r \<le> length (buffer_vec b)" and rle: "reader_idx b + ?r \<le> length (buffer_vec b)"
    using r8 inv by (auto simp: buf_inv_def)
  have inv': "buf_inv ?b"
    using fit len inv by (auto simp: buf_inv_def)
  have cont': "contents ?b = contents b"
    using fit len take_drop_blit[of 8 "contents b" "buffer_vec b"]
    by (subst contents_def) simp
  have sz8: "sz_add 8 ?r = 8 + ?r"
    using fit inv by (intro sz_add_small) (auto simp: buf_inv_def max_size_def)
  have "makeSpace b len = Inr ?b"
    using move r8 fit rle len buf_inv_sizes(1)[OF inv] buf_inv_sizes(1)[OF inv']
    by (simp add: makeSpace_def makeSpace_sizes[OF inv room, unfolded CheapPrependSize_def]
        read_range_def write_range_def CheapPrependSize_def Let_def sz8 readableBytes_def [symmetric]
        contents_def [symmetric])
  moreover have "len \<le> writableBytes ?b"
    using move fit len inv by (simp add: buf_inv_sizes[OF inv']) (auto simp: buf_inv_def)
  moreover have "8 + ?r \<le> writer_idx b"
    using r8 inv by (auto simp: buf_inv_def)
  ultimately show ?thesis
    using inv' cont' by simp
qed

lemma ensureWritableBytes_ok:
  assumes "buf_inv b" and "buf_room b len"
  shows "okR (ensureWritableBytes b len) (\<lambda>b'. buf_inv b' \<and> contents b' = contents b \<and>
           len \<le> writableBytes b' \<and> writer_idx b' \<le> writer_idx b)"
proof (cases "writableBytes b < len")
  case True
  then have "okR (makeSpace b len) (\<lambda>b'. buf_inv b' \<and> contents b' = contents b \<and>
      len \<le> writableBytes b' \<and> writer_idx b' \<le> writer_idx b)"
    using assms makeSpace_grow[of b len] makeSpace_move[of b len]
    by (cases "length (buffer_vec b) - writer_idx b + reader_idx b < len + 8") simp_all
  with True show ?thesis
    by (auto simp: ensureWritableBytes_def wp elim: okR_mono)
next
  case False
  then show ?thesis using assms by (simp add: ensureWritableBytes_def)
qed

lemma write_at_end:
  assumes inv: "buf_inv b" and fit: "length data \<le> writableBytes b"
  defines "b' \<equiv> hasWritten (b\<lparr>buffer_vec := blit (buffer_vec b) (writer_idx b) data\<rparr>) (length data)"
  shows "writer_idx b + length data \<le> length (buffer_vec b)"
    and "buf_inv b'" and "contents b' = contents b @ data" and "writer_idx b' = writer_idx b + length data"
proof -
  show le: "writer_idx b + length data \<le> length (buffer_vec b)"
    using inv fit by (auto simp: buf_inv_sizes) (auto simp: buf_inv_def)
  then show w: "writer_idx b' = writer_idx b + length data"
    using inv by (simp add: b'_def hasWritten_def buf_inv_def sz_add_small max_size_def)
  show "buf_inv b'"
    using inv le w by (simp add: b'_def hasWritten_def buf_inv_def)
  have "contents b' = take (writer_idx b + length data - reader_idx b)
      (drop (reader_idx b) (blit (buffer_vec b) (writer_idx b) data))"
    unfolding contents_def w by (simp add: b'_def hasWritten_def)
  also have "writer_idx b + length data - reader_idx b = writer_idx b - reader_idx b + length data"
    using inv by (auto simp: buf_inv_def)
  also have "take \<dots> (drop (reader_idx b) (blit (buffer_vec b) (writer_idx b) data)) = contents b @ data"
    using inv le unfolding contents_def by (intro drop_blit_less) (auto simp: buf_inv_def)
  finally show "contents b' = contents b @ data" .
qed

lemma Buffer_append_ok:
  assumes "buf_inv b" and "buf_room b (length data)"
  shows "okR (Buffer_append b data) (\<lambda>b'. buf_inv b' \<and> contents b' = contents b @ data \<and>
           writer_idx b' \<le> writer_idx b + length data)"
proof -
  have "okR (ensureWritableBytes b (length data)) (\<lambda>b1. buf_inv b1 \<and> contents b1 = contents b \<and>
      length data \<le> writableBytes b1 \<and> writer_idx b1 \<le> writer_idx b)"
    using assms by (rule ensureWritableBytes_ok)
  then show ?thesis
    unfolding Buffer_append_def okR_bindR
    by (rule okR_mono) (auto simp: wp beginWrite_def write_at_end)
qed

lemma append_retrieve_roundtrip:
  assumes "buf_inv b" and "contents b = []" and "buf_room b (length data)"
  shows "okR (bindR (Buffer_append b data) retrieveAsString) (\<lambda>(s, b'). s = data \<and> contents b' = [])"
  unfolding okR_bindR
  using Buffer_append_ok[OF assms(1,3)]
  by (rule okR_mono) (use assms(2) in \<open>auto intro: okR_mono [OF retrieveAsString_ok]\<close>)


section \<open>Prepending and shrinking\<close>

lemma prepend_ok:
  assumes inv: "buf_inv b" and fit: "length data \<le> prependableBytes b"
  shows "okR (prepend b data) (\<lambda>b'. buf_inv b' \<and> contents b' = data @ contents b)"
proof -
  let ?o = "reader_idx b - length data"
  have sub: "sz_sub (reader_idx b) (length data) = ?o" and le: "?o + length data = reader_idx b"
    using inv fit by (auto simp: prependableBytes_def buf_inv_def sz max_size_def)
  have "take (writer_idx b - ?o) (drop ?o (blit (buffer_vec b) ?o data)) = data @ contents b"
    using inv le by (auto simp: blit_def contents_def buf_inv_def)
  then show ?thesis
    using inv fit le
    by (simp add: prepend_def wp Let_def sub) (auto simp: buf_inv_def contents_def)
qed

lemma prepend_fails:
  "prependableBytes b < length data \<Longrightarrow> prepend b data = Inl (AssertFailed ''buffer.h:120'')"
  by (simp add: prepend_def)

text \<open>
  \<open>shrink\<close> copies the readable bytes to offset \<open>CheapPrependSize\<close> of a fresh vector but leaves
  both indices as they were. It is right exactly when the reader index is still there.
\<close>

lemma shrink_eq:
  assumes inv: "buf_inv b" and fit: "8 + readableBytes b + reserve \<le> max_size"
  shows "shrink b reserve = Inr (b\<lparr>buffer_vec :=
           replicate 8 (CHR 0x00) @ contents b @ replicate reserve (CHR 0x00)\<rparr>)"
proof -
  have "sz_add 8 (readableBytes b) = 8 + readableBytes b"
    "sz_add (8 + readableBytes b) reserve = 8 + readableBytes b + reserve"
    using fit by (simp_all add: sz_add_small max_size_def)
  moreover have "reader_idx b + readableBytes b \<le> length (buffer_vec b)"
    "take (readableBytes b) (drop (reader_idx b) (buffer_vec b)) = contents b"
    "length (contents b) = readableBytes b"
    using inv by (auto simp: buf_inv_sizes contents_def buf_inv_def)
  ultimately show ?thesis
    using fit
    by (simp add: shrink_def CheapPrependSize_def resize_def read_range_def write_range_def peek_def
        blit_def)
qed

lemma shrink_at_front_ok:
  assumes inv: "buf_inv b" and fit: "8 + readableBytes b + reserve \<le> max_size"
    and front: "reader_idx b = CheapPrependSize"
  shows "okR (shrink b reserve) (\<lambda>b'. buf_inv b' \<and> contents b' = contents b \<and> writableBytes b' = reserve)"
proof -
  let ?b = "b\<lparr>buffer_vec := replicate 8 (CHR 0x00) @ contents b @ replicate reserve (CHR 0x00)\<rparr>"
  have len: "length (contents b) = writer_idx b - 8" and "8 \<le> writer_idx b"
    using inv front by (auto simp: buf_inv_sizes CheapPrependSize_def) (auto simp: buf_inv_def CheapPrependSize_def)
  then have inv': "buf_inv ?b"
    using inv fit front by (auto simp: buf_inv_def CheapPrependSize_def buf_inv_sizes)
  then have "writableBytes ?b = reserve"
    using len \<open>8 \<le> writer_idx b\<close> by (simp add: buf_inv_sizes)
  moreover have "contents ?b = contents b"
    using len front by (subst contents_def) (simp add: CheapPrependSize_def)
  ultimately show ?thesis
    using shrink_eq[OF inv fit] inv' by simp
qed

text \<open>
  With a reader index beyond the reserved space, the writer index ends up beyond the end of the
  new vector: the number of writable bytes wraps around and the next append, which finds more
  than enough room, writes outside the vector.
\<close>

lemma shrink_then_append_out_of_bounds:
  assumes inv: "buf_inv b" and fit: "8 + readableBytes b + reserve \<le> max_size"
    and off: "8 + reserve < reader_idx b" and data: "length data \<le> max_size" "data \<noteq> []"
  shows "bindR (shrink b reserve) (\<lambda>b'. Buffer_append b' data) = Inl OutOfBounds"
proof -
  let ?b = "b\<lparr>buffer_vec := replicate 8 (CHR 0x00) @ contents b @ replicate reserve (CHR 0x00)\<rparr>"
  have len: "length (contents b) = writer_idx b - reader_idx b"
    and w: "reader_idx b \<le> writer_idx b" "writer_idx b \<le> max_size"
    using inv by (auto simp: buf_inv_sizes) (auto simp: buf_inv_def)
  then have less: "length (buffer_vec ?b) < writer_idx b"
    using off by simp
  have "writableBytes ?b = 2 ^ 64 - (writer_idx b - length (buffer_vec ?b))"
    using less w by (simp add: writableBytes_def sz_sub_wrap max_size_def)
  then have "length data \<le> writableBytes ?b"
    using data w less by (simp add: max_size_def)
  moreover have "\<not> writer_idx b + length data \<le> length (buffer_vec ?b)"
    using less by simp
  ultimately show ?thesis
    unfolding shrink_eq[OF inv fit]
    by (simp add: Buffer_append_def ensureWritableBytes_def write_range_def beginWrite_def)
qed


section \<open>Reading from a descriptor\<close>

text \<open>
  What \<open>readv(2)\<close> documents of one call: it fails with \<open>-1\<close> and transfers nothing, or returns
  the number of bytes transferred, which the two areas can hold.
\<close>

definition readv_ok :: "(int \<times> byte list \<times> int) \<times> 'k \<Rightarrow> nat list \<Rightarrow> bool" where
  "readv_ok r lens = (case r of ((n, data, errno), k') \<Rightarrow>
     n = - 1 \<and> data = [] \<or> 0 \<le> n \<and> length data = nat n \<and> nat n \<le> sum_list lens)"

lemma readFd_ok:
  assumes inv: "buf_inv b" and room: "length (buffer_vec b) + extrabuf_size \<le> max_size"
    and rv: "readv fd [writableBytes b, extrabuf_size] k = ((n, data, errno), k')"
    and ok: "readv_ok ((n, data, errno), k') [writableBytes b, extrabuf_size]"
  shows "okR (readFd readv fd b k) (\<lambda>((m, saved, b'), k1). m = n \<and> k1 = k' \<and> buf_inv b' \<and>
           contents b' = contents b @ data \<and> saved = (if n < 0 then Some errno else None))"
proof -
  let ?w = "writableBytes b"
  let ?d = "take ?w data"
  let ?b1 = "b\<lparr>buffer_vec := blit (buffer_vec b) (writer_idx b) ?d\<rparr>"
  note w = write_at_end[OF inv, of ?d]
  have le: "writer_idx b + length ?d \<le> length (buffer_vec b)"
    using w(1) by simp
  consider (err) "n = - 1" "data = []" | (fits) "0 \<le> n" "length data = nat n" "nat n \<le> ?w"
    | (extra) "0 \<le> n" "length data = nat n" "?w < nat n" "nat n \<le> ?w + extrabuf_size"
    using ok by (cases "nat n \<le> ?w") (auto simp: readv_ok_def)
  then show ?thesis
  proof cases
    case err
    then show ?thesis using inv le by (simp add: readFd_def rv wp)
  next
    case fits
    then show ?thesis
      using w le by (simp add: readFd_def rv wp) (simp add: hasWritten_def)
  next
    case extra
    let ?b2 = "?b1\<lparr>writer_idx := length (buffer_vec ?b1)\<rparr>"
    have full: "writer_idx b + ?w = length (buffer_vec b)"
      using inv by (auto simp: buf_inv_sizes) (auto simp: buf_inv_def)
    then have b2: "?b2 = hasWritten ?b1 (length ?d)"
      using extra le w(4) by (simp add: hasWritten_def)
    have rest: "sz_sub (nat n) ?w = nat n - ?w"
      using extra room inv full by (intro sz_sub_small) (auto simp: max_size_def extrabuf_size_def)
    have "buf_room ?b2 (length (drop ?w data))"
      using extra room le by (simp add: buf_room_def)
    moreover have "buf_inv ?b2" and cont: "contents ?b2 = contents b @ ?d"
      unfolding b2 using w by simp_all
    ultimately have "okR (Buffer_append ?b2 (drop ?w data)) (\<lambda>b'. buf_inv b' \<and>
        contents b' = contents b @ data)"
      using Buffer_append_ok[of ?b2 "drop ?w data"] by (auto elim: okR_mono)
    then show ?thesis
      using extra le by (simp add: readFd_def rv rest wp Let_def)
  qed
qed


section \<open>The buffer as a byte queue\<close>

text \<open>
  The contract the connection layer uses: bytes enter at one end and leave in the same order at
  the other. \<open>room q n\<close> says that \<open>n\<close> more bytes stay below the size limit of a vector.
\<close>

datatype qop = Enq "byte list" | Deq nat

fun q_run :: "('q \<Rightarrow> byte list \<Rightarrow> 'q res) \<Rightarrow> ('q \<Rightarrow> nat \<Rightarrow> 'q res) \<Rightarrow> qop list \<Rightarrow> 'q \<Rightarrow> 'q res" where
  "q_run e d [] q = Inr q"
| "q_run e d (Enq xs # ops) q = bindR (e q xs) (q_run e d ops)"
| "q_run e d (Deq n # ops) q = bindR (d q n) (q_run e d ops)"

fun enqueued :: "qop list \<Rightarrow> byte list" where
  "enqueued [] = []"
| "enqueued (Enq xs # ops) = xs @ enqueued ops"
| "enqueued (Deq n # ops) = enqueued ops"

fun dequeued :: "qop list \<Rightarrow> nat" where
  "dequeued [] = 0"
| "dequeued (Enq xs # ops) = dequeued ops"
| "dequeued (Deq n # ops) = n + dequeued ops"

text \<open>No operation takes more bytes than are there: \<open>have\<close> is the number of queued bytes.\<close>

fun feasible :: "nat \<Rightarrow> qop list \<Rightarrow> bool" where
  "feasible have_bytes [] = True"
| "feasible have_bytes (Enq xs # ops) = feasible (have_bytes + length xs) ops"
| "feasible have_bytes (Deq n # ops) = (n \<le> have_bytes \<and> feasible (have_bytes - n) ops)"

locale byte_queue =
  fixes invar :: "'q \<Rightarrow> bool"
    and content :: "'q \<Rightarrow> byte list"
    and room :: "'q \<Rightarrow> nat \<Rightarrow> bool"
    and enq :: "'q \<Rightarrow> byte list \<Rightarrow> 'q res"
    and deq :: "'q \<Rightarrow> nat \<Rightarrow> 'q res"
  assumes enq_ok: "invar q \<Longrightarrow> room q (length xs + m) \<Longrightarrow>
      okR (enq q xs) (\<lambda>q'. invar q' \<and> content q' = content q @ xs \<and> room q' m)"
    and deq_ok: "invar q \<Longrightarrow> n \<le> length (content q) \<Longrightarrow> room q m \<Longrightarrow>
      okR (deq q n) (\<lambda>q'. invar q' \<and> content q' = drop n (content q) \<and> room q' m)"
    and deq_fail: "invar q \<Longrightarrow> length (content q) < n \<Longrightarrow> \<exists>e. deq q n = Inl e"
begin

lemma q_run_fifo:
  assumes "invar q" and "room q (length (enqueued ops))" and "feasible (length (content q)) ops"
  shows "okR (q_run enq deq ops q) (\<lambda>q'. invar q' \<and>
           content q' = drop (dequeued ops) (content q @ enqueued ops))"
  using assms
proof (induction ops arbitrary: q)
  case Nil
  then show ?case by simp
next
  case (Cons x ops)
  show ?case
  proof (cases x)
    case (Enq xs)
    have "okR (enq q xs) (\<lambda>q'. invar q' \<and> content q' = content q @ xs \<and> room q' (length (enqueued ops)))"
      using Cons.prems Enq by (intro enq_ok) simp_all
    then have "okR (enq q xs) (\<lambda>q1. okR (q_run enq deq ops q1) (\<lambda>q'. invar q' \<and>
        content q' = drop (dequeued ops) (content q @ xs @ enqueued ops)))"
      by (rule okR_mono) (use Cons.IH Cons.prems Enq in \<open>fastforce\<close>)
    then show ?thesis by (simp add: Enq wp)
  next
    case (Deq n)
    have "okR (deq q n) (\<lambda>q'. invar q' \<and> content q' = drop n (content q) \<and> room q' (length (enqueued ops)))"
      using Cons.prems Deq by (intro deq_ok) simp_all
    then have "okR (deq q n) (\<lambda>q1. okR (q_run enq deq ops q1) (\<lambda>q'. invar q' \<and>
        content q' = drop (n + dequeued ops) (content q @ enqueued ops)))"
    proof (rule okR_mono)
      fix q1 assume q1: "invar q1 \<and> content q1 = drop n (content q) \<and> room q1 (length (enqueued ops))"
      then have "okR (q_run enq deq ops q1) (\<lambda>q'. invar q' \<and>
          content q' = drop (dequeued ops) (drop n (content q) @ enqueued ops))"
        using Cons.IH[of q1] Cons.prems Deq by simp
      then show "okR (q_run enq deq ops q1) (\<lambda>q'. invar q' \<and>
          content q' = drop (n + dequeued ops) (content q @ enqueued ops))"
        by (rule okR_mono) (use Cons.prems Deq in \<open>simp add: add.commute\<close>)
    qed
    then show ?thesis by (simp add: Deq wp)
  qed
qed

lemma deq_too_many: "invar q \<Longrightarrow> length (content q) < n \<Longrightarrow> q_run enq deq (Deq n # ops) q \<noteq> Inr q'"
  using deq_fail[of q n] by auto

end

interpretation buf: byte_queue buf_inv contents buf_room Buffer_append retrieve
proof unfold_locales
  fix q and xs :: "byte list" and m
  assume "buf_inv q" and room: "buf_room q (length xs + m)"
  then have "okR (Buffer_append q xs) (\<lambda>q'. buf_inv q' \<and> contents q' = contents q @ xs \<and>
      writer_idx q' \<le> writer_idx q + length xs)"
    by (intro Buffer_append_ok) (simp_all add: buf_room_def)
  then show "okR (Buffer_append q xs) (\<lambda>q'. buf_inv q' \<and> contents q' = contents q @ xs \<and> buf_room q' m)"
    by (rule okR_mono) (use room in \<open>simp add: buf_room_def\<close>)
next
  fix q n m
  assume "buf_inv q" and "n \<le> length (contents q)" and room: "buf_room q m"
  then show "okR (retrieve q n) (\<lambda>q'. buf_inv q' \<and> contents q' = drop n (contents q) \<and> buf_room q' m)"
    using retrieve_ok[of q n] by (auto simp: buf_inv_sizes buf_room_def elim!: okR_mono)
next
  fix q n
  assume "buf_inv q" and "length (contents q) < n"
  then show "\<exists>e. retrieve q n = Inl e"
    using retrieve_fails[of q n] by (simp add: buf_inv_sizes)
qed



section \<open>Properties\<close>

text \<open>A freshly constructed buffer, on which the properties are applied.\<close>

definition demo_buffer :: buffer where
  "demo_buffer = \<lparr>buffer_vec = replicate 1032 (CHR 0x00), reader_idx = 8, writer_idx = 8\<rparr>"

lemma Buffer_ctor_demo: "Buffer_ctor = Inr demo_buffer"
  by (simp add: Buffer_ctor_def demo_buffer_def buffer_sizes buffer_consts sz check_def)

lemma demo_buffer_inv [simp]: "buf_inv demo_buffer" "contents demo_buffer = []" "buf_room demo_buffer n \<longleftrightarrow> 8 + n \<le> max_size"
  by (simp_all add: demo_buffer_def buf_inv_def contents_def buf_room_def CheapPrependSize_def max_size_def)

text \<open>
  C5: the buffer is a byte queue. For every sequence of \<open>append\<close> and \<open>retrieve\<close> calls that never
  asks for more bytes than are readable, no assertion and no memory access fails, whatever moves or
  growth of the storage it causes, and the readable bytes are what a queue would hold.
\<close>

theorem buffer_fifo:
  assumes "buf_inv b" and "buf_room b (length (enqueued ops))" and "feasible (length (contents b)) ops"
  shows "okR (q_run Buffer_append retrieve ops b) (\<lambda>b'. buf_inv b' \<and>
    contents b' = drop (dequeued ops) (contents b @ enqueued ops))"
  using assms by (rule buf.q_run_fifo)

theorem buffer_fifo_witness:
  "okR (q_run Buffer_append retrieve [Enq ''hello'', Deq 2, Enq ''!''] demo_buffer) (\<lambda>b'. buf_inv b' \<and>
    contents b' = ''llo!'')"
  using buffer_fifo[of demo_buffer "[Enq ''hello'', Deq 2, Enq ''!'']"] by (simp add: max_size_def)

text \<open>
  C21: \<open>readFd\<close> stores every byte that \<open>readv\<close> delivers, in order and behind the unread bytes,
  whether they fit into the buffer or spill into the stack area of 65536 bytes; it returns what
  \<open>readv\<close> returned, reports \<open>errno\<close> on failure and never writes outside the storage.
\<close>

theorem readFd_delivers:
  assumes "buf_inv b" and "length (buffer_vec b) + extrabuf_size \<le> max_size"
    and "readv fd [writableBytes b, extrabuf_size] k = ((n, data, errno), k')"
    and "readv_ok ((n, data, errno), k') [writableBytes b, extrabuf_size]"
  shows "okR (readFd readv fd b k) (\<lambda>((m, saved, b'), k1). m = n \<and> k1 = k' \<and> buf_inv b' \<and>
    contents b' = contents b @ data \<and> saved = (if n < 0 then Some errno else None))"
  using assms by (rule readFd_ok)

theorem readFd_delivers_witness:
  "okR (readFd (\<lambda>fd lens k. ((2000, replicate 2000 (CHR ''a''), 0), k)) 7 demo_buffer ())
    (\<lambda>((m, saved, b'), k1). m = 2000 \<and> k1 = () \<and> buf_inv b' \<and>
      contents b' = contents demo_buffer @ replicate 2000 (CHR ''a'') \<and> saved = (if (2000 :: int) < 0 then Some 0 else None))"
  by (rule readFd_delivers)
    (simp_all add: demo_buffer_def[THEN arg_cong[of _ _ buffer_vec]] readv_ok_def extrabuf_size_def max_size_def)

text \<open>
  A message appended to an empty buffer is what \<open>retrieveAsString\<close> returns, byte for byte, and
  the buffer is empty again.
\<close>

theorem message_roundtrip:
  assumes "buf_inv b" and "contents b = []" and "buf_room b (length data)"
  shows "okR (bindR (Buffer_append b data) retrieveAsString) (\<lambda>(s, b'). s = data \<and> contents b' = [])"
  using assms by (rule append_retrieve_roundtrip)

theorem message_roundtrip_witness:
  "okR (bindR (Buffer_append demo_buffer ''ping'') retrieveAsString) (\<lambda>(s, b'). s = ''ping'' \<and> contents b' = [])"
  using message_roundtrip[of demo_buffer "''ping''"] by (simp add: max_size_def)

text \<open>
  \<open>prepend\<close> of at most \<open>prependableBytes\<close> bytes puts them in front of the readable bytes without
  touching them; of more, it fails its assertion.
\<close>

theorem prepend_in_front:
  assumes "buf_inv b"
  shows "if length data \<le> prependableBytes b
    then okR (prepend b data) (\<lambda>b'. buf_inv b' \<and> contents b' = data @ contents b)
    else prepend b data = Inl (AssertFailed ''buffer.h:120'')"
  using prepend_ok[OF assms] prepend_fails[of b data] by simp

theorem prepend_in_front_witness:
  "okR (prepend demo_buffer ''len4'') (\<lambda>b'. buf_inv b' \<and> contents b' = ''len4'' @ contents demo_buffer)"
  using prepend_in_front[of demo_buffer "''len4''"]
  by (simp add: prependableBytes_def demo_buffer_def[THEN arg_cong[of _ _ reader_idx]])

text \<open>
  C40: \<open>shrink\<close> copies the readable bytes to the front of a smaller vector but leaves both indices as
  they were: once more than \<open>8 + reserve\<close> bytes lie before the readable ones, the next \<open>append\<close>
  writes outside the new vector.
\<close>

theorem shrink_stale_indices:
  assumes "buf_inv b" and "8 + readableBytes b + reserve \<le> max_size"
    and "8 + reserve < reader_idx b" and "length data \<le> max_size" and "data \<noteq> []"
  shows "bindR (shrink b reserve) (\<lambda>b'. Buffer_append b' data) = Inl OutOfBounds"
  using assms by (rule shrink_then_append_out_of_bounds)

theorem shrink_stale_indices_witness:
  "bindR (shrink \<lparr>buffer_vec = replicate 1032 (CHR 0x00), reader_idx = 20, writer_idx = 30\<rparr> 0)
     (\<lambda>b'. Buffer_append b' ''x'') = Inl OutOfBounds"
  by (rule shrink_stale_indices)
    (simp_all add: buf_inv_def buffer_sizes buffer_consts max_size_def sz)

end
