(* ===== verification/Channel.thy ===== *)
theory Channel
  imports Prelude
begin

unbundle bit_operations_syntax

text \<open>
  \<open>class Channel\<close> (\<open>src/src/include/channel.h\<close>, \<open>src/src/channel.cpp\<close>): one descriptor, the
  events it wants, the events that happened and its four callbacks. \<open>int\<close> masks are 32-bit
  words. Channels are objects on a heap \<open>nat \<rightharpoonup> 'cb channel\<close>, because the poller, the event
  loop and the connection all hold pointers to the same channel; \<open>'cb\<close> is the type of the bound
  member functions stored as callbacks. The member functions that go through the event loop
  (\<open>update\<close>, \<open>enableReading\<close>, \<open>handleEvents\<close> and their kin) are in theory \<open>EventLoop\<close>.
\<close>

section \<open>Event masks\<close>

type_synonym mask = "32 word"

text \<open>The flags of \<open>poll.h\<close> on Linux.\<close>

definition POLLIN :: mask where "POLLIN = 0x001"
definition POLLPRI :: mask where "POLLPRI = 0x002"
definition POLLOUT :: mask where "POLLOUT = 0x004"
definition POLLERR :: mask where "POLLERR = 0x008"
definition POLLHUP :: mask where "POLLHUP = 0x010"
definition POLLNVAL :: mask where "POLLNVAL = 0x020"
definition POLLRDHUP :: mask where "POLLRDHUP = 0x2000"

lemmas poll_flags = POLLIN_def POLLPRI_def POLLOUT_def POLLERR_def POLLHUP_def POLLNVAL_def
  POLLRDHUP_def

definition NoneEvent :: mask where
  "NoneEvent = 0"

definition ReadEvent :: mask where
  "ReadEvent = (POLLIN OR POLLPRI)"

definition WriteEvent :: mask where
  "WriteEvent = POLLOUT"

lemmas event_masks = NoneEvent_def ReadEvent_def WriteEvent_def

text \<open>A C condition \<open>if (m & f)\<close>.\<close>

definition has :: "mask \<Rightarrow> mask \<Rightarrow> bool" where
  "has m f \<longleftrightarrow> m AND f \<noteq> 0"


section \<open>The object\<close>

text \<open>
  \<open>owner_loop_\<close> is not set by the constructor: \<open>None\<close> is an indeterminate value. An empty
  \<open>std::function\<close> is \<open>None\<close>.
\<close>

record 'cb channel =
  ch_loop :: nat
  ch_fd :: int
  ch_events :: mask
  ch_revents :: mask
  ch_index :: int
  ch_owner_loop :: "nat option"
  ch_events_handling :: bool
  ch_read_cb :: "'cb option"
  ch_write_cb :: "'cb option"
  ch_error_cb :: "'cb option"
  ch_close_cb :: "'cb option"

type_synonym 'cb heap = "nat \<rightharpoonup> 'cb channel"

definition Channel_ctor :: "nat \<Rightarrow> int \<Rightarrow> 'cb channel" where
  "Channel_ctor loop fd =
     \<lparr>ch_loop = loop, ch_fd = fd, ch_events = 0, ch_revents = 0, ch_index = - 1,
      ch_owner_loop = None, ch_events_handling = False,
      ch_read_cb = None, ch_write_cb = None, ch_error_cb = None, ch_close_cb = None\<rparr>"

definition Channel_dtor :: "'cb channel \<Rightarrow> unit res" where
  "Channel_dtor ch = check (\<not> ch_events_handling ch) (AssertFailed ''channel.cpp:22'') (Inr ())"

definition getFd :: "'cb channel \<Rightarrow> int" where
  "getFd ch = ch_fd ch"

definition getEvents :: "'cb channel \<Rightarrow> mask" where
  "getEvents ch = ch_events ch"

definition setRevents :: "mask \<Rightarrow> 'cb channel \<Rightarrow> 'cb channel" where
  "setRevents r ch = ch\<lparr>ch_revents := r\<rparr>"

definition getIndex :: "'cb channel \<Rightarrow> int" where
  "getIndex ch = ch_index ch"

definition setIndex :: "int \<Rightarrow> 'cb channel \<Rightarrow> 'cb channel" where
  "setIndex i ch = ch\<lparr>ch_index := i\<rparr>"

definition isNoneEvent :: "'cb channel \<Rightarrow> bool" where
  "isNoneEvent ch \<longleftrightarrow> ch_events ch = NoneEvent"

definition isWriting :: "'cb channel \<Rightarrow> bool" where
  "isWriting ch \<longleftrightarrow> has (ch_events ch) WriteEvent"

definition getOwnerLoop :: "'cb channel \<Rightarrow> nat option" where
  "getOwnerLoop ch = ch_owner_loop ch"

definition setOwnerLoop :: "nat \<Rightarrow> 'cb channel \<Rightarrow> 'cb channel" where
  "setOwnerLoop l ch = ch\<lparr>ch_owner_loop := Some l\<rparr>"

definition setReadCallback :: "'cb \<Rightarrow> 'cb channel \<Rightarrow> 'cb channel" where
  "setReadCallback cb ch = ch\<lparr>ch_read_cb := Some cb\<rparr>"

definition setWriteCallback :: "'cb \<Rightarrow> 'cb channel \<Rightarrow> 'cb channel" where
  "setWriteCallback cb ch = ch\<lparr>ch_write_cb := Some cb\<rparr>"

definition setErrorCallback :: "'cb \<Rightarrow> 'cb channel \<Rightarrow> 'cb channel" where
  "setErrorCallback cb ch = ch\<lparr>ch_error_cb := Some cb\<rparr>"

definition setCloseCallback :: "'cb \<Rightarrow> 'cb channel \<Rightarrow> 'cb channel" where
  "setCloseCallback cb ch = ch\<lparr>ch_close_cb := Some cb\<rparr>"

lemmas channel_access = getFd_def getEvents_def setRevents_def getIndex_def setIndex_def
  getOwnerLoop_def setOwnerLoop_def setReadCallback_def setWriteCallback_def setErrorCallback_def
  setCloseCallback_def

lemma channel_access_frame [simp]:
  "ch_fd (setRevents r ch) = ch_fd ch"
  "ch_fd (setIndex i ch) = ch_fd ch"
  "ch_events (setRevents r ch) = ch_events ch"
  "ch_events (setIndex i ch) = ch_events ch"
  "ch_index (setRevents r ch) = ch_index ch"
  "ch_index (setIndex i ch) = i"
  "ch_owner_loop (setIndex i ch) = ch_owner_loop ch"
  "ch_owner_loop (setRevents r ch) = ch_owner_loop ch"
  by (simp_all add: channel_access)


section \<open>Masks and bits\<close>

text \<open>The four mask updates of \<open>enableReading\<close>, \<open>enableWriting\<close> and their inverses.\<close>

lemma has_or: "has (m OR n) f \<longleftrightarrow> has m f \<or> has n f"
  by (simp add: has_def bit.conj_disj_distrib2 or_eq_0_iff)

lemma has_and_not: "has (m AND NOT n) f \<longleftrightarrow> has m (f AND NOT n)"
  by (simp add: has_def ac_simps)

lemma has_const:
  "has WriteEvent WriteEvent" "\<not> has ReadEvent WriteEvent" "\<not> has NoneEvent f"
  "WriteEvent AND NOT WriteEvent = 0" "WriteEvent AND NOT ReadEvent = WriteEvent" "\<not> has m 0"
  by (simp_all add: has_def event_masks poll_flags)

lemma mask_fits_short: "m = NoneEvent \<Longrightarrow> (scast (ucast m :: 16 word) :: mask) = m"
  by (simp add: NoneEvent_def)

end
