(* ===== verification/Poller.thy ===== *)
theory Poller
  imports Channel
begin

unbundle bit_operations_syntax

text \<open>
  \<open>class Poller\<close> (\<open>src/src/include/poller.h\<close>, \<open>src/src/poller.cpp\<close>): the array handed to
  \<open>poll(2)\<close> and the map from descriptors to channels. The operations take the poller together
  with the channel heap, because they set the \<open>index_\<close> of channels. \<open>in_loop\<close> is the value of
  \<open>owner_loop_->isInLoopThread()\<close> for the calling thread. The theory shows that the array, the
  map and the channel indices stay consistent (so that none of the assertions fails), that the
  swap-and-pop removal is right, what \<open>fillActiveChannels\<close> dispatches, and how the poller
  implements the abstract table from descriptors to wanted events.
\<close>

section \<open>State and operations\<close>

record pollfd =
  pfd_fd :: int
  pfd_events :: "16 word"
  pfd_revents :: "16 word"

record poller =
  poll_fds :: "pollfd list"
  channel_map :: "int \<rightharpoonup> nat"

definition Poller_ctor :: poller where
  "Poller_ctor = \<lparr>poll_fds = [], channel_map = Map.empty\<rparr>"

fun fillActiveChannels ::
  "(int \<rightharpoonup> nat) \<Rightarrow> pollfd list \<Rightarrow> int \<Rightarrow> 'cb heap \<Rightarrow> nat list \<Rightarrow> ('cb heap \<times> nat list) res" where
  "fillActiveChannels cm [] numEvents h active = Inr (h, active)"
| "fillActiveChannels cm (pfd # pfds) numEvents h active =
     (if numEvents > 0 then
        if sint (pfd_revents pfd) > 0 then
          bindR (optR (AssertFailed ''poller.cpp:34'') (cm (pfd_fd pfd))) (\<lambda>c.
          bindR (deref h c) (\<lambda>channel.
          check (getFd channel = pfd_fd pfd) (AssertFailed ''poller.cpp:36'')
          (fillActiveChannels cm pfds (numEvents - 1)
             (h(c \<mapsto> setRevents (scast (pfd_revents pfd)) channel)) (active @ [c]))))
        else fillActiveChannels cm pfds numEvents h active
      else Inr (h, active))"

text \<open>
  \<open>Poller::poll\<close>. The system call \<open>poll(2)\<close> is a parameter: it returns the number of ready
  descriptors and the \<open>revents\<close> it stores into each entry, in the next kernel state.
\<close>

definition set_revents :: "pollfd list \<Rightarrow> 16 word list \<Rightarrow> pollfd list" where
  "set_revents pfds rs = map2 (\<lambda>pfd r. pfd\<lparr>pfd_revents := r\<rparr>) pfds rs"

definition Poller_poll ::
  "(pollfd list \<Rightarrow> int \<Rightarrow> 'k \<Rightarrow> (int \<times> 16 word list) \<times> 'k) \<Rightarrow> ('k \<Rightarrow> int \<times> 'k) \<Rightarrow> int \<Rightarrow>
   poller \<times> 'cb heap \<Rightarrow> nat list \<Rightarrow> 'k \<Rightarrow> ((int \<times> nat list) \<times> (poller \<times> 'cb heap) \<times> 'k) res" where
  "Poller_poll poll_sys now_sys timeoutMs ph activeChannels k =
     (let (p, h) = ph;
          ((numEvents, rs), k1) = poll_sys (poll_fds p) timeoutMs k;
          p1 = p\<lparr>poll_fds := set_revents (poll_fds p) rs\<rparr>;
          (now, k2) = now_sys k1 in
      if numEvents > 0 then
        bindR (fillActiveChannels (channel_map p1) (poll_fds p1) numEvents h activeChannels) (\<lambda>(h', act).
        Inr ((now, act), (p1, h'), k2))
      else Inr ((now, activeChannels), (p1, h), k2))"

definition Poller_updateChannel :: "bool \<Rightarrow> nat \<Rightarrow> poller \<times> 'cb heap \<Rightarrow> (poller \<times> 'cb heap) res" where
  "Poller_updateChannel in_loop c ph =
     (let (p, h) = ph in
      check in_loop NotInLoopThread
      (bindR (deref h c) (\<lambda>channel.
       if getIndex channel < 0 then
         check (channel_map p (getFd channel) = None) (AssertFailed ''poller.cpp:49'')
         (let pfd = \<lparr>pfd_fd = getFd channel, pfd_events = ucast (getEvents channel), pfd_revents = 0\<rparr>;
              pfds = poll_fds p @ [pfd] in
          Inr (p\<lparr>poll_fds := pfds, channel_map := (channel_map p)(pfd_fd pfd \<mapsto> c)\<rparr>,
               h(c \<mapsto> setIndex (int (length pfds) - 1) channel)))
       else
         check (channel_map p (getFd channel) \<noteq> None) (AssertFailed ''poller.cpp:59'')
         (check (channel_map p (getFd channel) = Some c) (AssertFailed ''poller.cpp:60'')
         (let idx = getIndex channel in
          check (idx \<ge> 0 \<and> idx < int (length (poll_fds p))) (AssertFailed ''poller.cpp:62'')
          (let pfd = poll_fds p ! nat idx in
           check (pfd_fd pfd = getFd channel \<or> pfd_fd pfd = - getFd channel - 1)
             (AssertFailed ''poller.cpp:66'')
           (let pfd1 = pfd\<lparr>pfd_events := ucast (getEvents channel), pfd_revents := 0\<rparr>;
                pfd2 = (if isNoneEvent channel then pfd1\<lparr>pfd_fd := - getFd channel - 1\<rparr> else pfd1) in
            Inr (p\<lparr>poll_fds := (poll_fds p)[nat idx := pfd2]\<rparr>, h))))))))"

definition Poller_removeChannel :: "bool \<Rightarrow> nat \<Rightarrow> poller \<times> 'cb heap \<Rightarrow> (poller \<times> 'cb heap) res" where
  "Poller_removeChannel in_loop c ph =
     (let (p, h) = ph in
      check in_loop NotInLoopThread
      (bindR (deref h c) (\<lambda>channel.
       check (channel_map p (getFd channel) \<noteq> None) (AssertFailed ''poller.cpp:85'')
       (check (channel_map p (getFd channel) = Some c) (AssertFailed ''poller.cpp:86'')
       (check (isNoneEvent channel) (AssertFailed ''poller.cpp:87'')
       (let idx = getIndex channel in
        check (0 \<le> idx \<and> idx < int (length (poll_fds p))) (AssertFailed ''poller.cpp:89'')
        (let pfd = poll_fds p ! nat idx in
         check (pfd_fd pfd = - getFd channel - 1 \<or> pfd_fd pfd = getFd channel)
           (AssertFailed ''poller.cpp:91'')
         (check (scast (pfd_events pfd) = getEvents channel) (AssertFailed ''poller.cpp:92'')
         (let cm = (channel_map p)(getFd channel := None) in
          if nat idx = length (poll_fds p) - 1 then
            Inr (p\<lparr>poll_fds := butlast (poll_fds p), channel_map := cm\<rparr>, h)
          else
            (let fd_at_end = pfd_fd (last (poll_fds p));
                 swapped = (poll_fds p)[nat idx := last (poll_fds p), length (poll_fds p) - 1 := pfd];
                 fd_at_end' = (if fd_at_end < 0 then - fd_at_end - 1 else fd_at_end) in
             bindR (deref cm fd_at_end') (\<lambda>c'.
             bindR (deref h c') (\<lambda>channel'.
             Inr (p\<lparr>poll_fds := butlast swapped, channel_map := cm\<rparr>,
                  h(c' \<mapsto> setIndex idx channel'))))))))))))))"


section \<open>The invariant\<close>

text \<open>
  The descriptor an entry stands for: an ignored entry holds \<open>- fd - 1\<close>.
\<close>

definition fd_key :: "int \<Rightarrow> int" where
  "fd_key f = (if f < 0 then - f - 1 else f)"

lemma fd_key_nonneg [simp]: "0 \<le> fd_key f"
  by (simp add: fd_key_def)

lemma fd_key_eq: "0 \<le> fd \<Longrightarrow> fd_key f = fd \<longleftrightarrow> f = fd \<or> f = - fd - 1"
  by (auto simp: fd_key_def)

lemma fd_key_id [simp]: "0 \<le> fd \<Longrightarrow> fd_key fd = fd" "0 \<le> fd \<Longrightarrow> fd_key (- fd - 1) = fd"
  by (simp_all add: fd_key_def)

text \<open>\<open>at_slot p h fd c i\<close>: channel \<open>c\<close> is registered for \<open>fd\<close> and owns entry \<open>i\<close> of the array.\<close>

definition at_slot :: "poller \<Rightarrow> 'cb heap \<Rightarrow> int \<Rightarrow> nat \<Rightarrow> nat \<Rightarrow> bool" where
  "at_slot p h fd c i \<longleftrightarrow> channel_map p fd = Some c \<and> i < length (poll_fds p) \<and>
     fd_key (pfd_fd (poll_fds p ! i)) = fd \<and>
     (\<exists>ch. h c = Some ch \<and> ch_fd ch = fd \<and> ch_index ch = int i)"

text \<open>Every registered channel owns an entry, and every entry is owned.\<close>

definition poller_inv :: "poller \<Rightarrow> 'cb heap \<Rightarrow> bool" where
  "poller_inv p h \<longleftrightarrow>
     (\<forall>fd c. channel_map p fd = Some c \<longrightarrow> 0 \<le> fd \<and> (\<exists>i. at_slot p h fd c i)) \<and>
     (\<forall>i < length (poll_fds p). \<exists>c. at_slot p h (fd_key (pfd_fd (poll_fds p ! i))) c i)"

definition registered :: "poller \<Rightarrow> 'cb heap \<Rightarrow> nat \<Rightarrow> bool" where
  "registered p h c \<longleftrightarrow> (\<exists>ch. h c = Some ch \<and> channel_map p (ch_fd ch) = Some c)"

definition unregistered :: "poller \<Rightarrow> 'cb heap \<Rightarrow> nat \<Rightarrow> bool" where
  "unregistered p h c \<longleftrightarrow> (\<exists>ch. h c = Some ch \<and> ch_index ch < 0 \<and> 0 \<le> ch_fd ch \<and>
     channel_map p (ch_fd ch) = None) \<and> c \<notin> ran (channel_map p)"

text \<open>The entry of every registered channel carries the events the channel wants.\<close>

definition events_synced :: "poller \<Rightarrow> 'cb heap \<Rightarrow> bool" where
  "events_synced p h \<longleftrightarrow> (\<forall>fd c i ch. at_slot p h fd c i \<longrightarrow> h c = Some ch \<longrightarrow>
     pfd_events (poll_fds p ! i) = ucast (ch_events ch))"

text \<open>The abstract table: which events each registered descriptor is polled for.\<close>

definition interest :: "poller \<Rightarrow> 'cb heap \<Rightarrow> int \<Rightarrow> 16 word option" where
  "interest p h fd = (case channel_map p fd of None \<Rightarrow> None
     | Some c \<Rightarrow> (case h c of None \<Rightarrow> None
        | Some ch \<Rightarrow> Some (pfd_events (poll_fds p ! nat (ch_index ch)))))"

lemma poller_inv_ctor: "poller_inv Poller_ctor h"
  by (simp add: poller_inv_def Poller_ctor_def)

lemma at_slotD:
  assumes "at_slot p h fd c i"
  shows "channel_map p fd = Some c" and "i < length (poll_fds p)"
    and "fd_key (pfd_fd (poll_fds p ! i)) = fd"
    and "\<exists>ch. h c = Some ch \<and> ch_fd ch = fd \<and> ch_index ch = int i"
  using assms by (auto simp: at_slot_def)

lemma at_slot_index: "at_slot p h fd c i \<Longrightarrow> h c = Some ch \<Longrightarrow> ch_index ch = int i \<and> ch_fd ch = fd"
  by (drule at_slotD(4)) simp

lemma at_slot_interest: "at_slot p h fd c i \<Longrightarrow> interest p h fd = Some (pfd_events (poll_fds p ! i))"
  using at_slotD(1,4) [of p h fd c i] by (auto simp: interest_def)

lemma at_slot_fd: "at_slot p h fd c i \<Longrightarrow> pfd_fd (poll_fds p ! i) = fd \<or> pfd_fd (poll_fds p ! i) = - fd - 1"
  by (drule at_slotD(3)) (auto simp: fd_key_def split: if_splits)

lemma at_slot_inj:
  assumes "at_slot p h fd c i" and "at_slot p h fd' c' i"
  shows "fd' = fd \<and> c' = c"
  using at_slotD(1,3)[OF assms(1)] at_slotD(1,3)[OF assms(2)] by simp

lemma at_slot_unique:
  assumes "at_slot p h fd c i" and "at_slot p h fd' c j"
  shows "fd' = fd \<and> j = i"
  using at_slotD(4)[OF assms(1)] at_slotD(4)[OF assms(2)] by auto

lemma at_slot_fun:
  assumes "at_slot p h fd c i" and "at_slot p h fd c' j"
  shows "c' = c \<and> j = i"
  using at_slotD(1,4)[OF assms(1)] at_slotD(1,4)[OF assms(2)] by auto

lemma poller_invD:
  assumes "poller_inv p h" and "channel_map p fd = Some c"
  shows "0 \<le> fd" and "\<exists>i. at_slot p h fd c i"
  using assms by (auto simp: poller_inv_def)

lemma poller_inv_slot:
  assumes "poller_inv p h" and "registered p h c" and "h c = Some ch"
  obtains i where "at_slot p h (ch_fd ch) c i" and "ch_index ch = int i" and "0 \<le> ch_fd ch"
proof -
  have cm: "channel_map p (ch_fd ch) = Some c"
    using assms by (auto simp: registered_def)
  then obtain i where "at_slot p h (ch_fd ch) c i"
    using poller_invD(2)[OF assms(1)] by blast
  then show ?thesis
    using that at_slot_index assms(3) poller_invD(1)[OF assms(1) cm] by blast
qed

lemma interest_None: "poller_inv p h \<Longrightarrow> interest p h fd = None \<longleftrightarrow> channel_map p fd = None"
  using poller_invD(2)[of p h fd] at_slot_interest[of p h fd]
  by (cases "channel_map p fd") (simp add: interest_def, fastforce)


section \<open>Registering and updating\<close>

lemma unregistered_slot_free: "unregistered p h c \<Longrightarrow> \<not> at_slot p h fd c i"
  by (auto simp: unregistered_def at_slot_def ran_def)

text \<open>A new channel: one entry is appended, and the channel remembers its index.\<close>

lemma update_new_eq:
  assumes "unregistered p h c" and "h c = Some ch"
  shows "Poller_updateChannel True c (p, h) =
    Inr (p\<lparr>poll_fds := poll_fds p @
               [\<lparr>pfd_fd = ch_fd ch, pfd_events = ucast (ch_events ch), pfd_revents = 0\<rparr>],
            channel_map := (channel_map p)(ch_fd ch \<mapsto> c)\<rparr>,
         h(c \<mapsto> setIndex (int (length (poll_fds p))) ch))"
  using assms by (auto simp: Poller_updateChannel_def unregistered_def channel_access)

lemma at_slot_new:
  assumes un: "unregistered p h c" and ch: "h c = Some ch"
    and eq: "Poller_updateChannel True c (p, h) = Inr (p', h')"
  shows "at_slot p' h' fd d i \<longleftrightarrow>
    at_slot p h fd d i \<or> (fd = ch_fd ch \<and> d = c \<and> i = length (poll_fds p))"
proof -
  have "0 \<le> ch_fd ch" and "channel_map p (ch_fd ch) = None" and "\<And>f. channel_map p f \<noteq> Some c"
    using un ch by (auto simp: unregistered_def ran_def)
  then show ?thesis
    using eq unfolding update_new_eq[OF un ch]
    by (auto simp: at_slot_def nth_append less_Suc_eq split: if_splits)
qed

lemma update_new_ok:
  assumes inv: "poller_inv p h" and un: "unregistered p h c" and ch: "h c = Some ch"
    and eq: "Poller_updateChannel True c (p, h) = Inr (p', h')"
  shows "poller_inv p' h'" and "registered p' h' c"
    and "events_synced p h \<Longrightarrow> events_synced p' h'"
    and "interest p' h' = (interest p h)(ch_fd ch \<mapsto> ucast (ch_events ch))"
proof -
  note slot = at_slot_new[OF un ch eq]
  note res = eq[unfolded update_new_eq[OF un ch]]
  have fd: "0 \<le> ch_fd ch"
    using un ch by (auto simp: unregistered_def)
  show inv': "poller_inv p' h'"
    using inv res fd unfolding poller_inv_def slot
    by (fastforce simp: nth_append less_Suc_eq split: if_splits)
  show "registered p' h' c"
    using res by (auto simp: registered_def)
  show "events_synced p' h'" if "events_synced p h"
    unfolding events_synced_def slot
  proof (intro allI impI, elim disjE)
    fix fd d i dh
    assume at: "at_slot p h fd d i" and "h' d = Some dh"
    then have "h d = Some dh" using res unregistered_slot_free[OF un] by (auto split: if_splits)
    then have "pfd_events (poll_fds p ! i) = ucast (ch_events dh)"
      using that at by (auto simp: events_synced_def)
    then show "pfd_events (poll_fds p' ! i) = ucast (ch_events dh)"
      using res at_slotD(2)[OF at] by (auto simp: nth_append)
  qed (use res in auto)
  show "interest p' h' = (interest p h)(ch_fd ch \<mapsto> ucast (ch_events ch))"
  proof
    fix fd
    show "interest p' h' fd = ((interest p h)(ch_fd ch \<mapsto> ucast (ch_events ch))) fd"
    proof (cases "fd = ch_fd ch")
      case True
      then have "at_slot p' h' fd c (length (poll_fds p))" by (simp add: slot)
      from at_slot_interest[OF this] show ?thesis using True res by auto
    next
      case False
      show ?thesis
      proof (cases "channel_map p fd")
        case None
        then show ?thesis using False res by (auto simp: interest_def)
      next
        case (Some d)
        then obtain i where "at_slot p h fd d i" using poller_invD(2)[OF inv] by blast
        moreover from this have "at_slot p' h' fd d i" by (simp add: slot)
        ultimately show ?thesis
          using False res by (auto simp: at_slot_interest) (auto simp: at_slot_def nth_append)
      qed
    qed
  qed
qed

text \<open>
  A registered channel: its entry gets the new events. An entry whose channel wants nothing is
  switched off by a negative descriptor.
\<close>

definition refreshed :: "'cb channel \<Rightarrow> pollfd \<Rightarrow> pollfd" where
  "refreshed ch pfd =
     (let pfd1 = pfd\<lparr>pfd_events := ucast (ch_events ch), pfd_revents := 0\<rparr> in
      if isNoneEvent ch then pfd1\<lparr>pfd_fd := - ch_fd ch - 1\<rparr> else pfd1)"

lemma refreshed_simps [simp]:
  "pfd_events (refreshed ch pfd) = ucast (ch_events ch)"
  "pfd_fd (refreshed ch pfd) = (if isNoneEvent ch then - ch_fd ch - 1 else pfd_fd pfd)"
  "pfd_revents (refreshed ch pfd) = 0"
  by (simp_all add: refreshed_def Let_def)

lemma update_existing_eq:
  assumes "at_slot p h fd c i" and "h c = Some ch" and "0 \<le> fd"
  shows "Poller_updateChannel True c (p, h) =
    Inr (p\<lparr>poll_fds := (poll_fds p)[i := refreshed ch (poll_fds p ! i)]\<rparr>, h)"
  using assms at_slot_fd[OF assms(1)]
  by (auto simp: Poller_updateChannel_def at_slot_def channel_access refreshed_def Let_def)

lemma at_slot_update:
  assumes at: "at_slot p h fd c i" and "0 \<le> fd" and "fd_key (pfd_fd e) = fd"
  shows "at_slot (p\<lparr>poll_fds := (poll_fds p)[i := e]\<rparr>) h fd' d j \<longleftrightarrow> at_slot p h fd' d j"
  using assms by (auto simp: at_slot_def nth_list_update)

lemma update_existing_ok:
  assumes inv: "poller_inv p h" and at: "at_slot p h fd c i" and ch: "h c = Some ch"
    and eq: "Poller_updateChannel True c (p, h) = Inr (p', h')"
  shows "poller_inv p' h'" and "registered p' h' c"
    and "events_synced p h \<or> (\<forall>fd' d j dh. at_slot p h fd' d j \<longrightarrow> d \<noteq> c \<longrightarrow> h d = Some dh \<longrightarrow>
           pfd_events (poll_fds p ! j) = ucast (ch_events dh)) \<Longrightarrow> events_synced p' h'"
    and "interest p' h' = (interest p h)(fd \<mapsto> ucast (ch_events ch))"
proof -
  have fd: "0 \<le> fd" and cm: "channel_map p fd = Some c"
    using inv at by (auto simp: poller_inv_def at_slot_def)
  let ?e = "refreshed ch (poll_fds p ! i)"
  have res: "p' = p\<lparr>poll_fds := (poll_fds p)[i := ?e]\<rparr>" "h' = h"
    using eq update_existing_eq[OF at ch fd] by auto
  have i: "i < length (poll_fds p)" and key: "fd_key (pfd_fd ?e) = fd"
    using at_slotD(2,3)[OF at] at_slot_index[OF at ch] fd by auto
  have slot: "at_slot p' h' fd' d j \<longleftrightarrow> at_slot p h fd' d j" for fd' d j
    unfolding res by (rule at_slot_update[OF at fd key])
  have keys: "fd_key (pfd_fd (poll_fds p' ! j)) = fd_key (pfd_fd (poll_fds p ! j))" for j
    using at key i by (auto simp: res nth_list_update at_slot_def)
  show "poller_inv p' h'"
    using inv unfolding poller_inv_def slot keys by (simp add: res)
  show "registered p' h' c"
    using cm at ch by (auto simp: registered_def res at_slot_def)
  show "events_synced p' h'" if "events_synced p h \<or> (\<forall>fd' d j dh. at_slot p h fd' d j \<longrightarrow> d \<noteq> c \<longrightarrow>
      h d = Some dh \<longrightarrow> pfd_events (poll_fds p ! j) = ucast (ch_events dh))"
    unfolding events_synced_def slot
  proof (intro allI impI)
    fix fd' d j dh
    assume j: "at_slot p h fd' d j" and d: "h' d = Some dh"
    show "pfd_events (poll_fds p' ! j) = ucast (ch_events dh)"
    proof (cases "d = c")
      case True
      then have "j = i" using at_slot_unique[OF at] j by blast
      then show ?thesis using d ch i True by (simp add: res)
    next
      case False
      then have "j \<noteq> i" using at_slot_inj[OF at] j by blast
      moreover have "pfd_events (poll_fds p ! j) = ucast (ch_events dh)"
        using that j d False unfolding events_synced_def res by blast
      ultimately show ?thesis by (simp add: res)
    qed
  qed
  show "interest p' h' = (interest p h)(fd \<mapsto> ucast (ch_events ch))"
  proof
    fix fd'
    show "interest p' h' fd' = ((interest p h)(fd \<mapsto> ucast (ch_events ch))) fd'"
    proof (cases "channel_map p fd'")
      case None
      then show ?thesis using cm by (auto simp: interest_def res)
    next
      case (Some d)
      then obtain j where j: "at_slot p h fd' d j" using poller_invD(2)[OF inv] by blast
      then have "interest p' h' fd' = Some (pfd_events (poll_fds p' ! j))"
        by (intro at_slot_interest) (simp add: slot)
      then show ?thesis
        using at_slot_interest[OF j] j at i
        by (auto simp: res nth_list_update dest: at_slot_inj at_slot_fun)
    qed
  qed
qed


section \<open>Removing: swap with the last entry and pop\<close>

lemma butlast_swap:
  "i < length xs - 1 \<Longrightarrow> butlast (xs[i := a, length xs - 1 := b]) = (butlast xs)[i := a]"
  by (simp add: butlast_list_update)

lemma remove_last_eq:
  assumes at: "at_slot p h fd c i" and ch: "h c = Some ch" and fd: "0 \<le> fd"
    and none: "isNoneEvent ch" and ev: "pfd_events (poll_fds p ! i) = 0"
    and last: "i = length (poll_fds p) - 1"
  shows "Poller_removeChannel True c (p, h) =
    Inr (p\<lparr>poll_fds := butlast (poll_fds p), channel_map := (channel_map p)(fd := None)\<rparr>, h)"
proof -
  have "ch_events ch = 0" using none by (simp add: isNoneEvent_def NoneEvent_def)
  moreover have "pfd_fd (poll_fds p ! i) = - fd - 1 \<or> pfd_fd (poll_fds p ! i) = fd"
    using at_slot_fd[OF at] by blast
  moreover have "length (poll_fds p) - Suc 0 = i"
    using last by simp
  ultimately show ?thesis
    using at_slotD(1,2)[OF at] at_slot_index[OF at ch] ch none ev
    by (simp add: Poller_removeChannel_def channel_access Let_def)
qed

lemma remove_swap_eq:
  assumes at: "at_slot p h fd c i" and ch: "h c = Some ch" and fd: "0 \<le> fd"
    and none: "isNoneEvent ch" and ev: "pfd_events (poll_fds p ! i) = 0"
    and less: "i < length (poll_fds p) - 1"
    and at': "at_slot p h fd' c' (length (poll_fds p) - 1)" and ch': "h c' = Some ch'"
  shows "Poller_removeChannel True c (p, h) =
    Inr (p\<lparr>poll_fds := (butlast (poll_fds p))[i := last (poll_fds p)],
            channel_map := (channel_map p)(fd := None)\<rparr>, h(c' \<mapsto> setIndex (int i) ch'))"
proof -
  have ne: "poll_fds p \<noteq> []" using less by auto
  have key: "(if pfd_fd (last (poll_fds p)) < 0 then - pfd_fd (last (poll_fds p)) - 1
      else pfd_fd (last (poll_fds p))) = fd'"
    using at_slotD(3)[OF at'] by (simp add: fd_key_def last_conv_nth[OF ne] split: if_splits)
  have "fd' \<noteq> fd"
    using at_slot_fun[OF at, of c'] at' less by auto
  then have "((channel_map p)(fd := None)) fd' = Some c'"
    using at_slotD(1)[OF at'] by simp
  then show ?thesis
    using at_slotD(1,2)[OF at] at_slot_index[OF at ch] at_slot_fd[OF at] ch none ev less ch' key
      butlast_swap[OF less, of "last (poll_fds p)" "poll_fds p ! i"]
    by (auto simp: Poller_removeChannel_def channel_access isNoneEvent_def NoneEvent_def Let_def)
qed

text \<open>
  Where everything is after a removal: the last entry takes the free slot, the others stay.
\<close>

lemma at_slot_remove:
  assumes inv: "poller_inv p h" and at: "at_slot p h fd c i" and ch: "h c = Some ch"
    and none: "isNoneEvent ch" and ev: "pfd_events (poll_fds p ! i) = 0"
  obtains p' h' where "Poller_removeChannel True c (p, h) = Inr (p', h')"
    and "channel_map p' = (channel_map p)(fd := None)"
    and "Suc (length (poll_fds p')) = length (poll_fds p)"
    and "\<And>j. j < length (poll_fds p') \<Longrightarrow>
           poll_fds p' ! j = poll_fds p ! (if j = i then length (poll_fds p') else j)"
    and "\<And>fd' d j. j < length (poll_fds p') \<Longrightarrow>
           at_slot p' h' fd' d j \<longleftrightarrow> at_slot p h fd' d (if j = i then length (poll_fds p') else j)"
    and "\<And>d. map_option ch_events (h' d) = map_option ch_events (h d)"
proof -
  let ?n = "length (poll_fds p) - 1"
  have i: "i < length (poll_fds p)" and fd: "0 \<le> fd" and ne: "poll_fds p \<noteq> []"
    using at_slotD(1,2)[OF at] poller_invD(1)[OF inv] by auto
  show ?thesis
  proof (cases "i = ?n")
    case True
    have free: "at_slot p h fd' d j \<Longrightarrow> j < ?n \<Longrightarrow> fd' \<noteq> fd" for fd' d j
      using at_slot_fun[OF at, of d j] True by auto
    show ?thesis
    proof (rule that[OF remove_last_eq[OF at ch fd none ev True]])
      fix fd' d j
      assume "j < length (poll_fds (p\<lparr>poll_fds := butlast (poll_fds p),
                                       channel_map := (channel_map p)(fd := None)\<rparr>))"
      then have j: "j < ?n" by simp
      then show "at_slot (p\<lparr>poll_fds := butlast (poll_fds p),
                            channel_map := (channel_map p)(fd := None)\<rparr>) h fd' d j \<longleftrightarrow>
           at_slot p h fd' d (if j = i then length (poll_fds (p\<lparr>poll_fds := butlast (poll_fds p),
                            channel_map := (channel_map p)(fd := None)\<rparr>)) else j)"
        using True free[of fd' d j] by (auto simp: at_slot_def nth_butlast)
    qed (use True i in \<open>auto simp: nth_butlast\<close>)
  next
    case False
    then have less: "i < ?n" using i by simp
    obtain c' where at': "at_slot p h (fd_key (pfd_fd (poll_fds p ! ?n))) c' ?n"
      using inv ne unfolding poller_inv_def by (meson diff_less length_greater_0_conv zero_less_one)
    obtain ch' where ch': "h c' = Some ch'" using at_slotD(4)[OF at'] by blast
    define fd' where "fd' = fd_key (pfd_fd (poll_fds p ! ?n))"
    note at' = at'[folded fd'_def]
    let ?p = "p\<lparr>poll_fds := (butlast (poll_fds p))[i := last (poll_fds p)],
                channel_map := (channel_map p)(fd := None)\<rparr>"
    let ?h = "h(c' \<mapsto> setIndex (int i) ch')"
    have nth: "j < ?n \<Longrightarrow> poll_fds ?p ! j = poll_fds p ! (if j = i then ?n else j)" for j
      by (simp add: nth_list_update nth_butlast last_conv_nth[OF ne])
    have free: "at_slot p h f d j \<Longrightarrow> j \<noteq> i \<Longrightarrow> f \<noteq> fd" for f d j
      using at_slot_fun[OF at, of d j] by auto
    have other: "at_slot p h f d j \<Longrightarrow> j < ?n \<Longrightarrow> d \<noteq> c'" for f d j
      using at_slot_unique[OF at', of f j] by auto
    have slot: "at_slot ?p ?h f d j \<longleftrightarrow> at_slot p h f d (if j = i then ?n else j)" if j: "j < ?n" for f d j
    proof (cases "j = i")
      case True
      have "at_slot ?p ?h f d i \<longleftrightarrow> f = fd' \<and> d = c'"
      proof
        assume a: "at_slot ?p ?h f d i"
        then have "f = fd'" using at_slotD(3)[OF a] nth[OF less] by (simp add: fd'_def)
        then show "f = fd' \<and> d = c'"
          using at_slotD(1)[OF a] at_slotD(1)[OF at'] by (auto split: if_splits)
      next
        assume "f = fd' \<and> d = c'"
        then show "at_slot ?p ?h f d i"
          using at_slotD(1)[OF at'] at_slot_index[OF at' ch'] free[OF at'] less nth[OF less]
          by (auto simp: at_slot_def fd'_def)
      qed
      moreover have "at_slot p h f d ?n \<longleftrightarrow> f = fd' \<and> d = c'"
        using at' at_slot_inj[OF at'] by blast
      ultimately show ?thesis using True by simp
    next
      case False
      then show ?thesis
        using j nth[OF j] free[of f d j] other[of f d j] less
        by (auto simp: at_slot_def split: if_splits)
    qed
    show ?thesis
      by (rule that[OF remove_swap_eq[OF at ch fd none ev less at' ch']])
         (use less nth slot ch' in \<open>auto simp: setIndex_def\<close>)
  qed
qed

lemma remove_ok:
  assumes inv: "poller_inv p h" and sync: "events_synced p h"
    and reg: "registered p h c" and ch: "h c = Some ch" and none: "isNoneEvent ch"
  shows "okR (Poller_removeChannel True c (p, h)) (\<lambda>(p', h'). poller_inv p' h' \<and> events_synced p' h' \<and>
           \<not> registered p' h' c \<and> interest p' h' = (interest p h)(ch_fd ch := None) \<and>
           channel_map p' = (channel_map p)(ch_fd ch := None))"
proof -
  obtain i where at: "at_slot p h (ch_fd ch) c i"
    using poller_inv_slot[OF inv reg ch] by blast
  have ev: "pfd_events (poll_fds p ! i) = 0"
    using sync at ch none by (auto simp: events_synced_def isNoneEvent_def NoneEvent_def)
  obtain p' h' where eq: "Poller_removeChannel True c (p, h) = Inr (p', h')"
    and cm: "channel_map p' = (channel_map p)(ch_fd ch := None)"
    and len: "Suc (length (poll_fds p')) = length (poll_fds p)"
    and nth: "\<And>j. j < length (poll_fds p') \<Longrightarrow>
           poll_fds p' ! j = poll_fds p ! (if j = i then length (poll_fds p') else j)"
    and slot: "\<And>fd' d j. j < length (poll_fds p') \<Longrightarrow>
           at_slot p' h' fd' d j \<longleftrightarrow> at_slot p h fd' d (if j = i then length (poll_fds p') else j)"
    and evs: "\<And>d. map_option ch_events (h' d) = map_option ch_events (h d)"
    using at_slot_remove[OF inv at ch none ev] by blast
  let ?n = "length (poll_fds p')"
  have moved: "\<exists>j. at_slot p' h' f d j \<and> pfd_events (poll_fds p' ! j) = pfd_events (poll_fds p ! k)"
    if k: "at_slot p h f d k" and f: "f \<noteq> ch_fd ch" for f d k
  proof -
    have "k \<noteq> i" and "k < Suc ?n"
      using at_slot_inj[OF at, of f d] k f at_slotD(2)[OF k] len by auto
    moreover have "i < Suc ?n" using at_slotD(2)[OF at] len by simp
    ultimately show ?thesis
      using slot[of i f d] slot[of k f d] nth[of i] nth[of k] k
      by (cases "k = ?n") (auto intro: exI [of _ i] exI [of _ k])
  qed
  have inv': "poller_inv p' h'"
    unfolding poller_inv_def
  proof (intro conjI allI impI)
    fix f d
    assume "channel_map p' f = Some d"
    then have f: "f \<noteq> ch_fd ch" "channel_map p f = Some d" by (auto simp: cm split: if_splits)
    then show "0 \<le> f" using poller_invD(1)[OF inv] by blast
    show "\<exists>j. at_slot p' h' f d j"
      using poller_invD(2)[OF inv f(2)] moved f(1) by blast
  next
    fix j
    assume j: "j < ?n"
    then have "(if j = i then ?n else j) < length (poll_fds p)" using len by simp
    then show "\<exists>d. at_slot p' h' (fd_key (pfd_fd (poll_fds p' ! j))) d j"
      using inv j unfolding slot[OF j] nth[OF j] poller_inv_def by blast
  qed
  have sync': "events_synced p' h'"
    unfolding events_synced_def
  proof (intro allI impI)
    fix f d j dh
    assume a: "at_slot p' h' f d j" and "h' d = Some dh"
    then obtain dh0 where "h d = Some dh0" "ch_events dh0 = ch_events dh"
      using evs[of d] by (cases "h d") auto
    then show "pfd_events (poll_fds p' ! j) = ucast (ch_events dh)"
      using a slot[OF at_slotD(2)[OF a]] nth[OF at_slotD(2)[OF a]] sync
      unfolding events_synced_def by metis
  qed
  have "interest p' h' = (interest p h)(ch_fd ch := None)"
  proof
    fix f
    show "interest p' h' f = ((interest p h)(ch_fd ch := None)) f"
    proof (cases "f = ch_fd ch \<or> channel_map p f = None")
      case True
      then show ?thesis by (auto simp: interest_def cm)
    next
      case False
      then obtain d k where "at_slot p h f d k" using poller_invD(2)[OF inv] by blast
      then show ?thesis
        using moved[of f d k] False at_slot_interest[of p h f d k] at_slot_interest[of p' h' f d] by auto
    qed
  qed
  moreover have "\<not> registered p' h' c"
  proof
    assume "registered p' h' c"
    then obtain f where f: "channel_map p' f = Some c" by (auto simp: registered_def)
    then obtain k where "at_slot p h f c k"
      using poller_invD(2)[OF inv, of f c] by (auto simp: cm split: if_splits)
    then show False using f at_slot_unique[OF at] by (auto simp: cm)
  qed
  ultimately show ?thesis using eq inv' sync' cm by simp
qed


section \<open>Dispatching ready descriptors\<close>

definition ready :: "pollfd list \<Rightarrow> pollfd list" where
  "ready pfds = filter (\<lambda>pfd. sint (pfd_revents pfd) > 0) pfds"

text \<open>
  With the count that \<open>poll(2)\<close> returns, \<open>fillActiveChannels\<close> visits every ready entry: it
  appends their channels in array order and stores their events, and changes nothing else.
\<close>

lemma fillActiveChannels_ok:
  assumes "\<forall>pfd \<in> set (ready pfds). \<exists>c ch. cm (pfd_fd pfd) = Some c \<and> h c = Some ch \<and> ch_fd ch = pfd_fd pfd"
    and "numEvents = int (length (ready pfds))"
    and "distinct (map (\<lambda>pfd. the (cm (pfd_fd pfd))) (ready pfds))"
  shows "okR (fillActiveChannels cm pfds numEvents h active) (\<lambda>(h', act).
      act = active @ map (\<lambda>pfd. the (cm (pfd_fd pfd))) (ready pfds) \<and>
      (\<forall>d. map_option (setRevents 0) (h' d) = map_option (setRevents 0) (h d)) \<and>
      (\<forall>d. d \<notin> (\<lambda>pfd. the (cm (pfd_fd pfd))) ` set (ready pfds) \<longrightarrow> h' d = h d) \<and>
      (\<forall>pfd \<in> set (ready pfds). \<exists>ch. h' (the (cm (pfd_fd pfd))) = Some ch \<and>
         ch_revents ch = scast (pfd_revents pfd)))"
  using assms
proof (induction cm pfds numEvents h active rule: fillActiveChannels.induct)
  case (1 cm numEvents h active)
  then show ?case by (simp add: ready_def)
next
  case (2 cm pfd pfds numEvents h active)
  show ?case
  proof (cases "sint (pfd_revents pfd) > 0")
    case False
    then have r: "ready (pfd # pfds) = ready pfds" by (simp add: ready_def)
    show ?thesis
      using 2 False unfolding r by (cases "numEvents > 0") (auto simp: ready_def)
  next
    case True
    then have r: "ready (pfd # pfds) = pfd # ready pfds" by (simp add: ready_def)
    obtain c ch where c: "cm (pfd_fd pfd) = Some c" "h c = Some ch" "ch_fd ch = pfd_fd pfd"
      using "2.prems"(1) by (auto simp: r)
    let ?h = "h(c \<mapsto> setRevents (scast (pfd_revents pfd)) ch)"
    have pos: "numEvents > 0" and n: "numEvents - 1 = int (length (ready pfds))"
      using "2.prems"(2) by (auto simp: r)
    have reg: "\<forall>q \<in> set (ready pfds). \<exists>d dh. cm (pfd_fd q) = Some d \<and> ?h d = Some dh \<and> ch_fd dh = pfd_fd q"
      using "2.prems"(1) c by (fastforce simp: r)
    have dist: "distinct (map (\<lambda>q. the (cm (pfd_fd q))) (ready pfds))"
      and fresh: "c \<notin> (\<lambda>q. the (cm (pfd_fd q))) ` set (ready pfds)"
      using "2.prems"(3) c by (auto simp: r)
    have "okR (fillActiveChannels cm pfds (numEvents - 1) ?h (active @ [c])) (\<lambda>(h', act).
      act = (active @ [c]) @ map (\<lambda>q. the (cm (pfd_fd q))) (ready pfds) \<and>
      (\<forall>d. map_option (setRevents 0) (h' d) = map_option (setRevents 0) (?h d)) \<and>
      (\<forall>d. d \<notin> (\<lambda>q. the (cm (pfd_fd q))) ` set (ready pfds) \<longrightarrow> h' d = ?h d) \<and>
      (\<forall>q \<in> set (ready pfds). \<exists>dh. h' (the (cm (pfd_fd q))) = Some dh \<and> ch_revents dh = scast (pfd_revents q)))"
      by (rule "2.IH"(1)[OF pos True _ _ reg n dist]) (use c in simp_all)
    then show ?thesis
      using True pos c fresh
      by (auto simp: wp r getFd_def setRevents_def [abs_def] elim!: okR_mono)
  qed
qed

text \<open>Changing only the events that happened changes nothing about registration.\<close>

definition same_but_revents :: "'cb heap \<Rightarrow> 'cb heap \<Rightarrow> bool" where
  "same_but_revents h' h \<longleftrightarrow> (\<forall>d. map_option (setRevents 0) (h' d) = map_option (setRevents 0) (h d))"

lemma same_but_revents_SomeD:
  assumes "same_but_revents h' h" and "h' d = Some dh'"
  shows "\<exists>dh. h d = Some dh \<and> dh' = setRevents (ch_revents dh') dh"
proof -
  obtain dh where dh: "h d = Some dh" and eq: "setRevents 0 dh' = setRevents 0 dh"
    using assms unfolding same_but_revents_def by (metis map_option_eq_Some)
  have "dh' = setRevents (ch_revents dh') (setRevents 0 dh')" by (simp add: setRevents_def)
  also have "\<dots> = setRevents (ch_revents dh') dh" unfolding eq by (simp add: setRevents_def)
  finally show ?thesis using dh by blast
qed

lemma same_but_revents_sym: "same_but_revents h' h \<Longrightarrow> same_but_revents h h'"
  by (simp add: same_but_revents_def)

lemma same_but_revents_fields:
  assumes "same_but_revents h' h" and "h' d = Some dh'"
  shows "\<exists>dh. h d = Some dh \<and> ch_fd dh = ch_fd dh' \<and> ch_index dh = ch_index dh' \<and> ch_events dh = ch_events dh'"
proof -
  obtain dh where "h d = Some dh" and eq: "dh' = setRevents (ch_revents dh') dh"
    using same_but_revents_SomeD[OF assms] by blast
  moreover have "ch_fd dh' = ch_fd dh" "ch_index dh' = ch_index dh" "ch_events dh' = ch_events dh"
    by (subst eq, simp)+
  ultimately show ?thesis by simp
qed

lemma at_slot_revents:
  assumes "same_but_revents h' h" and "length rs = length (poll_fds p)"
  shows "at_slot (p\<lparr>poll_fds := set_revents (poll_fds p) rs\<rparr>) h' fd c i \<longleftrightarrow> at_slot p h fd c i"
proof -
  have "(\<exists>ch. h' c = Some ch \<and> ch_fd ch = fd \<and> ch_index ch = int i) \<longleftrightarrow>
      (\<exists>ch. h c = Some ch \<and> ch_fd ch = fd \<and> ch_index ch = int i)"
    using same_but_revents_fields[OF assms(1), of c] same_but_revents_fields[OF same_but_revents_sym[OF assms(1)], of c]
    by fastforce
  then show ?thesis
    using assms(2) by (auto simp: at_slot_def set_revents_def)
qed

lemma inv_revents:
  assumes "same_but_revents h' h" and "length rs = length (poll_fds p)"
  shows "poller_inv p h \<Longrightarrow> poller_inv (p\<lparr>poll_fds := set_revents (poll_fds p) rs\<rparr>) h'"
    and "events_synced p h \<Longrightarrow> events_synced (p\<lparr>poll_fds := set_revents (poll_fds p) rs\<rparr>) h'"
proof -
  let ?p = "p\<lparr>poll_fds := set_revents (poll_fds p) rs\<rparr>"
  note slot = at_slot_revents[OF assms]
  have nth: "i < length (poll_fds p) \<Longrightarrow> pfd_fd (set_revents (poll_fds p) rs ! i) = pfd_fd (poll_fds p ! i) \<and>
      pfd_events (set_revents (poll_fds p) rs ! i) = pfd_events (poll_fds p ! i)" for i
    using assms(2) by (simp add: set_revents_def)
  have len: "length (poll_fds ?p) = length (poll_fds p)"
    using assms(2) by (simp add: set_revents_def)
  show "poller_inv ?p h'" if "poller_inv p h"
    using that unfolding poller_inv_def slot len by (auto simp: nth)
  show "events_synced ?p h'" if "events_synced p h"
    unfolding events_synced_def slot
  proof (intro allI impI)
    fix fd c i ch
    assume a: "at_slot p h fd c i" and "h' c = Some ch"
    then obtain ch0 where "h c = Some ch0" "ch_events ch0 = ch_events ch"
      using same_but_revents_fields[OF assms(1)] by blast
    then show "pfd_events (poll_fds ?p ! i) = ucast (ch_events ch)"
      using that a nth[OF at_slotD(2)[OF a]] by (auto simp: events_synced_def)
  qed
qed

text \<open>
  What \<open>poll(2)\<close> documents: one result per entry, none for entries with a negative descriptor,
  flags below the sign bit of \<open>short\<close>, and a positive return value counts the non-zero results.
\<close>

definition poll_ok :: "pollfd list \<Rightarrow> int \<times> 16 word list \<Rightarrow> bool" where
  "poll_ok pfds r = (case r of (n, rs) \<Rightarrow> length rs = length pfds \<and>
     (\<forall>i < length pfds. pfd_fd (pfds ! i) < 0 \<longrightarrow> rs ! i = 0) \<and>
     (\<forall>x \<in> set rs. 0 \<le> sint x) \<and>
     (0 < n \<longrightarrow> n = int (length (filter (\<lambda>x. x \<noteq> 0) rs))))"

lemma ready_set_revents:
  assumes "length rs = length pfds" and "\<forall>x \<in> set rs. 0 \<le> sint x"
  shows "length (ready (set_revents pfds rs)) = length (filter (\<lambda>x. x \<noteq> 0) rs)"
  using assms
proof (induction pfds rs rule: list_induct2')
  case (4 pfd pfds x rs)
  have "sint x > 0 \<longleftrightarrow> x \<noteq> 0"
    using "4.prems"(2) signed_eq_0_iff[of x] by (auto simp: order.order_iff_strict)
  then show ?case
    using 4 by (simp add: ready_def set_revents_def)
qed (simp_all add: ready_def set_revents_def)

lemma registered_distinct:
  assumes "poller_inv p h"
  shows "distinct (map (\<lambda>pfd. the (channel_map p (fd_key (pfd_fd pfd)))) (poll_fds p))"
proof (unfold distinct_conv_nth, intro allI impI)
  let ?f = "\<lambda>pfd. the (channel_map p (fd_key (pfd_fd pfd)))"
  fix i j
  assume "i < length (map ?f (poll_fds p))" "j < length (map ?f (poll_fds p))" and ij: "i \<noteq> j"
  then have i: "i < length (poll_fds p)" and j: "j < length (poll_fds p)" by simp_all
  obtain c d where c: "at_slot p h (fd_key (pfd_fd (poll_fds p ! i))) c i"
    and d: "at_slot p h (fd_key (pfd_fd (poll_fds p ! j))) d j"
    using assms i j unfolding poller_inv_def by blast
  have "c \<noteq> d" using at_slot_unique[OF c, of _ j] d ij by auto
  then show "map ?f (poll_fds p) ! i \<noteq> map ?f (poll_fds p) ! j"
    using at_slotD(1)[OF c] at_slotD(1)[OF d] i j by simp
qed

lemma ready_registered:
  assumes inv: "poller_inv p h" and neg: "\<forall>pfd \<in> set (poll_fds p). pfd_fd pfd < 0 \<longrightarrow> pfd_revents pfd = 0"
  shows "\<forall>pfd \<in> set (ready (poll_fds p)). \<exists>c ch. channel_map p (pfd_fd pfd) = Some c \<and>
           h c = Some ch \<and> ch_fd ch = pfd_fd pfd"
    and "distinct (map (\<lambda>pfd. the (channel_map p (pfd_fd pfd))) (ready (poll_fds p)))"
proof -
  have key: "fd_key (pfd_fd pfd) = pfd_fd pfd" if "pfd \<in> set (ready (poll_fds p))" for pfd
    using that neg by (auto simp: ready_def fd_key_def)
  show "\<forall>pfd \<in> set (ready (poll_fds p)). \<exists>c ch. channel_map p (pfd_fd pfd) = Some c \<and>
           h c = Some ch \<and> ch_fd ch = pfd_fd pfd"
  proof
    fix pfd
    assume pfd: "pfd \<in> set (ready (poll_fds p))"
    then obtain i where "i < length (poll_fds p)" and i: "poll_fds p ! i = pfd"
      by (auto simp: ready_def in_set_conv_nth)
    then obtain c where "at_slot p h (fd_key (pfd_fd pfd)) c i"
      using inv unfolding poller_inv_def by blast
    then have "at_slot p h (pfd_fd pfd) c i" using key[OF pfd] by simp
    then show "\<exists>c ch. channel_map p (pfd_fd pfd) = Some c \<and> h c = Some ch \<and> ch_fd ch = pfd_fd pfd"
      using at_slotD(1,4) by blast
  qed
  have eq: "map (\<lambda>pfd. the (channel_map p (pfd_fd pfd))) (ready (poll_fds p)) =
      map (\<lambda>pfd. the (channel_map p (fd_key (pfd_fd pfd)))) (ready (poll_fds p))"
    using key by simp
  show "distinct (map (\<lambda>pfd. the (channel_map p (pfd_fd pfd))) (ready (poll_fds p)))"
    unfolding eq using registered_distinct[OF inv] by (simp only: ready_def distinct_map_filter)
qed

lemma Poller_poll_ok:
  assumes inv: "poller_inv p h" and sync: "events_synced p h"
    and ps: "poll_sys (poll_fds p) t k = ((n, rs), k1)" and ok: "poll_ok (poll_fds p) (n, rs)"
    and ns: "now_sys k1 = (now, k2)"
  shows "okR (Poller_poll poll_sys now_sys t (p, h) [] k) (\<lambda>((now', act), (p', h'), k').
      now' = now \<and> k' = k2 \<and> poller_inv p' h' \<and> events_synced p' h' \<and> same_but_revents h' h \<and>
      p' = p\<lparr>poll_fds := set_revents (poll_fds p) rs\<rparr> \<and>
      act = (if n > 0 then map (\<lambda>pfd. the (channel_map p (pfd_fd pfd))) (ready (poll_fds p')) else []) \<and>
      (n > 0 \<longrightarrow> (\<forall>pfd \<in> set (ready (poll_fds p')). \<exists>ch. h' (the (channel_map p (pfd_fd pfd))) = Some ch \<and>
         ch_revents ch = scast (pfd_revents pfd))))"
proof -
  let ?p = "p\<lparr>poll_fds := set_revents (poll_fds p) rs\<rparr>"
  have len: "length rs = length (poll_fds p)" using ok by (simp add: poll_ok_def)
  have same: "same_but_revents h h" by (simp add: same_but_revents_def)
  note keep = inv_revents[OF _ len]
  show ?thesis
  proof (cases "n > 0")
    case False
    then show ?thesis
      using keep(1)[OF same inv] keep(2)[OF same sync] same
      by (simp add: Poller_poll_def ps ns)
  next
    case True
    have "\<forall>pfd \<in> set (poll_fds ?p). pfd_fd pfd < 0 \<longrightarrow> pfd_revents pfd = 0"
      using ok by (auto simp: poll_ok_def set_revents_def in_set_conv_nth)
    note reg = ready_registered[OF keep(1)[OF same inv] this]
    have "n = int (length (ready (poll_fds ?p)))"
      using ok True ready_set_revents[OF len] by (simp add: poll_ok_def)
    from fillActiveChannels_ok[OF reg(1) this reg(2), of "[]"]
    show ?thesis
      using True keep(1)[OF _ inv] keep(2)[OF _ sync]
      by (auto simp: Poller_poll_def ps ns wp same_but_revents_def elim!: okR_mono)
  qed
qed


section \<open>The poller as an event table\<close>

text \<open>
  Setting the events of a channel and updating it: what \<open>enableReading\<close> and its kin do.
\<close>

definition set_events :: "nat \<Rightarrow> mask \<Rightarrow> poller \<times> 'cb heap \<Rightarrow> (poller \<times> 'cb heap) res" where
  "set_events c m ph = (case ph of (p, h) \<Rightarrow> bindR (deref h c) (\<lambda>ch.
     Poller_updateChannel True c (p, h(c \<mapsto> ch\<lparr>ch_events := m\<rparr>))))"

definition table_inv :: "poller \<times> 'cb heap \<Rightarrow> bool" where
  "table_inv ph = (case ph of (p, h) \<Rightarrow> poller_inv p h \<and> events_synced p h)"

definition fd_of :: "poller \<times> 'cb heap \<Rightarrow> nat \<Rightarrow> int" where
  "fd_of ph c = (case snd ph c of None \<Rightarrow> - 1 | Some ch \<Rightarrow> ch_fd ch)"

lemma at_slot_set_events:
  "h c = Some ch \<Longrightarrow> at_slot p (h(c \<mapsto> ch\<lparr>ch_events := m\<rparr>)) fd d i \<longleftrightarrow> at_slot p h fd d i"
  by (auto simp: at_slot_def)

lemma poller_inv_set_events:
  "h c = Some ch \<Longrightarrow> poller_inv p (h(c \<mapsto> ch\<lparr>ch_events := m\<rparr>)) \<longleftrightarrow> poller_inv p h"
  by (simp add: poller_inv_def at_slot_set_events)

lemma interest_set_events:
  "h c = Some ch \<Longrightarrow> interest p (h(c \<mapsto> ch\<lparr>ch_events := m\<rparr>)) = interest p h"
  by (auto simp: interest_def fun_eq_iff split: option.splits)

lemma set_events_ok:
  assumes inv: "poller_inv p h" and sync: "events_synced p h" and ch: "h c = Some ch"
    and known: "registered p h c \<or> unregistered p h c"
  shows "okR (set_events c m (p, h)) (\<lambda>(p', h'). poller_inv p' h' \<and> events_synced p' h' \<and>
           registered p' h' c \<and> interest p' h' = (interest p h)(ch_fd ch \<mapsto> ucast m) \<and>
           channel_map p' = (channel_map p)(ch_fd ch \<mapsto> c) \<and>
           (\<exists>i. h' = h(c \<mapsto> ch\<lparr>ch_events := m, ch_index := i\<rparr>)))"
proof -
  let ?ch = "ch\<lparr>ch_events := m\<rparr>"
  let ?h = "h(c \<mapsto> ?ch)"
  have h: "?h c = Some ?ch" and inv': "poller_inv p ?h"
    using inv by (simp_all add: poller_inv_set_events[of h c ch, OF ch])
  note int = interest_set_events[of h c ch, OF ch, of p m]
  from known show ?thesis
  proof
    assume "unregistered p h c"
    then have un: "unregistered p ?h c" using ch by (auto simp: unregistered_def)
    have sync': "events_synced p ?h"
      using sync unregistered_slot_free[OF \<open>unregistered p h c\<close>]
      by (auto simp: events_synced_def at_slot_set_events[of h c ch, OF ch] split: if_splits)
    let ?h' = "h(c \<mapsto> ch\<lparr>ch_events := m, ch_index := int (length (poll_fds p))\<rparr>)"
    obtain p' where eq: "Poller_updateChannel True c (p, ?h) = Inr (p', ?h')"
      and cm: "channel_map p' = (channel_map p)(ch_fd ch \<mapsto> c)"
      using update_new_eq[OF un h, unfolded setIndex_def fun_upd_upd] by (auto simp del: fun_upd_apply)
    have "interest p' ?h' = (interest p h)(ch_fd ch \<mapsto> ucast m)"
      using update_new_ok(4)[OF inv' un h eq] unfolding int by simp
    moreover have "set_events c m (p, h) = Inr (p', ?h')"
      by (simp only: set_events_def ch eq prod.case bindR_Inr deref_Some)
    ultimately show ?thesis
      using update_new_ok(1)[OF inv' un h eq] update_new_ok(2)[OF inv' un h eq]
        update_new_ok(3)[OF inv' un h eq sync'] cm
      by (simp del: fun_upd_apply) blast
  next
    assume reg: "registered p h c"
    obtain i where at0: "at_slot p h (ch_fd ch) c i" and ix: "ch_index ch = int i" and fd: "0 \<le> ch_fd ch"
      using poller_inv_slot[OF inv reg ch] by blast
    then have at: "at_slot p ?h (ch_fd ch) c i" by (simp add: at_slot_set_events[of h c ch, OF ch])
    have part: "\<forall>fd' d j dh. at_slot p ?h fd' d j \<longrightarrow> d \<noteq> c \<longrightarrow> ?h d = Some dh \<longrightarrow>
           pfd_events (poll_fds p ! j) = ucast (ch_events dh)"
      using sync by (auto simp: events_synced_def at_slot_set_events[of h c ch, OF ch])
    obtain p' where eq: "Poller_updateChannel True c (p, ?h) = Inr (p', ?h)"
      and cm: "channel_map p' = channel_map p"
      using update_existing_eq[OF at h fd] by (auto simp del: fun_upd_apply)
    have "channel_map p = (channel_map p)(ch_fd ch \<mapsto> c)"
      using at_slotD(1)[OF at0] by auto
    moreover have "?h = h(c \<mapsto> ch\<lparr>ch_events := m, ch_index := int i\<rparr>)"
      using ix by (auto simp: fun_eq_iff)
    moreover have "set_events c m (p, h) = Inr (p', ?h)"
      by (simp only: set_events_def ch eq prod.case bindR_Inr deref_Some)
    moreover have "interest p' ?h = (interest p h)(ch_fd ch \<mapsto> ucast m)"
      using update_existing_ok(4)[OF inv' at h eq] unfolding int by simp
    ultimately show ?thesis
      using update_existing_ok(1)[OF inv' at h eq] update_existing_ok(2)[OF inv' at h eq]
        update_existing_ok(3)[OF inv' at h eq disjI2[OF part]] cm
      by (auto simp del: fun_upd_apply)
  qed
qed

text \<open>
  The contract of the event loop's clients: a table from descriptors to wanted events. Setting
  the events of a known channel writes its row; a channel whose events are cleared first can be
  removed, and its row is gone.
\<close>

locale event_table =
  fixes invar :: "'s \<Rightarrow> bool"
    and fresh :: "'s \<Rightarrow> nat \<Rightarrow> bool"
    and reg :: "'s \<Rightarrow> nat \<Rightarrow> bool"
    and fdof :: "'s \<Rightarrow> nat \<Rightarrow> int"
    and table :: "'s \<Rightarrow> int \<Rightarrow> 16 word option"
    and put :: "nat \<Rightarrow> mask \<Rightarrow> 's \<Rightarrow> 's res"
    and rem :: "nat \<Rightarrow> 's \<Rightarrow> 's res"
  assumes put_ok: "invar s \<Longrightarrow> fresh s c \<or> reg s c \<Longrightarrow>
      okR (put c m s) (\<lambda>s'. invar s' \<and> reg s' c \<and> fdof s' c = fdof s c \<and>
        table s' = (table s)(fdof s c \<mapsto> ucast m))"
    and clear_rem_ok: "invar s \<Longrightarrow> reg s c \<Longrightarrow>
      okR (bindR (put c 0 s) (rem c)) (\<lambda>s'. invar s' \<and> \<not> reg s' c \<and> table s' = (table s)(fdof s c := None))"
begin

lemma put_put:
  assumes "invar s" and "fresh s c \<or> reg s c"
  shows "okR (bindR (put c m s) (put c m')) (\<lambda>s'. invar s' \<and> reg s' c \<and>
           table s' = (table s)(fdof s c \<mapsto> ucast m'))"
  unfolding okR_bindR
  by (rule okR_mono [OF put_ok [OF assms]]) (auto intro: okR_mono [OF put_ok])

lemma register_remove:
  assumes "invar s" and "fresh s c" and "table s (fdof s c) = None"
  shows "okR (bindR (put c m s) (\<lambda>s1. bindR (put c 0 s1) (rem c))) (\<lambda>s'. invar s' \<and> \<not> reg s' c \<and>
           table s' = table s)"
  unfolding okR_bindR [of "put c m s"]
  by (rule okR_mono [OF put_ok [OF assms(1) disjI1 [OF assms(2)]]])
     (use assms(3) in \<open>auto intro!: okR_mono [OF clear_rem_ok] simp: fun_upd_idem\<close>)

end

interpretation ptab: event_table table_inv "\<lambda>s. unregistered (fst s) (snd s)"
  "\<lambda>s. registered (fst s) (snd s)" fd_of "\<lambda>s. interest (fst s) (snd s)" set_events
  "Poller_removeChannel True"
proof unfold_locales
  fix s :: "poller \<times> 'cb heap" and c m
  assume inv: "table_inv s" and known: "unregistered (fst s) (snd s) c \<or> registered (fst s) (snd s) c"
  obtain p h where s: "s = (p, h)" by (cases s)
  obtain ch where ch: "h c = Some ch"
    using known by (auto simp: s registered_def unregistered_def)
  have "okR (set_events c m (p, h)) (\<lambda>(p', h'). poller_inv p' h' \<and> events_synced p' h' \<and>
           registered p' h' c \<and> interest p' h' = (interest p h)(ch_fd ch \<mapsto> ucast m) \<and>
           channel_map p' = (channel_map p)(ch_fd ch \<mapsto> c) \<and>
           (\<exists>i. h' = h(c \<mapsto> ch\<lparr>ch_events := m, ch_index := i\<rparr>)))"
    using inv known by (intro set_events_ok) (auto simp: s table_inv_def ch)
  then show "okR (set_events c m s) (\<lambda>s'. table_inv s' \<and> registered (fst s') (snd s') c \<and>
      fd_of s' c = fd_of s c \<and>
      interest (fst s') (snd s') = (interest (fst s) (snd s))(fd_of s c \<mapsto> ucast m))"
    unfolding s by (rule okR_mono) (auto simp: table_inv_def fd_of_def ch)
next
  fix s :: "poller \<times> 'cb heap" and c
  assume inv: "table_inv s" and reg: "registered (fst s) (snd s) c"
  obtain p h where s: "s = (p, h)" by (cases s)
  obtain ch where ch: "h c = Some ch"
    using reg by (auto simp: s registered_def)
  have "okR (set_events c 0 (p, h)) (\<lambda>(p', h'). poller_inv p' h' \<and> events_synced p' h' \<and>
           registered p' h' c \<and> interest p' h' = (interest p h)(ch_fd ch \<mapsto> ucast (0 :: mask)) \<and>
           channel_map p' = (channel_map p)(ch_fd ch \<mapsto> c) \<and>
           (\<exists>i. h' = h(c \<mapsto> ch\<lparr>ch_events := 0, ch_index := i\<rparr>)))"
    using inv reg by (intro set_events_ok) (auto simp: s table_inv_def ch)
  then show "okR (bindR (set_events c 0 s) (Poller_removeChannel True c)) (\<lambda>s'. table_inv s' \<and>
      \<not> registered (fst s') (snd s') c \<and>
      interest (fst s') (snd s') = (interest (fst s) (snd s))(fd_of s c := None))"
    unfolding okR_bindR s
  proof (rule okR_mono)
    fix s1
    assume "case s1 of (p', h') \<Rightarrow> poller_inv p' h' \<and> events_synced p' h' \<and>
           registered p' h' c \<and> interest p' h' = (interest p h)(ch_fd ch \<mapsto> ucast (0 :: mask)) \<and>
           channel_map p' = (channel_map p)(ch_fd ch \<mapsto> c) \<and>
           (\<exists>i. h' = h(c \<mapsto> ch\<lparr>ch_events := 0, ch_index := i\<rparr>))"
    then obtain p1 h1 i where s1: "s1 = (p1, h1)" "poller_inv p1 h1" "events_synced p1 h1"
      "registered p1 h1 c" "interest p1 h1 = (interest p h)(ch_fd ch \<mapsto> ucast (0 :: mask))"
      and h1: "h1 c = Some (ch\<lparr>ch_events := 0, ch_index := i\<rparr>)" by auto
    show "okR (Poller_removeChannel True c s1) (\<lambda>s'. table_inv s' \<and>
      \<not> registered (fst s') (snd s') c \<and>
      interest (fst s') (snd s') = (interest (fst (p, h)) (snd (p, h)))(fd_of (p, h) c := None))"
      using remove_ok[OF s1(2-4) h1] s1(5)
      by (auto simp: s1(1) isNoneEvent_def NoneEvent_def table_inv_def fd_of_def ch elim!: okR_mono)
  qed
qed


section \<open>An entry that was switched off stays off\<close>

text \<open>
  \<open>updateChannel\<close> stores the negative descriptor when a channel wants nothing and never stores
  the positive one again.
\<close>

lemma update_keeps_negative_fd:
  assumes inv: "poller_inv p h" and ch: "h c = Some ch" and at: "at_slot p h (ch_fd ch) c i"
    and eq: "Poller_updateChannel True c (p, h) = Inr (p', h')"
  shows "at_slot p' h' (ch_fd ch) c i" and "length (poll_fds p') = length (poll_fds p)"
    and "isNoneEvent ch \<or> pfd_fd (poll_fds p ! i) < 0 \<Longrightarrow> pfd_fd (poll_fds p' ! i) < 0"
proof -
  have fd: "0 \<le> ch_fd ch" using poller_invD(1)[OF inv at_slotD(1)[OF at]] .
  have res: "p' = p\<lparr>poll_fds := (poll_fds p)[i := refreshed ch (poll_fds p ! i)]\<rparr>" "h' = h"
    using eq update_existing_eq[OF at ch fd] by auto
  have "fd_key (pfd_fd (refreshed ch (poll_fds p ! i))) = ch_fd ch"
    using at_slotD(3)[OF at] fd by auto
  then show "at_slot p' h' (ch_fd ch) c i"
    using at by (simp add: res at_slot_update[OF at fd])
  show "length (poll_fds p') = length (poll_fds p)" by (simp add: res)
  show "pfd_fd (poll_fds p' ! i) < 0" if "isNoneEvent ch \<or> pfd_fd (poll_fds p ! i) < 0"
    using that at_slotD(2)[OF at] fd by (auto simp: res)
qed

lemma reenabled_stays_ignored:
  assumes inv: "table_inv (p, h)" and reg: "registered p h c" and ch: "h c = Some ch"
  shows "okR (bindR (set_events c 0 (p, h)) (set_events c m)) (\<lambda>(p', h').
           \<exists>i. at_slot p' h' (ch_fd ch) c i \<and> pfd_fd (poll_fds p' ! i) < 0 \<and>
             pfd_events (poll_fds p' ! i) = ucast m)"
proof -
  have pinv: "poller_inv p h" and psync: "events_synced p h" using inv by (auto simp: table_inv_def)
  obtain i where at: "at_slot p h (ch_fd ch) c i"
    using poller_inv_slot[OF pinv reg ch] by blast
  let ?h = "\<lambda>m. h(c \<mapsto> ch\<lparr>ch_events := m\<rparr>)"
  have at': "at_slot p (?h 0) (ch_fd (ch\<lparr>ch_events := 0\<rparr>)) c i" and inv': "poller_inv p (?h 0)"
    and h0: "?h 0 c = Some (ch\<lparr>ch_events := 0\<rparr>)"
    using at pinv by (auto simp: at_slot_set_events[of h c ch, OF ch] poller_inv_set_events[of h c ch, OF ch])
  obtain p1 h1 where eq1: "Poller_updateChannel True c (p, ?h 0) = Inr (p1, h1)"
    using update_existing_eq[OF at' h0] poller_invD(1)[OF inv' at_slotD(1)[OF at']] by blast
  have h1: "h1 = ?h 0"
    using eq1 update_existing_eq[OF at' h0] poller_invD(1)[OF inv' at_slotD(1)[OF at']]
    by (auto simp del: fun_upd_apply)
  have neg: "pfd_fd (poll_fds p1 ! i) < 0" and at1: "at_slot p1 h1 (ch_fd ch) c i"
    using update_keeps_negative_fd[OF inv' h0 at' eq1] by (auto simp: isNoneEvent_def NoneEvent_def)
  have inv1: "poller_inv p1 h1"
    using update_existing_ok(1)[OF inv' at' h0 eq1] .
  have h1c: "h1 c = Some (ch\<lparr>ch_events := 0\<rparr>)" using h1 by simp
  let ?ch = "ch\<lparr>ch_events := m\<rparr>"
  let ?h2 = "h1(c \<mapsto> ?ch)"
  have h2: "?h2 = h1(c \<mapsto> (ch\<lparr>ch_events := 0\<rparr>)\<lparr>ch_events := m\<rparr>)" by simp
  have at2: "at_slot p1 ?h2 (ch_fd ?ch) c i" and inv2: "poller_inv p1 ?h2"
    using at1 inv1 unfolding h2 at_slot_set_events[of h1 c _, OF h1c] poller_inv_set_events[of h1 c _, OF h1c]
    by simp_all
  have h2c: "?h2 c = Some ?ch" by simp
  obtain p2 h3 where eq2: "Poller_updateChannel True c (p1, ?h2) = Inr (p2, h3)"
    using update_existing_eq[OF at2 h2c] poller_invD(1)[OF inv2 at_slotD(1)[OF at2]] by blast
  have "at_slot p2 h3 (ch_fd ?ch) c i" and "pfd_fd (poll_fds p2 ! i) < 0"
    using update_keeps_negative_fd[OF inv2 h2c at2 eq2] neg by auto
  moreover have "pfd_events (poll_fds p2 ! i) = ucast m"
    using at_slot_interest[OF \<open>at_slot p2 h3 (ch_fd ?ch) c i\<close>] update_existing_ok(4)[OF inv2 at2 h2c eq2]
    by simp
  ultimately show ?thesis
    using ch eq1 eq2 h1c
    by (simp add: set_events_def del: fun_upd_apply) blast
qed



section \<open>Properties\<close>

text \<open>A poller with one registered channel (address 0, descriptor 5); channel 2 is new.\<close>

definition demo_tab :: "poller \<times> unit heap" where
  "demo_tab = (\<lparr>poll_fds = [\<lparr>pfd_fd = 5, pfd_events = ucast ReadEvent, pfd_revents = 0\<rparr>], channel_map = [5 \<mapsto> 0]\<rparr>,
     [0 \<mapsto> (Channel_ctor 0 5)\<lparr>ch_events := ReadEvent, ch_index := 0\<rparr>, 2 \<mapsto> Channel_ctor 0 6])"

lemma demo_tab_inv: "table_inv demo_tab"
  by (auto simp: demo_tab_def table_inv_def poller_inv_def events_synced_def at_slot_def Channel_ctor_def
      split: if_splits)

lemma demo_tab_known:
  "registered (fst demo_tab) (snd demo_tab) 0" "unregistered (fst demo_tab) (snd demo_tab) 2"
  "fd_of demo_tab 2 = 6" "interest (fst demo_tab) (snd demo_tab) 6 = None"
  by (auto simp: demo_tab_def registered_def unregistered_def fd_of_def interest_def Channel_ctor_def)



text \<open>
  C7: changing the wanted events of a new or registered channel refines writing one row of a table
  from descriptors to events: the invariant between the map, the array and the indices stored in the
  channels is kept, every other row is unchanged, and no assertion of \<open>updateChannel\<close> fails.
\<close>

theorem update_refines_table:
  assumes "table_inv s" and "unregistered (fst s) (snd s) c \<or> registered (fst s) (snd s) c"
  shows "okR (set_events c m s) (\<lambda>s'. table_inv s' \<and> registered (fst s') (snd s') c \<and>
    fd_of s' c = fd_of s c \<and> interest (fst s') (snd s') = (interest (fst s) (snd s))(fd_of s c \<mapsto> ucast m))"
  using assms by (rule ptab.put_ok)

theorem update_refines_table_witness:
  "okR (set_events 2 WriteEvent demo_tab) (\<lambda>s'. table_inv s' \<and> registered (fst s') (snd s') 2 \<and>
    interest (fst s') (snd s') = (interest (fst demo_tab) (snd demo_tab))(6 \<mapsto> ucast WriteEvent))"
  using update_refines_table[OF demo_tab_inv disjI1[OF demo_tab_known(2)], of WriteEvent]
  by (auto simp: demo_tab_known elim!: okR_mono)

text \<open>
  C8: a channel that is registered, cleared of events and removed leaves the table as it was before
  it came, although removal swaps the last entry of the array into its place; the invariant holds
  and no assertion of \<open>removeChannel\<close> fails.
\<close>

theorem register_then_remove:
  assumes "table_inv s" and "unregistered (fst s) (snd s) c" and "interest (fst s) (snd s) (fd_of s c) = None"
  shows "okR (bindR (set_events c m s) (\<lambda>s1. bindR (set_events c 0 s1) (Poller_removeChannel True c)))
    (\<lambda>s'. table_inv s' \<and> \<not> registered (fst s') (snd s') c \<and> interest (fst s') (snd s') = interest (fst s) (snd s))"
  using assms by (rule ptab.register_remove)

theorem register_then_remove_witness:
  "okR (bindR (set_events 2 ReadEvent demo_tab) (\<lambda>s1. bindR (set_events 2 0 s1) (Poller_removeChannel True 2)))
    (\<lambda>s'. table_inv s' \<and> \<not> registered (fst s') (snd s') 2 \<and>
      interest (fst s') (snd s') = interest (fst demo_tab) (snd demo_tab))"
  using register_then_remove[OF demo_tab_inv demo_tab_known(2)] demo_tab_known(3,4) by simp

text \<open>
  C39: a channel that was switched off with \<open>disableAllEvents\<close> and switched on again stays ignored:
  its entry keeps the negative descriptor, although it carries the wanted events.
\<close>

theorem switched_off_for_good:
  assumes "table_inv (p, h)" and "registered p h c" and "h c = Some ch"
  shows "okR (bindR (set_events c 0 (p, h)) (set_events c m)) (\<lambda>(p', h').
    \<exists>i. at_slot p' h' (ch_fd ch) c i \<and> pfd_fd (poll_fds p' ! i) < 0 \<and> pfd_events (poll_fds p' ! i) = ucast m)"
  using assms by (rule reenabled_stays_ignored)

theorem switched_off_for_good_witness:
  "okR (bindR (set_events 0 0 demo_tab) (set_events 0 ReadEvent)) (\<lambda>(p', h').
    \<exists>i. at_slot p' h' 5 0 i \<and> pfd_fd (poll_fds p' ! i) < 0 \<and> pfd_events (poll_fds p' ! i) = ucast ReadEvent)"
proof -
  have ch: "snd demo_tab 0 = Some ((Channel_ctor 0 5)\<lparr>ch_events := ReadEvent, ch_index := 0\<rparr>)"
    by (simp add: demo_tab_def)
  have inv: "table_inv (fst demo_tab, snd demo_tab)" using demo_tab_inv by simp
  show ?thesis
    using switched_off_for_good[OF inv demo_tab_known(1) ch, of ReadEvent] by (simp add: Channel_ctor_def)
qed

end
