(* ===== verification/Kernel.thy ===== *)
theory Kernel
  imports Poller
begin

text \<open>
  The operating system below the program. The system calls are parameters of the model: a record
  of functions over a kernel state \<open>'k\<close>, passed to every definition that makes a system call.
  What the program relies on is stated as predicates over such a record, each one the documented
  behaviour of its call. The last section gives one concrete kernel, a small socket simulator,
  on which the theorems that assume those predicates are applied.
\<close>

section \<open>System calls\<close>

text \<open>Results are the return value (\<open>- 1\<close> for an error), transferred data where there is some, and
  \<open>errno\<close>.\<close>

record 'k sysops =
  sys_poll :: "pollfd list \<Rightarrow> int \<Rightarrow> 'k \<Rightarrow> (int \<times> 16 word list) \<times> 'k"
  sys_now :: "'k \<Rightarrow> int \<times> 'k"
  sys_readv :: "int \<Rightarrow> nat list \<Rightarrow> 'k \<Rightarrow> (int \<times> byte list \<times> int) \<times> 'k"
  sys_read :: "int \<Rightarrow> nat \<Rightarrow> 'k \<Rightarrow> (int \<times> byte list \<times> int) \<times> 'k"
  sys_write :: "int \<Rightarrow> byte list \<Rightarrow> 'k \<Rightarrow> (int \<times> int) \<times> 'k"
  sys_shutdown_wr :: "int \<Rightarrow> 'k \<Rightarrow> (int \<times> int) \<times> 'k"
  sys_close :: "int \<Rightarrow> 'k \<Rightarrow> (int \<times> int) \<times> 'k"
  sys_so_error :: "int \<Rightarrow> 'k \<Rightarrow> (int \<times> int \<times> int) \<times> 'k"

definition EWOULDBLOCK :: int where
  "EWOULDBLOCK = 11"


section \<open>What the program relies on\<close>

text \<open>
  \<open>write(2)\<close> on a stream socket takes a prefix of the data and appends it to the socket's byte
  stream, or fails and takes nothing. \<open>sent k fd\<close> is the stream of bytes accepted on \<open>fd\<close> so far.
\<close>

definition write_ok :: "'k sysops \<Rightarrow> ('k \<Rightarrow> int \<Rightarrow> byte list) \<Rightarrow> bool" where
  "write_ok K sent \<longleftrightarrow> (\<forall>fd data k n e k'. sys_write K fd data k = ((n, e), k') \<longrightarrow>
     n = - 1 \<and> sent k' = sent k \<or>
     0 \<le> n \<and> nat n \<le> length data \<and> sent k' = (sent k)(fd := sent k fd @ take (nat n) data))"

text \<open>The other calls do not send bytes.\<close>

definition others_silent :: "'k sysops \<Rightarrow> ('k \<Rightarrow> int \<Rightarrow> byte list) \<Rightarrow> bool" where
  "others_silent K sent \<longleftrightarrow>
     (\<forall>p t k. sent (snd (sys_poll K p t k)) = sent k) \<and>
     (\<forall>k. sent (snd (sys_now K k)) = sent k) \<and>
     (\<forall>fd l k. sent (snd (sys_readv K fd l k)) = sent k) \<and>
     (\<forall>fd l k. sent (snd (sys_read K fd l k)) = sent k) \<and>
     (\<forall>fd k. sent (snd (sys_shutdown_wr K fd k)) = sent k) \<and>
     (\<forall>fd k. sent (snd (sys_close K fd k)) = sent k) \<and>
     (\<forall>fd k. sent (snd (sys_so_error K fd k)) = sent k)"

definition readv_contract :: "'k sysops \<Rightarrow> bool" where
  "readv_contract K \<longleftrightarrow> (\<forall>fd lens k n data e k'. sys_readv K fd lens k = ((n, data, e), k') \<longrightarrow>
     n = - 1 \<and> data = [] \<or> 0 \<le> n \<and> length data = nat n \<and> nat n \<le> sum_list lens)"

definition poll_contract :: "'k sysops \<Rightarrow> bool" where
  "poll_contract K \<longleftrightarrow> (\<forall>pfds t k. poll_ok pfds (fst (sys_poll K pfds t k)))"

lemma write_okD:
  assumes "write_ok K sent" and "sys_write K fd data k = ((n, e), k')"
  shows "n = - 1 \<and> sent k' = sent k \<or>
    0 \<le> n \<and> nat n \<le> length data \<and> sent k' = (sent k)(fd := sent k fd @ take (nat n) data)"
  using assms by (auto simp: write_ok_def)


section \<open>A simulated kernel\<close>

text \<open>
  Per descriptor: the bytes waiting to be read, the bytes accepted so far, and how many bytes the
  send buffer takes at once. A descriptor is ready for the events it is polled for.
\<close>

record sim =
  sim_rx :: "int \<Rightarrow> byte list"
  sim_tx :: "int \<Rightarrow> byte list"
  sim_cap :: "int \<Rightarrow> nat"
  sim_clock :: int
  sim_shut :: "int list"

definition sim_poll :: "pollfd list \<Rightarrow> int \<Rightarrow> sim \<Rightarrow> (int \<times> 16 word list) \<times> sim" where
  "sim_poll pfds t k =
     (let rs = map (\<lambda>pfd. if pfd_fd pfd < 0 \<or> sint (pfd_events pfd) < 0 then 0 else pfd_events pfd) pfds in
      ((int (length (filter (\<lambda>x. x \<noteq> 0) rs)), rs), k))"

definition sim_readv :: "int \<Rightarrow> nat list \<Rightarrow> sim \<Rightarrow> (int \<times> byte list \<times> int) \<times> sim" where
  "sim_readv fd lens k =
     (let d = take (sum_list lens) (sim_rx k fd) in
      ((int (length d), d, 0), k\<lparr>sim_rx := (sim_rx k)(fd := drop (sum_list lens) (sim_rx k fd))\<rparr>))"

definition sim_write :: "int \<Rightarrow> byte list \<Rightarrow> sim \<Rightarrow> (int \<times> int) \<times> sim" where
  "sim_write fd data k =
     (let d = take (sim_cap k fd) data in
      if d = [] \<and> data \<noteq> [] then ((- 1, EWOULDBLOCK), k)
      else ((int (length d), 0), k\<lparr>sim_tx := (sim_tx k)(fd := sim_tx k fd @ d)\<rparr>))"

definition sim_ops :: "sim sysops" where
  "sim_ops =
     \<lparr>sys_poll = sim_poll, sys_now = (\<lambda>k. (sim_clock k, k)), sys_readv = sim_readv,
      sys_read = (\<lambda>fd n. sim_readv fd [n]), sys_write = sim_write,
      sys_shutdown_wr = (\<lambda>fd k. ((0, 0), k\<lparr>sim_shut := fd # sim_shut k\<rparr>)),
      sys_close = (\<lambda>fd k. ((0, 0), k)), sys_so_error = (\<lambda>fd k. ((0, 0, 0), k))\<rparr>"

definition sim_init :: sim where
  "sim_init = \<lparr>sim_rx = (\<lambda>_. []), sim_tx = (\<lambda>_. []), sim_cap = (\<lambda>_. 4), sim_clock = 1000, sim_shut = []\<rparr>"

lemma sim_write_ok: "write_ok sim_ops sim_tx"
  by (auto simp: write_ok_def sim_ops_def sim_write_def Let_def min_def split: if_splits)

lemma sim_others_silent: "others_silent sim_ops sim_tx"
  by (simp add: others_silent_def sim_ops_def sim_poll_def sim_readv_def Let_def)

lemma sim_readv_contract: "readv_contract sim_ops"
  by (auto simp: readv_contract_def sim_ops_def sim_readv_def Let_def)

lemma sim_poll_contract: "poll_contract sim_ops"
  by (auto simp: poll_contract_def poll_ok_def sim_ops_def sim_poll_def Let_def)

end
