(* ===== verification/EventLoop.thy ===== *)
theory EventLoop
  imports Kernel
begin

unbundle bit_operations_syntax

text \<open>
  \<open>class EventLoop\<close> (\<open>src/src/include/event_loop.h\<close>, \<open>src/src/event_loop.cpp\<close>) and the member
  functions of \<open>Channel\<close> that go through it. The state is a store of channels and event loops with
  the kernel below it; it is an extensible record, which the connection and server layers extend.
  Every operation takes the id \<open>tid\<close> of the calling thread, the value \<open>CurrentThread::tid()\<close>
  has in it. Closures queued with \<open>queueInLoop\<close> are values of a type \<open>'f\<close>, callbacks stored in
  channels are values of a type \<open>'cb\<close>; \<open>run\<close> and \<open>call\<close> execute them.

  Operations of different threads interleave between critical sections: a mutex that is held when
  an operation locks it is held by the calling thread itself.
\<close>

section \<open>State\<close>

text \<open>
  A null \<open>unique_ptr\<close> is \<open>None\<close>; so is a descriptor that was never initialised.
\<close>

record 'f event_loop =
  looping :: bool
  quit_flag :: bool
  calling_pending_functors :: bool
  thread_id :: int
  poll_return_time :: int
  loop_poller :: "poller option"
  wakeup_fd :: "int option"
  wakeup_channel :: "nat option"
  active_channels :: "nat list"
  mutex_holder :: "int option"
  pending_functors :: "'f list"

record ('cb, 'f, 'k) reactor =
  channels :: "'cb heap"
  loops :: "nat \<rightharpoonup> 'f event_loop"
  event_loop_in_thread :: "int \<rightharpoonup> nat"
  kern :: 'k

definition kPollTimeMs :: int where
  "kPollTimeMs = 10000"

definition put_loop :: "nat \<Rightarrow> 'f event_loop \<Rightarrow> ('cb, 'f, 'k, 'z) reactor_scheme \<Rightarrow>
    ('cb, 'f, 'k, 'z) reactor_scheme" where
  "put_loop l L w = w\<lparr>loops := (loops w)(l \<mapsto> L)\<rparr>"

definition put_channel :: "nat \<Rightarrow> 'cb channel \<Rightarrow> ('cb, 'f, 'k, 'z) reactor_scheme \<Rightarrow>
    ('cb, 'f, 'k, 'z) reactor_scheme" where
  "put_channel c ch w = w\<lparr>channels := (channels w)(c \<mapsto> ch)\<rparr>"

text \<open>
  The constructor initialises \<open>looping_\<close>, \<open>quit_\<close> and \<open>thread_id_\<close> only: the pointers are null,
  \<open>wakeup_fd_\<close> is indeterminate and so is \<open>calling_pending_functors_\<close>, whose value is an argument.
\<close>

definition EventLoop_ctor :: "int \<Rightarrow> nat \<Rightarrow> bool \<Rightarrow> ('cb, 'f, 'k, 'z) reactor_scheme \<Rightarrow>
    ('cb, 'f, 'k, 'z) reactor_scheme" where
  "EventLoop_ctor tid l calling w =
     (let L = \<lparr>looping = False, quit_flag = True, calling_pending_functors = calling,
               thread_id = tid, poll_return_time = 0, loop_poller = None, wakeup_fd = None,
               wakeup_channel = None, active_channels = [], mutex_holder = None,
               pending_functors = []\<rparr>;
          w1 = put_loop l L w in
      if event_loop_in_thread w1 tid \<noteq> None then w1
      else w1\<lparr>event_loop_in_thread := (event_loop_in_thread w1)(tid \<mapsto> l)\<rparr>)"

definition EventLoop_dtor :: "int \<Rightarrow> nat \<Rightarrow> ('cb, 'f, 'k, 'z) reactor_scheme \<Rightarrow>
    ('cb, 'f, 'k, 'z) reactor_scheme res" where
  "EventLoop_dtor tid l w =
     bindR (deref (loops w) l) (\<lambda>L.
     check (\<not> looping L) (AssertFailed ''event_loop.cpp:137'')
     (Inr (w\<lparr>event_loop_in_thread := (event_loop_in_thread w)(tid := None), loops := (loops w)(l := None)\<rparr>)))"

definition getEventLoopOfCurrentThread :: "int \<Rightarrow> ('cb, 'f, 'k, 'z) reactor_scheme \<Rightarrow> nat option" where
  "getEventLoopOfCurrentThread tid w = event_loop_in_thread w tid"

definition isInLoopThread :: "int \<Rightarrow> 'f event_loop \<Rightarrow> bool" where
  "isInLoopThread tid L \<longleftrightarrow> thread_id L = tid"

definition assertInLoopThread :: "int \<Rightarrow> nat \<Rightarrow> ('cb, 'f, 'k, 'z) reactor_scheme \<Rightarrow> unit res" where
  "assertInLoopThread tid l w =
     bindR (deref (loops w) l) (\<lambda>L. check (isInLoopThread tid L) NotInLoopThread (Inr ()))"


section \<open>Channels and the poller\<close>

definition EventLoop_updateChannel :: "int \<Rightarrow> nat \<Rightarrow> nat \<Rightarrow> ('cb, 'f, 'k, 'z) reactor_scheme \<Rightarrow>
    ('cb, 'f, 'k, 'z) reactor_scheme res" where
  "EventLoop_updateChannel tid l c w =
     bindR (deref (loops w) l) (\<lambda>L.
     bindR (deref (channels w) c) (\<lambda>ch.
     bindR (optR Indeterminate (getOwnerLoop ch)) (\<lambda>owner.
     check (owner = l) (AssertFailed ''event_loop.cpp:59'')
     (check (isInLoopThread tid L) NotInLoopThread
     (bindR (optR NullDeref (loop_poller L)) (\<lambda>p.
      bindR (Poller_updateChannel (isInLoopThread tid L) c (p, channels w)) (\<lambda>(p', h').
      Inr (put_loop l (L\<lparr>loop_poller := Some p'\<rparr>) (w\<lparr>channels := h'\<rparr>)))))))))"

definition EventLoop_removeChannel :: "int \<Rightarrow> nat \<Rightarrow> nat \<Rightarrow> ('cb, 'f, 'k, 'z) reactor_scheme \<Rightarrow>
    ('cb, 'f, 'k, 'z) reactor_scheme res" where
  "EventLoop_removeChannel tid l c w =
     bindR (deref (loops w) l) (\<lambda>L.
     bindR (deref (channels w) c) (\<lambda>ch.
     bindR (optR Indeterminate (getOwnerLoop ch)) (\<lambda>owner.
     check (owner = l) (AssertFailed ''event_loop.cpp:65'')
     (check (isInLoopThread tid L) NotInLoopThread
     (bindR (optR NullDeref (loop_poller L)) (\<lambda>p.
      bindR (Poller_removeChannel (isInLoopThread tid L) c (p, channels w)) (\<lambda>(p', h').
      Inr (put_loop l (L\<lparr>loop_poller := Some p'\<rparr>) (w\<lparr>channels := h'\<rparr>)))))))))"

definition Channel_update :: "int \<Rightarrow> nat \<Rightarrow> ('cb, 'f, 'k, 'z) reactor_scheme \<Rightarrow>
    ('cb, 'f, 'k, 'z) reactor_scheme res" where
  "Channel_update tid c w =
     bindR (deref (channels w) c) (\<lambda>ch. EventLoop_updateChannel tid (ch_loop ch) c w)"

definition set_mask :: "(mask \<Rightarrow> mask) \<Rightarrow> int \<Rightarrow> nat \<Rightarrow> ('cb, 'f, 'k, 'z) reactor_scheme \<Rightarrow>
    ('cb, 'f, 'k, 'z) reactor_scheme res" where
  "set_mask f tid c w =
     bindR (deref (channels w) c) (\<lambda>ch.
     Channel_update tid c (put_channel c (ch\<lparr>ch_events := f (ch_events ch)\<rparr>) w))"

definition enableReading :: "int \<Rightarrow> nat \<Rightarrow> ('cb, 'f, 'k, 'z) reactor_scheme \<Rightarrow>
    ('cb, 'f, 'k, 'z) reactor_scheme res" where
  "enableReading = set_mask (\<lambda>ev. ev OR ReadEvent)"

definition enableWriting :: "int \<Rightarrow> nat \<Rightarrow> ('cb, 'f, 'k, 'z) reactor_scheme \<Rightarrow>
    ('cb, 'f, 'k, 'z) reactor_scheme res" where
  "enableWriting = set_mask (\<lambda>ev. ev OR WriteEvent)"

definition disableReading :: "int \<Rightarrow> nat \<Rightarrow> ('cb, 'f, 'k, 'z) reactor_scheme \<Rightarrow>
    ('cb, 'f, 'k, 'z) reactor_scheme res" where
  "disableReading = set_mask (\<lambda>ev. ev AND NOT ReadEvent)"

definition disableWriting :: "int \<Rightarrow> nat \<Rightarrow> ('cb, 'f, 'k, 'z) reactor_scheme \<Rightarrow>
    ('cb, 'f, 'k, 'z) reactor_scheme res" where
  "disableWriting = set_mask (\<lambda>ev. ev AND NOT WriteEvent)"

definition disableAllEvents :: "int \<Rightarrow> nat \<Rightarrow> ('cb, 'f, 'k, 'z) reactor_scheme \<Rightarrow>
    ('cb, 'f, 'k, 'z) reactor_scheme res" where
  "disableAllEvents = set_mask (\<lambda>ev. NoneEvent)"

lemmas mask_ops = enableReading_def enableWriting_def disableReading_def disableWriting_def
  disableAllEvents_def


section \<open>Dispatching events to callbacks\<close>

text \<open>
  One guarded call of \<open>handleEvents\<close>: the guard and the callback are read from the channel at the
  moment of the call, since an earlier callback may have changed or destroyed it.
\<close>

definition fire :: "('cb \<Rightarrow> int \<Rightarrow> ('cb, 'f, 'k, 'z) reactor_scheme \<Rightarrow> ('cb, 'f, 'k, 'z) reactor_scheme res) \<Rightarrow>
    int \<Rightarrow> nat \<Rightarrow> (mask \<Rightarrow> bool) \<Rightarrow> ('cb channel \<Rightarrow> 'cb option) \<Rightarrow>
    ('cb, 'f, 'k, 'z) reactor_scheme \<Rightarrow> ('cb, 'f, 'k, 'z) reactor_scheme res" where
  "fire call recv_time c guard sel w =
     bindR (deref (channels w) c) (\<lambda>ch.
     if guard (ch_revents ch) then
       (case sel ch of None \<Rightarrow> Inr w | Some cb \<Rightarrow> call cb recv_time w)
     else Inr w)"

definition hup_guard :: "mask \<Rightarrow> bool" where
  "hup_guard r \<longleftrightarrow> has r POLLHUP \<and> \<not> has r POLLIN"

definition err_guard :: "mask \<Rightarrow> bool" where
  "err_guard r \<longleftrightarrow> has r (POLLERR OR POLLNVAL)"

definition in_guard :: "mask \<Rightarrow> bool" where
  "in_guard r \<longleftrightarrow> has r (POLLIN OR POLLPRI OR POLLRDHUP)"

definition out_guard :: "mask \<Rightarrow> bool" where
  "out_guard r \<longleftrightarrow> has r POLLOUT"

definition handleEvents :: "('cb \<Rightarrow> int \<Rightarrow> ('cb, 'f, 'k, 'z) reactor_scheme \<Rightarrow>
      ('cb, 'f, 'k, 'z) reactor_scheme res) \<Rightarrow> int \<Rightarrow> nat \<Rightarrow>
    ('cb, 'f, 'k, 'z) reactor_scheme \<Rightarrow> ('cb, 'f, 'k, 'z) reactor_scheme res" where
  "handleEvents call recv_time c w =
     bindR (deref (channels w) c) (\<lambda>ch.
     bindR (fire call recv_time c hup_guard ch_close_cb (put_channel c (ch\<lparr>ch_events_handling := True\<rparr>) w)) (\<lambda>w1.
     bindR (fire call recv_time c err_guard ch_error_cb w1) (\<lambda>w2.
     bindR (fire call recv_time c in_guard ch_read_cb w2) (\<lambda>w3.
     bindR (fire call recv_time c out_guard ch_write_cb w3) (\<lambda>w4.
     bindR (deref (channels w4) c) (\<lambda>ch4.
     Inr (put_channel c (ch4\<lparr>ch_events_handling := False\<rparr>) w4)))))))"


section \<open>Cross-thread work\<close>

text \<open>The eight bytes of \<open>uint64_t one = 1\<close> on a little-endian machine.\<close>

definition one_bytes :: "byte list" where
  "one_bytes = [CHR 0x01, CHR 0x00, CHR 0x00, CHR 0x00, CHR 0x00, CHR 0x00, CHR 0x00, CHR 0x00]"

definition wakeup :: "'k sysops \<Rightarrow> nat \<Rightarrow> ('cb, 'f, 'k, 'z) reactor_scheme \<Rightarrow>
    ('cb, 'f, 'k, 'z) reactor_scheme res" where
  "wakeup K l w =
     bindR (deref (loops w) l) (\<lambda>L.
     bindR (optR Indeterminate (wakeup_fd L)) (\<lambda>fd.
     let (r, k') = sys_write K fd one_bytes (kern w) in Inr (w\<lparr>kern := k'\<rparr>)))"

definition EventLoop_handleRead :: "'k sysops \<Rightarrow> nat \<Rightarrow> ('cb, 'f, 'k, 'z) reactor_scheme \<Rightarrow>
    ('cb, 'f, 'k, 'z) reactor_scheme res" where
  "EventLoop_handleRead K l w =
     bindR (deref (loops w) l) (\<lambda>L.
     bindR (optR Indeterminate (wakeup_fd L)) (\<lambda>fd.
     let (r, k') = sys_read K fd 8 (kern w) in Inr (w\<lparr>kern := k'\<rparr>)))"

text \<open>\<open>std::lock_guard\<close>: locking and, at the end of the scope, unlocking.\<close>

definition lock_mutex :: "int \<Rightarrow> nat \<Rightarrow> ('cb, 'f, 'k, 'z) reactor_scheme \<Rightarrow>
    ('cb, 'f, 'k, 'z) reactor_scheme res" where
  "lock_mutex tid l w =
     bindR (deref (loops w) l) (\<lambda>L.
     check (mutex_holder L = None) Deadlock
     (Inr (put_loop l (L\<lparr>mutex_holder := Some tid\<rparr>) w)))"

definition unlock_mutex :: "nat \<Rightarrow> ('cb, 'f, 'k, 'z) reactor_scheme \<Rightarrow>
    ('cb, 'f, 'k, 'z) reactor_scheme res" where
  "unlock_mutex l w =
     bindR (deref (loops w) l) (\<lambda>L. Inr (put_loop l (L\<lparr>mutex_holder := None\<rparr>) w))"

definition queueInLoop :: "int \<Rightarrow> 'k sysops \<Rightarrow> nat \<Rightarrow> 'f \<Rightarrow> ('cb, 'f, 'k, 'z) reactor_scheme \<Rightarrow>
    ('cb, 'f, 'k, 'z) reactor_scheme res" where
  "queueInLoop tid K l cb w =
     bindR (lock_mutex tid l w) (\<lambda>w1.
     bindR (deref (loops w1) l) (\<lambda>L.
     let w2 = put_loop l (L\<lparr>pending_functors := pending_functors L @ [cb]\<rparr>) w1 in
     bindR (if \<not> isInLoopThread tid L \<or> calling_pending_functors L then wakeup K l w2 else Inr w2) (\<lambda>w3.
     unlock_mutex l w3)))"

definition runInLoop :: "int \<Rightarrow> 'k sysops \<Rightarrow> ('f \<Rightarrow> ('cb, 'f, 'k, 'z) reactor_scheme \<Rightarrow>
      ('cb, 'f, 'k, 'z) reactor_scheme res) \<Rightarrow> nat \<Rightarrow> 'f \<Rightarrow>
    ('cb, 'f, 'k, 'z) reactor_scheme \<Rightarrow> ('cb, 'f, 'k, 'z) reactor_scheme res" where
  "runInLoop tid K run l cb w =
     bindR (deref (loops w) l) (\<lambda>L.
     if isInLoopThread tid L then run cb w else queueInLoop tid K l cb w)"

definition quit :: "int \<Rightarrow> 'k sysops \<Rightarrow> nat \<Rightarrow> ('cb, 'f, 'k, 'z) reactor_scheme \<Rightarrow>
    ('cb, 'f, 'k, 'z) reactor_scheme res" where
  "quit tid K l w =
     bindR (deref (loops w) l) (\<lambda>L.
     let w1 = put_loop l (L\<lparr>quit_flag := True\<rparr>) w in
     if \<not> isInLoopThread tid L then wakeup K l w1 else Inr w1)"

definition doPendingFunctors :: "int \<Rightarrow> ('f \<Rightarrow> ('cb, 'f, 'k, 'z) reactor_scheme \<Rightarrow>
      ('cb, 'f, 'k, 'z) reactor_scheme res) \<Rightarrow> nat \<Rightarrow>
    ('cb, 'f, 'k, 'z) reactor_scheme \<Rightarrow> ('cb, 'f, 'k, 'z) reactor_scheme res" where
  "doPendingFunctors tid run l w =
     bindR (deref (loops w) l) (\<lambda>L.
     bindR (lock_mutex tid l (put_loop l (L\<lparr>calling_pending_functors := True\<rparr>) w)) (\<lambda>w1.
     bindR (deref (loops w1) l) (\<lambda>L1.
     let functors = pending_functors L1 in
     bindR (foldR run functors (put_loop l (L1\<lparr>pending_functors := []\<rparr>) w1)) (\<lambda>w2.
     bindR (deref (loops w2) l) (\<lambda>L2.
     unlock_mutex l (put_loop l (L2\<lparr>calling_pending_functors := False\<rparr>) w2))))))"


section \<open>The loop\<close>

definition loop_iter :: "int \<Rightarrow> 'k sysops \<Rightarrow>
    ('cb \<Rightarrow> int \<Rightarrow> ('cb, 'f, 'k, 'z) reactor_scheme \<Rightarrow> ('cb, 'f, 'k, 'z) reactor_scheme res) \<Rightarrow>
    ('f \<Rightarrow> ('cb, 'f, 'k, 'z) reactor_scheme \<Rightarrow> ('cb, 'f, 'k, 'z) reactor_scheme res) \<Rightarrow> nat \<Rightarrow>
    ('cb, 'f, 'k, 'z) reactor_scheme \<Rightarrow> ('cb, 'f, 'k, 'z) reactor_scheme res" where
  "loop_iter tid K call run l w =
     bindR (deref (loops w) l) (\<lambda>L.
     bindR (optR NullDeref (loop_poller L)) (\<lambda>p.
     bindR (Poller_poll (sys_poll K) (sys_now K) kPollTimeMs (p, channels w) [] (kern w)) (\<lambda>((now, act), (p', h'), k').
     let w1 = put_loop l (L\<lparr>loop_poller := Some p', poll_return_time := now, active_channels := act\<rparr>)
                (w\<lparr>channels := h', kern := k'\<rparr>) in
     bindR (foldR (handleEvents call now) act w1) (\<lambda>w2.
     doPendingFunctors tid run l w2))))"

text \<open>\<open>while (!quit_)\<close>: it may run forever, which is the value \<open>None\<close>.\<close>

partial_function (option) loop_while :: "int \<Rightarrow> 'k sysops \<Rightarrow>
    ('cb \<Rightarrow> int \<Rightarrow> ('cb, 'f, 'k, 'z) reactor_scheme \<Rightarrow> ('cb, 'f, 'k, 'z) reactor_scheme res) \<Rightarrow>
    ('f \<Rightarrow> ('cb, 'f, 'k, 'z) reactor_scheme \<Rightarrow> ('cb, 'f, 'k, 'z) reactor_scheme res) \<Rightarrow> nat \<Rightarrow>
    ('cb, 'f, 'k, 'z) reactor_scheme \<Rightarrow> ('cb, 'f, 'k, 'z) reactor_scheme res option" where
  "loop_while tid K call run l w =
     (case loops w l of
        None \<Rightarrow> Some (Inl NullDeref)
      | Some L \<Rightarrow>
          if quit_flag L then Some (Inr w)
          else (case loop_iter tid K call run l w of
                  Inl e \<Rightarrow> Some (Inl e)
                | Inr w' \<Rightarrow> loop_while tid K call run l w'))"

definition EventLoop_loop :: "int \<Rightarrow> 'k sysops \<Rightarrow>
    ('cb \<Rightarrow> int \<Rightarrow> ('cb, 'f, 'k, 'z) reactor_scheme \<Rightarrow> ('cb, 'f, 'k, 'z) reactor_scheme res) \<Rightarrow>
    ('f \<Rightarrow> ('cb, 'f, 'k, 'z) reactor_scheme \<Rightarrow> ('cb, 'f, 'k, 'z) reactor_scheme res) \<Rightarrow> nat \<Rightarrow>
    ('cb, 'f, 'k, 'z) reactor_scheme \<Rightarrow> ('cb, 'f, 'k, 'z) reactor_scheme res option" where
  "EventLoop_loop tid K call run l w =
     (case loops w l of
        None \<Rightarrow> Some (Inl NullDeref)
      | Some L \<Rightarrow>
          if looping L then Some (Inl (AssertFailed ''event_loop.cpp:38''))
          else if \<not> isInLoopThread tid L then Some (Inl NotInLoopThread)
          else map_option (\<lambda>r. bindR r (\<lambda>w'. bindR (deref (loops w') l) (\<lambda>L'.
                 Inr (put_loop l (L'\<lparr>looping := False\<rparr>) w'))))
               (loop_while tid K call run l (put_loop l (L\<lparr>looping := True, quit_flag := False\<rparr>) w)))"

section \<open>Registering through the loop\<close>

lemma loops_put_loop [simp]: "loops (put_loop l L w) = (loops w)(l \<mapsto> L)"
  by (simp add: put_loop_def)

lemma loops_put_channel [simp]: "loops (put_channel c ch w) = loops w"
  by (simp add: put_channel_def)

lemma channels_put_loop [simp]: "channels (put_loop l L w) = channels w"
  by (simp add: put_loop_def)

lemma channels_put_channel [simp]: "channels (put_channel c ch w) = (channels w)(c \<mapsto> ch)"
  by (simp add: put_channel_def)

lemma kern_put [simp]: "kern (put_loop l L w) = kern w" "kern (put_channel c ch w) = kern w"
  by (simp_all add: put_loop_def put_channel_def)

lemma put_loop_twice [simp]: "put_loop l L (put_loop l L' w) = put_loop l L w"
  by (simp add: put_loop_def)

text \<open>
  \<open>attached w l c\<close>: channel \<open>c\<close> belongs to loop \<open>l\<close>, which has a poller whose tables are
  consistent.
\<close>

definition loop_ready :: "('cb, 'f, 'k, 'z) reactor_scheme \<Rightarrow> nat \<Rightarrow> bool" where
  "loop_ready w l \<longleftrightarrow> (\<exists>L p. loops w l = Some L \<and> loop_poller L = Some p \<and> table_inv (p, channels w))"

definition loop_tid :: "('cb, 'f, 'k, 'z) reactor_scheme \<Rightarrow> nat \<Rightarrow> int option" where
  "loop_tid w l = map_option thread_id (loops w l)"

definition the_poller :: "('cb, 'f, 'k, 'z) reactor_scheme \<Rightarrow> nat \<Rightarrow> poller" where
  "the_poller w l = (case loops w l of None \<Rightarrow> Poller_ctor
     | Some L \<Rightarrow> (case loop_poller L of None \<Rightarrow> Poller_ctor | Some p \<Rightarrow> p))"

definition attached :: "('cb, 'f, 'k, 'z) reactor_scheme \<Rightarrow> nat \<Rightarrow> nat \<Rightarrow> bool" where
  "attached w l c \<longleftrightarrow> (\<exists>ch. channels w c = Some ch \<and> ch_loop ch = l \<and> ch_owner_loop ch = Some l)"

lemma loop_readyE:
  assumes "loop_ready w l"
  obtains L p where "loops w l = Some L" and "loop_poller L = Some p" and "the_poller w l = p"
    and "table_inv (p, channels w)"
  using assms by (auto simp: loop_ready_def the_poller_def)

text \<open>In the loop's thread, setting a mask is the event-table operation of the poller.\<close>

lemma set_mask_eq:
  assumes L: "loops w l = Some L" "loop_poller L = Some p" "thread_id L = tid"
    and ch: "channels w c = Some ch" "ch_loop ch = l" "ch_owner_loop ch = Some l"
  shows "set_mask f tid c w = bindR (set_events c (f (ch_events ch)) (p, channels w)) (\<lambda>(p', h').
           Inr (put_loop l (L\<lparr>loop_poller := Some p'\<rparr>) (w\<lparr>channels := h'\<rparr>)))"
proof -
  let ?w = "put_channel c (ch\<lparr>ch_events := f (ch_events ch)\<rparr>) w"
  have "set_mask f tid c w = EventLoop_updateChannel tid l c ?w"
    using ch by (simp add: set_mask_def Channel_update_def)
  also have "\<dots> = bindR (Poller_updateChannel True c (p, channels ?w)) (\<lambda>(p', h').
      Inr (put_loop l (L\<lparr>loop_poller := Some p'\<rparr>) (?w\<lparr>channels := h'\<rparr>)))"
    using L ch by (simp add: EventLoop_updateChannel_def getOwnerLoop_def isInLoopThread_def)
  also have "\<dots> = bindR (set_events c (f (ch_events ch)) (p, channels w)) (\<lambda>(p', h').
      Inr (put_loop l (L\<lparr>loop_poller := Some p'\<rparr>) (w\<lparr>channels := h'\<rparr>)))"
    using ch by (simp add: set_events_def put_channel_def)
  finally show ?thesis .
qed

lemma set_mask_ok:
  assumes ready: "loop_ready w l" and tid: "loop_tid w l = Some tid"
    and ch: "channels w c = Some ch" "ch_loop ch = l" "ch_owner_loop ch = Some l"
    and known: "registered (the_poller w l) (channels w) c \<or> unregistered (the_poller w l) (channels w) c"
  shows "okR (set_mask f tid c w) (\<lambda>w'. \<exists>L p' i. loops w l = Some L \<and>
      w' = put_loop l (L\<lparr>loop_poller := Some p'\<rparr>)
             (w\<lparr>channels := (channels w)(c \<mapsto> ch\<lparr>ch_events := f (ch_events ch), ch_index := i\<rparr>)\<rparr>) \<and>
      loop_ready w' l \<and> the_poller w' l = p' \<and> registered p' (channels w') c \<and>
      interest p' (channels w') = (interest (the_poller w l) (channels w))(ch_fd ch \<mapsto> ucast (f (ch_events ch))) \<and>
      channel_map p' = (channel_map (the_poller w l))(ch_fd ch \<mapsto> c))"
proof -
  obtain L p where L: "loops w l = Some L" "loop_poller L = Some p" "the_poller w l = p"
    and inv: "table_inv (p, channels w)"
    using ready by (rule loop_readyE)
  have t: "thread_id L = tid" using tid L by (simp add: loop_tid_def)
  have "okR (set_events c (f (ch_events ch)) (p, channels w)) (\<lambda>(p', h'). poller_inv p' h' \<and>
      events_synced p' h' \<and> registered p' h' c \<and>
      interest p' h' = (interest p (channels w))(ch_fd ch \<mapsto> ucast (f (ch_events ch))) \<and>
      channel_map p' = (channel_map p)(ch_fd ch \<mapsto> c) \<and>
      (\<exists>i. h' = (channels w)(c \<mapsto> ch\<lparr>ch_events := f (ch_events ch), ch_index := i\<rparr>)))"
    using inv known L by (intro set_events_ok) (auto simp: table_inv_def ch)
  then show ?thesis
    unfolding set_mask_eq[OF L(1,2) t ch] okR_bindR
    by (rule okR_mono) (auto simp: L table_inv_def loop_ready_def the_poller_def fun_upd_same simp del: fun_upd_apply)
qed

text \<open>Removing a channel that wants no events takes it out of the poller's tables.\<close>

lemma removeChannel_ok:
  assumes ready: "loop_ready w l" and tid: "loop_tid w l = Some tid"
    and ch: "channels w c = Some ch" "ch_owner_loop ch = Some l" "isNoneEvent ch"
    and reg: "registered (the_poller w l) (channels w) c"
  shows "okR (EventLoop_removeChannel tid l c w) (\<lambda>w'. \<exists>L p' h'. loops w l = Some L \<and>
      w' = put_loop l (L\<lparr>loop_poller := Some p'\<rparr>) (w\<lparr>channels := h'\<rparr>) \<and> loop_ready w' l \<and>
      \<not> registered p' h' c \<and> interest p' h' = (interest (the_poller w l) (channels w))(ch_fd ch := None))"
proof -
  obtain L p where L: "loops w l = Some L" "loop_poller L = Some p" "the_poller w l = p"
    and inv: "table_inv (p, channels w)"
    using ready by (rule loop_readyE)
  have t: "isInLoopThread tid L" using tid L by (simp add: loop_tid_def isInLoopThread_def)
  obtain p' h' where eq: "Poller_removeChannel True c (p, channels w) = Inr (p', h')"
    and post: "poller_inv p' h'" "events_synced p' h'" "\<not> registered p' h' c"
      "interest p' h' = (interest p (channels w))(ch_fd ch := None)"
    using remove_ok[of p "channels w" c ch] inv reg ch L(3) by (auto simp: table_inv_def okR_iff_ex)
  have "EventLoop_removeChannel tid l c w = Inr (put_loop l (L\<lparr>loop_poller := Some p'\<rparr>) (w\<lparr>channels := h'\<rparr>))"
    using L t ch eq by (simp add: EventLoop_removeChannel_def getOwnerLoop_def)
  then show ?thesis
    using L post by (auto simp: loop_ready_def table_inv_def)
qed


section \<open>Dispatch order\<close>

definition opt_list :: "'a option \<Rightarrow> 'a list" where
  "opt_list x = (case x of None \<Rightarrow> [] | Some y \<Rightarrow> [y])"

text \<open>The callbacks one round of events calls for, in calling order.\<close>

definition dispatch :: "'cb channel \<Rightarrow> 'cb list" where
  "dispatch ch =
     (if hup_guard (ch_revents ch) then opt_list (ch_close_cb ch) else []) @
     (if err_guard (ch_revents ch) then opt_list (ch_error_cb ch) else []) @
     (if in_guard (ch_revents ch) then opt_list (ch_read_cb ch) else []) @
     (if out_guard (ch_revents ch) then opt_list (ch_write_cb ch) else [])"

definition same_wiring :: "'cb channel \<Rightarrow> 'cb channel \<Rightarrow> bool" where
  "same_wiring ch ch' \<longleftrightarrow> ch_revents ch' = ch_revents ch \<and> ch_close_cb ch' = ch_close_cb ch \<and>
     ch_error_cb ch' = ch_error_cb ch \<and> ch_read_cb ch' = ch_read_cb ch \<and> ch_write_cb ch' = ch_write_cb ch"

text \<open>The callbacks neither destroy the channel nor touch its received events and its callbacks.\<close>

definition keeps_wiring :: "('cb \<Rightarrow> int \<Rightarrow> ('cb, 'f, 'k, 'z) reactor_scheme \<Rightarrow>
    ('cb, 'f, 'k, 'z) reactor_scheme res) \<Rightarrow> nat \<Rightarrow> bool" where
  "keeps_wiring call c \<longleftrightarrow> (\<forall>cb t w ch w'. channels w c = Some ch \<longrightarrow> call cb t w = Inr w' \<longrightarrow>
     (\<exists>ch'. channels w' c = Some ch' \<and> same_wiring ch ch'))"

lemma fire_eq:
  assumes "channels w c = Some ch"
  shows "fire call t c guard sel w =
    foldR (\<lambda>cb. call cb t) (if guard (ch_revents ch) then opt_list (sel ch) else []) w"
  using assms by (cases "sel ch"; cases "call (the (sel ch)) t w")
    (simp_all add: fire_def opt_list_def)

lemma foldR_keeps_wiring:
  assumes "keeps_wiring call c"
  shows "channels w c = Some ch \<Longrightarrow> foldR (\<lambda>cb. call cb t) cbs w = Inr w' \<Longrightarrow>
    \<exists>ch'. channels w' c = Some ch' \<and> same_wiring ch ch'"
proof (induction cbs arbitrary: w ch)
  case Nil
  then show ?case by (simp add: same_wiring_def)
next
  case (Cons cb cbs)
  then obtain w1 where w1: "call cb t w = Inr w1" "foldR (\<lambda>cb. call cb t) cbs w1 = Inr w'"
    by (auto simp: bindR_eq_Inr_iff)
  then obtain ch1 where "channels w1 c = Some ch1" "same_wiring ch ch1"
    using assms Cons.prems unfolding keeps_wiring_def by blast
  then show ?case using Cons.IH w1(2) unfolding same_wiring_def by metis
qed

lemma fire_after:
  assumes "keeps_wiring call c" and "channels w c = Some ch"
    and "\<And>d d'. same_wiring d d' \<Longrightarrow> sel d' = sel d"
  shows "bindR (foldR (\<lambda>cb. call cb t) cbs w) (fire call t c guard sel) =
    foldR (\<lambda>cb. call cb t) (cbs @ (if guard (ch_revents ch) then opt_list (sel ch) else [])) w"
proof (cases "foldR (\<lambda>cb. call cb t) cbs w")
  case (Inl e)
  then show ?thesis by (simp add: foldR_append)
next
  case (Inr w1)
  then obtain ch1 where "channels w1 c = Some ch1" and same: "same_wiring ch ch1"
    using foldR_keeps_wiring[OF assms(1,2)] by blast
  then show ?thesis
    using Inr fire_eq[of w1 c ch1 call t guard sel] assms(3)[OF same]
    by (simp add: foldR_append same_wiring_def)
qed

lemma handleEvents_dispatch:
  assumes keep: "keeps_wiring call c" and ch: "channels w c = Some ch"
  shows "handleEvents call t c w =
    bindR (foldR (\<lambda>cb. call cb t) (dispatch ch) (put_channel c (ch\<lparr>ch_events_handling := True\<rparr>) w)) (\<lambda>w'.
    bindR (deref (channels w') c) (\<lambda>ch'.
    Inr (put_channel c (ch'\<lparr>ch_events_handling := False\<rparr>) w')))"
proof -
  let ?ch = "ch\<lparr>ch_events_handling := True\<rparr>"
  let ?w = "put_channel c ?ch w"
  have w: "channels ?w c = Some ?ch" by simp
  let ?f = "\<lambda>g s. if g (ch_revents ch) then opt_list (s ch) else []"
  have start: "fire call t c hup_guard ch_close_cb ?w = foldR (\<lambda>cb. call cb t) (?f hup_guard ch_close_cb) ?w"
    using fire_eq[OF w] by simp
  have err: "bindR (foldR (\<lambda>cb. call cb t) cbs ?w) (fire call t c err_guard ch_error_cb) =
      foldR (\<lambda>cb. call cb t) (cbs @ ?f err_guard ch_error_cb) ?w"
    and rd: "bindR (foldR (\<lambda>cb. call cb t) cbs ?w) (fire call t c in_guard ch_read_cb) =
      foldR (\<lambda>cb. call cb t) (cbs @ ?f in_guard ch_read_cb) ?w"
    and wr: "bindR (foldR (\<lambda>cb. call cb t) cbs ?w) (fire call t c out_guard ch_write_cb) =
      foldR (\<lambda>cb. call cb t) (cbs @ ?f out_guard ch_write_cb) ?w" for cbs
    using fire_after[OF keep w, of ch_error_cb t cbs err_guard]
      fire_after[OF keep w, of ch_read_cb t cbs in_guard]
      fire_after[OF keep w, of ch_write_cb t cbs out_guard]
    by (simp_all add: same_wiring_def)
  let ?fin = "\<lambda>w'. bindR (deref (channels w') c) (\<lambda>ch'. Inr (put_channel c (ch'\<lparr>ch_events_handling := False\<rparr>) w'))"
  have "handleEvents call t c w =
      bindR (bindR (bindR (bindR (foldR (\<lambda>cb. call cb t) (?f hup_guard ch_close_cb) ?w)
        (fire call t c err_guard ch_error_cb)) (fire call t c in_guard ch_read_cb))
        (fire call t c out_guard ch_write_cb)) ?fin"
    unfolding handleEvents_def start [symmetric] bindR_assoc using ch by simp
  then show ?thesis
    unfolding err rd wr by (simp only: dispatch_def append_assoc)
qed


section \<open>Pending functors\<close>

lemma unlocked_again:
  "mutex_holder L = None \<Longrightarrow> L\<lparr>pending_functors := x, mutex_holder := None\<rparr> = L\<lparr>pending_functors := x\<rparr>"
  by (cases L) simp

lemma queueInLoop_quiet:
  assumes "loops w l = Some L" and "mutex_holder L = None"
    and "isInLoopThread tid L" and "\<not> calling_pending_functors L"
  shows "queueInLoop tid K l cb w = Inr (put_loop l (L\<lparr>pending_functors := pending_functors L @ [cb]\<rparr>) w)"
  using assms
  by (simp add: queueInLoop_def lock_mutex_def unlock_mutex_def isInLoopThread_def put_loop_def
      unlocked_again)

lemma queueInLoop_wakes:
  assumes "loops w l = Some L" and "mutex_holder L = None" and "wakeup_fd L = Some fd"
    and "\<not> isInLoopThread tid L \<or> calling_pending_functors L"
  shows "queueInLoop tid K l cb w =
    Inr (put_loop l (L\<lparr>pending_functors := pending_functors L @ [cb]\<rparr>)
           (w\<lparr>kern := snd (sys_write K fd one_bytes (kern w))\<rparr>))"
  using assms
  by (auto simp: queueInLoop_def lock_mutex_def unlock_mutex_def isInLoopThread_def put_loop_def
      wakeup_def Let_def unlocked_again split: prod.splits)

lemma queueInLoop_locked:
  "loops w l = Some L \<Longrightarrow> mutex_holder L \<noteq> None \<Longrightarrow> queueInLoop tid K l cb w = Inl Deadlock"
  by (auto simp: queueInLoop_def lock_mutex_def)

text \<open>The functors of one batch run with the mutex held and an empty queue.\<close>

definition in_batch :: "nat \<Rightarrow> ('cb, 'f, 'k, 'z) reactor_scheme \<Rightarrow> bool" where
  "in_batch l w \<longleftrightarrow> (\<exists>L. loops w l = Some L \<and> mutex_holder L \<noteq> None \<and> pending_functors L = [])"

definition batch_start :: "int \<Rightarrow> nat \<Rightarrow> 'f event_loop \<Rightarrow> ('cb, 'f, 'k, 'z) reactor_scheme \<Rightarrow>
    ('cb, 'f, 'k, 'z) reactor_scheme" where
  "batch_start tid l L w = put_loop l
     (L\<lparr>calling_pending_functors := True, mutex_holder := Some tid, pending_functors := []\<rparr>) w"

lemma doPendingFunctors_eq:
  assumes "loops w l = Some L" and "mutex_holder L = None"
  shows "doPendingFunctors tid run l w =
    bindR (foldR run (pending_functors L) (batch_start tid l L w)) (\<lambda>w2.
    bindR (deref (loops w2) l) (\<lambda>L2.
    Inr (put_loop l (L2\<lparr>calling_pending_functors := False, mutex_holder := None\<rparr>) w2)))"
  using assms by (simp add: doPendingFunctors_def lock_mutex_def unlock_mutex_def batch_start_def)

lemma in_batch_start: "in_batch l (batch_start tid l L w)"
  by (simp add: in_batch_def batch_start_def)

lemma doPendingFunctors_ok:
  assumes L: "loops w l = Some L" "mutex_holder L = None"
    and step: "\<And>f v. f \<in> set (pending_functors L) \<Longrightarrow> in_batch l v \<Longrightarrow> okR (run f v) (in_batch l)"
  shows "okR (doPendingFunctors tid run l w) (\<lambda>w'. \<exists>w2 L2.
    foldR run (pending_functors L) (batch_start tid l L w) = Inr w2 \<and> loops w2 l = Some L2 \<and>
    w' = put_loop l (L2\<lparr>calling_pending_functors := False, mutex_holder := None\<rparr>) w2 \<and>
    pending_functors L2 = [])"
proof -
  have "okR (foldR run (pending_functors L) (batch_start tid l L w)) (in_batch l)"
    using in_batch_start step by (rule foldR_okR)
  then obtain w2 where "foldR run (pending_functors L) (batch_start tid l L w) = Inr w2" "in_batch l w2"
    by (rule okR_obtain)
  then show ?thesis
    unfolding doPendingFunctors_eq[OF L] by (auto simp: in_batch_def)
qed

text \<open>
  A functor that queues another functor on the same loop locks the mutex that
  \<open>doPendingFunctors\<close> still holds.
\<close>

lemma doPendingFunctors_deadlock:
  assumes L: "loops w l = Some L" "mutex_holder L = None"
    and pending: "pending_functors L = fs @ f # gs"
    and before: "\<And>g v. g \<in> set fs \<Longrightarrow> in_batch l v \<Longrightarrow> okR (run g v) (in_batch l)"
    and queues: "\<And>v. run f v = bindR (queueInLoop tid' K l g v) rest"
  shows "doPendingFunctors tid run l w = Inl Deadlock"
proof -
  have "okR (foldR run fs (batch_start tid l L w)) (in_batch l)"
    using in_batch_start before by (rule foldR_okR)
  then obtain w2 where w2: "foldR run fs (batch_start tid l L w) = Inr w2" "in_batch l w2"
    by (rule okR_obtain)
  then have "run f w2 = Inl Deadlock"
    using queues queueInLoop_locked[of w2 l _ tid' K g] by (auto simp: in_batch_def)
  then show ?thesis
    unfolding doPendingFunctors_eq[OF L] pending using w2 by (simp add: foldR_append)
qed


section \<open>Termination of the loop\<close>

fun loop_n :: "nat \<Rightarrow> int \<Rightarrow> 'k sysops \<Rightarrow>
    ('cb \<Rightarrow> int \<Rightarrow> ('cb, 'f, 'k, 'z) reactor_scheme \<Rightarrow> ('cb, 'f, 'k, 'z) reactor_scheme res) \<Rightarrow>
    ('f \<Rightarrow> ('cb, 'f, 'k, 'z) reactor_scheme \<Rightarrow> ('cb, 'f, 'k, 'z) reactor_scheme res) \<Rightarrow> nat \<Rightarrow>
    ('cb, 'f, 'k, 'z) reactor_scheme \<Rightarrow> ('cb, 'f, 'k, 'z) reactor_scheme res" where
  "loop_n 0 tid K call run l w = Inr w"
| "loop_n (Suc n) tid K call run l w =
     bindR (loop_iter tid K call run l w) (\<lambda>w'.
     bindR (deref (loops w') l) (\<lambda>L'. if quit_flag L' then Inr w' else loop_n n tid K call run l w'))"

text \<open>If \<open>n\<close> iterations end with \<open>quit_\<close> set, the loop returns their result.\<close>

lemma loop_while_returns:
  assumes "loops w l = Some L" and "\<not> quit_flag L"
    and "loop_n n tid K call run l w = Inr w'" and "loops w' l = Some L'" and "quit_flag L'"
  shows "loop_while tid K call run l w = Some (Inr w')"
  using assms
proof (induction n arbitrary: w L)
  case 0
  then show ?case by simp
next
  case (Suc n)
  then obtain w1 L1 where w1: "loop_iter tid K call run l w = Inr w1" "loops w1 l = Some L1"
    "(if quit_flag L1 then Inr w1 else loop_n n tid K call run l w1) = Inr w'"
    by (auto simp: bindR_eq_Inr_iff deref_eq_Inr_iff)
  have step: "loop_while tid K call run l w = loop_while tid K call run l w1"
    using Suc.prems(1,2) w1(1) by (subst loop_while.simps) simp
  show ?case
  proof (cases "quit_flag L1")
    case True
    then show ?thesis
      unfolding step using w1 Suc.prems by (subst loop_while.simps) simp
  next
    case False
    then show ?thesis
      unfolding step using Suc.IH[OF w1(2)] w1(3) Suc.prems(4,5) by simp
  qed
qed



section \<open>Properties\<close>

text \<open>
  A loop of thread 1 with an empty poller; its closures are numbers, of which 0 quits the loop and
  the others do nothing.
\<close>

definition demo_ev_loop :: "nat list \<Rightarrow> nat event_loop" where
  "demo_ev_loop fs = \<lparr>looping = False, quit_flag = True, calling_pending_functors = False, thread_id = 1,
     poll_return_time = 0, loop_poller = Some Poller_ctor, wakeup_fd = Some 4, wakeup_channel = None,
     active_channels = [], mutex_holder = None, pending_functors = fs\<rparr>"

definition demo_reactor :: "nat list \<Rightarrow> (unit, nat, sim) reactor" where
  "demo_reactor fs = \<lparr>channels = [2 \<mapsto> (Channel_ctor 0 7)\<lparr>ch_revents := POLLIN OR POLLOUT, ch_read_cb := Some ()\<rparr>],
     loops = [0 \<mapsto> demo_ev_loop fs], event_loop_in_thread = [1 \<mapsto> 0], kern = sim_init\<rparr>"

definition demo_run :: "nat \<Rightarrow> (unit, nat, sim) reactor \<Rightarrow> (unit, nat, sim) reactor res" where
  "demo_run f w = (if f = 0 then quit 1 sim_ops 0 w else Inr w)"

lemma demo_reactor_loop: "loops (demo_reactor fs) 0 = Some (demo_ev_loop fs)"
  by (simp add: demo_reactor_def)

lemma demo_ev_loop_fields:
  "mutex_holder (demo_ev_loop fs) = None" "pending_functors (demo_ev_loop fs) = fs"
  "thread_id (demo_ev_loop fs) = 1" "\<not> looping (demo_ev_loop fs)" "wakeup_fd (demo_ev_loop fs) = Some 4"
  by (simp_all add: demo_ev_loop_def)

lemma demo_run_in_batch: "in_batch 0 v \<Longrightarrow> thread_id (the (loops v 0)) = 1 \<Longrightarrow> okR (demo_run f v) (in_batch 0)"
  by (auto simp: demo_run_def quit_def in_batch_def Let_def isInLoopThread_def)



text \<open>
  C32: a closure that queues another closure on its own loop deadlocks the loop: \<open>queueInLoop\<close> locks
  the mutex that \<open>doPendingFunctors\<close> holds while it runs the batch.
\<close>

theorem requeue_deadlocks:
  assumes "loops w l = Some L" and "mutex_holder L = None" and "pending_functors L = fs @ f # gs"
    and "\<And>g v. g \<in> set fs \<Longrightarrow> in_batch l v \<Longrightarrow> okR (run g v) (in_batch l)"
    and "\<And>v. run f v = bindR (queueInLoop tid' K l g v) rest"
  shows "doPendingFunctors tid run l w = Inl Deadlock"
  using assms by (rule doPendingFunctors_deadlock)

theorem requeue_deadlocks_witness:
  "doPendingFunctors 1 (\<lambda>f v. bindR (queueInLoop 1 sim_ops 0 9 v) Inr) 0 (demo_reactor [3]) = Inl Deadlock"
  by (rule requeue_deadlocks[OF demo_reactor_loop, of _ "[]" 3 "[]"]) (simp_all add: demo_ev_loop_fields)



text \<open>
  A closure queued from another thread goes behind those already queued, nothing else of the loop
  changes, and eight bytes are written to the loop's wakeup descriptor, so a blocked \<open>poll\<close> returns.
\<close>

theorem cross_thread_queue_wakes:
  assumes "loops w l = Some L" and "mutex_holder L = None" and "wakeup_fd L = Some fd" and "thread_id L \<noteq> tid"
  shows "queueInLoop tid K l cb w =
    Inr (put_loop l (L\<lparr>pending_functors := pending_functors L @ [cb]\<rparr>)
           (w\<lparr>kern := snd (sys_write K fd one_bytes (kern w))\<rparr>))"
  using assms by (intro queueInLoop_wakes) (simp_all add: isInLoopThread_def)

theorem cross_thread_queue_wakes_witness:
  "queueInLoop 8 sim_ops 0 6 (demo_reactor [3]) =
    Inr (put_loop 0 ((demo_ev_loop [3])\<lparr>pending_functors := [3, 6]\<rparr>)
           ((demo_reactor [3])\<lparr>kern := snd (sys_write sim_ops 4 one_bytes (kern (demo_reactor [3])))\<rparr>))"
  using cross_thread_queue_wakes[OF demo_reactor_loop[of "[3]"], of 4 8 sim_ops 6] by (simp add: demo_ev_loop_fields)



lemma EventLoop_ctor_loop:
  "loops (EventLoop_ctor tid l calling w) l = Some \<lparr>looping = False, quit_flag = True,
     calling_pending_functors = calling, thread_id = tid, poll_return_time = 0, loop_poller = None,
     wakeup_fd = None, wakeup_channel = None, active_channels = [], mutex_holder = None, pending_functors = []\<rparr>"
  by (auto simp: EventLoop_ctor_def Let_def)

text \<open>
  The constructor creates neither the poller nor the wakeup descriptor: on a freshly constructed
  loop, \<open>loop()\<close> dereferences a null pointer and \<open>queueInLoop\<close> from another thread reads an
  uninitialised descriptor.
\<close>

theorem fresh_loop_is_unusable:
  "EventLoop_loop tid K call run l (EventLoop_ctor tid l calling w) = Some (Inl NullDeref) \<and>
   queueInLoop (tid + 1) K l f (EventLoop_ctor tid l calling w) = Inl Indeterminate"
proof -
  let ?w = "EventLoop_ctor tid l calling w"
  obtain L where L: "loops ?w l = Some L" "\<not> looping L" "thread_id L = tid" "loop_poller L = None"
    "wakeup_fd L = None" "mutex_holder L = None"
    using EventLoop_ctor_loop[of tid l calling w] by simp
  have "loop_iter tid K call run l (put_loop l (L\<lparr>looping := True, quit_flag := False\<rparr>) ?w) = Inl NullDeref"
    using L by (simp add: loop_iter_def)
  then have "loop_while tid K call run l (put_loop l (L\<lparr>looping := True, quit_flag := False\<rparr>) ?w) = Some (Inl NullDeref)"
    by (subst loop_while.simps) simp
  then have "EventLoop_loop tid K call run l ?w = Some (Inl NullDeref)"
    using L by (simp add: EventLoop_loop_def isInLoopThread_def)
  moreover have "queueInLoop (tid + 1) K l f ?w = Inl Indeterminate"
    using L by (simp add: queueInLoop_def lock_mutex_def wakeup_def isInLoopThread_def Let_def)
  ultimately show ?thesis by blast
qed

end
