(* ===== verification/InetAddr.thy ===== *)
theory InetAddr
  imports Prelude
begin

text \<open>
  \<open>class InetAddress\<close> (\<open>src/src/include/inet_addr.h\<close>, \<open>src/src/inet_addr.cpp\<close>) and the address
  helpers of \<open>namespace sockets\<close> (\<open>src/src/include/sockets_options.h\<close>,
  \<open>src/src/sockets_options.cpp\<close>): byte order, dotted-decimal addresses and their text form. The
  machine is little-endian; \<open>inet_ntop\<close>, \<open>inet_pton\<close> and \<open>snprintf\<close> of the C library are
  modelled as far as the code uses them.
\<close>

section \<open>Bytes of an integer\<close>

text \<open>The \<open>n\<close> bytes of an unsigned integer in memory order, least significant first.\<close>

fun to_le :: "nat \<Rightarrow> nat \<Rightarrow> nat list" where
  "to_le 0 x = []"
| "to_le (Suc n) x = x mod 256 # to_le n (x div 256)"

fun of_le :: "nat list \<Rightarrow> nat" where
  "of_le [] = 0"
| "of_le (b # bs) = b + 256 * of_le bs"

lemma length_to_le [simp]: "length (to_le n x) = n"
  by (induction n arbitrary: x) simp_all

lemma to_le_bytes: "b \<in> set (to_le n x) \<Longrightarrow> b < 256"
  by (induction n arbitrary: x) auto

lemma of_to_le: "of_le (to_le n x) = x mod 256 ^ n"
proof (induction n arbitrary: x)
  case (Suc n)
  have "x mod (256 * 256 ^ n) = 256 * (x div 256 mod 256 ^ n) + x mod 256"
    by (simp add: mod_mult2_eq)
  then show ?case using Suc by simp
qed simp

lemma to_of_le: "\<forall>b \<in> set bs. b < 256 \<Longrightarrow> to_le (length bs) (of_le bs) = bs"
  by (induction bs) simp_all

lemma of_le_less: "\<forall>b \<in> set bs. b < 256 \<Longrightarrow> of_le bs < 256 ^ length bs"
proof (induction bs)
  case (Cons b bs)
  then have "b < 256" and "of_le bs + 1 \<le> 256 ^ length bs" by simp_all
  then have "b + 256 * of_le bs < 256 * (of_le bs + 1)" by simp
  also have "\<dots> \<le> 256 * 256 ^ length bs"
    using \<open>of_le bs + 1 \<le> 256 ^ length bs\<close> by (rule mult_le_mono2)
  finally show ?case by simp
qed simp

text \<open>Reversing the bytes, as \<open>htons\<close>, \<open>htonl\<close> and \<open>htobe64\<close> do on a little-endian machine.\<close>

definition bswap :: "nat \<Rightarrow> nat \<Rightarrow> nat" where
  "bswap n x = of_le (rev (to_le n x))"

lemma bswap_less: "bswap n x < 256 ^ n"
  using of_le_less[of "rev (to_le n x)"] to_le_bytes by (auto simp: bswap_def)

lemma bswap_bswap: "x < 256 ^ n \<Longrightarrow> bswap n (bswap n x) = x"
proof -
  assume x: "x < 256 ^ n"
  have "to_le n (of_le (rev (to_le n x))) = rev (to_le n x)"
    using to_of_le[of "rev (to_le n x)"] to_le_bytes by auto
  then show ?thesis using x by (simp add: bswap_def of_to_le)
qed

definition hostToNetwork64 :: "64 word \<Rightarrow> 64 word" where
  "hostToNetwork64 host64 = of_nat (bswap 8 (unat host64))"

definition hostToNetwork32 :: "32 word \<Rightarrow> 32 word" where
  "hostToNetwork32 host32 = of_nat (bswap 4 (unat host32))"

definition hostToNetwork16 :: "16 word \<Rightarrow> 16 word" where
  "hostToNetwork16 host16 = of_nat (bswap 2 (unat host16))"

definition networkToHost64 :: "64 word \<Rightarrow> 64 word" where
  "networkToHost64 net64 = of_nat (bswap 8 (unat net64))"

definition networkToHost32 :: "32 word \<Rightarrow> 32 word" where
  "networkToHost32 net32 = of_nat (bswap 4 (unat net32))"

definition networkToHost16 :: "16 word \<Rightarrow> 16 word" where
  "networkToHost16 net16 = of_nat (bswap 2 (unat net16))"

lemma unat_of_bswap:
  "unat (of_nat (bswap 8 x) :: 64 word) = bswap 8 x"
  "unat (of_nat (bswap 4 x) :: 32 word) = bswap 4 x"
  "unat (of_nat (bswap 2 x) :: 16 word) = bswap 2 x"
  using bswap_less[of 8 x] bswap_less[of 4 x] bswap_less[of 2 x]
  by (simp_all add: unat_of_nat)

lemma byte_order_roundtrip:
  "networkToHost64 (hostToNetwork64 a) = a"
  "networkToHost32 (hostToNetwork32 b) = b"
  "networkToHost16 (hostToNetwork16 c) = c"
proof -
  have "unat a < 256 ^ 8" "unat b < 256 ^ 4" "unat c < 256 ^ 2"
    using unsigned_less[of a, where 'a = nat] unsigned_less[of b, where 'a = nat]
      unsigned_less[of c, where 'a = nat] by simp_all
  then show "networkToHost64 (hostToNetwork64 a) = a" "networkToHost32 (hostToNetwork32 b) = b"
    "networkToHost16 (hostToNetwork16 c) = c"
    by (simp_all add: networkToHost64_def hostToNetwork64_def networkToHost32_def hostToNetwork32_def
        networkToHost16_def hostToNetwork16_def unat_of_bswap bswap_bswap)
qed


section \<open>Addresses\<close>

text \<open>\<open>struct sockaddr_in\<close>: port and address in network byte order.\<close>

record sockaddr_in =
  sin_family :: "16 word"
  sin_port :: "16 word"
  sin_addr :: "32 word"

definition AF_INET :: "16 word" where
  "AF_INET = 2"

definition INADDR_ANY :: "32 word" where
  "INADDR_ANY = 0"

definition zero_addr :: sockaddr_in where
  "zero_addr = \<lparr>sin_family = 0, sin_port = 0, sin_addr = 0\<rparr>"

definition InetAddress_port :: "16 word \<Rightarrow> sockaddr_in" where
  "InetAddress_port port = zero_addr\<lparr>sin_family := AF_INET,
     sin_addr := hostToNetwork32 INADDR_ANY, sin_port := hostToNetwork16 port\<rparr>"



section \<open>Decimal text\<close>

text \<open>The conversions \<open>%d\<close> and \<open>%u\<close> of \<open>snprintf\<close> on a non-negative value, and reading it back.\<close>

definition digit :: "nat \<Rightarrow> char" where
  "digit d = char_of (48 + d)"

fun show_nat :: "nat \<Rightarrow> string" where
  "show_nat n = (if n < 10 then [digit n] else show_nat (n div 10) @ [digit (n mod 10)])"

declare show_nat.simps [simp del]

definition is_digit :: "char \<Rightarrow> bool" where
  "is_digit c \<longleftrightarrow> 48 \<le> (of_char c :: nat) \<and> (of_char c :: nat) \<le> 57"

definition read_nat :: "string \<Rightarrow> nat" where
  "read_nat s = foldl (\<lambda>a c. a * 10 + (of_char c - 48)) 0 s"

text \<open>The conversion \<open>%d\<close> on a signed value.\<close>

definition show_int :: "int \<Rightarrow> string" where
  "show_int i = (if i < 0 then CHR ''-'' # show_nat (nat (- i)) else show_nat (nat i))"

lemma of_char_digit: "d < 10 \<Longrightarrow> of_char (digit d) = 48 + d"
  by (simp add: digit_def of_char_of)

lemma read_show_nat [simp]: "read_nat (show_nat n) = n"
proof (induction n rule: show_nat.induct)
  case (1 n)
  show ?case
  proof (cases "n < 10")
    case True
    then show ?thesis by (simp add: show_nat.simps[of n] read_nat_def of_char_digit)
  next
    case False
    then have "read_nat (show_nat n) = read_nat (show_nat (n div 10)) * 10 + n mod 10"
      by (simp add: show_nat.simps[of n] read_nat_def of_char_digit)
    then show ?thesis using 1 False by simp
  qed
qed

lemma show_nat_inj: "show_nat m = show_nat n \<longleftrightarrow> m = n"
  by (metis read_show_nat)

lemma show_nat_digits: "\<forall>c \<in> set (show_nat n). is_digit c"
proof (induction n rule: show_nat.induct)
  case (1 n)
  then show ?case
    by (cases "n < 10") (auto simp: show_nat.simps[of n] is_digit_def of_char_digit)
qed

lemma show_nat_nonempty [simp]: "show_nat n \<noteq> []"
  by (simp add: show_nat.simps[of n])

lemma digit_zero: "digit d = CHR ''0'' \<Longrightarrow> d < 10 \<Longrightarrow> d = 0"
  using of_char_digit[of d] by simp

lemma show_nat_no_leading_zero: "0 < n \<Longrightarrow> hd (show_nat n) \<noteq> CHR ''0''"
proof (induction n rule: show_nat.induct)
  case (1 n)
  then show ?case
    by (cases "n < 10") (auto simp: show_nat.simps[of n] hd_append dest: digit_zero)
qed

lemma length_show_nat: "n < 10 ^ Suc k \<Longrightarrow> length (show_nat n) \<le> Suc k"
proof (induction k arbitrary: n)
  case 0
  then show ?case by (simp add: show_nat.simps[of n])
next
  case (Suc k)
  then show ?case by (auto simp: show_nat.simps[of n] less_mult_imp_div_less)
qed


section \<open>Text form of an address\<close>

fun join_dots :: "string list \<Rightarrow> string" where
  "join_dots [] = []"
| "join_dots [x] = x"
| "join_dots (x # y # xs) = x @ ''.'' @ join_dots (y # xs)"

fun split_dots :: "string \<Rightarrow> string list" where
  "split_dots [] = [[]]"
| "split_dots (c # cs) = (if c = CHR ''.'' then [] # split_dots cs
     else (case split_dots cs of [] \<Rightarrow> [[c]] | x # xs \<Rightarrow> (c # x) # xs))"

text \<open>\<open>inet_ntop(AF_INET, \<dots>)\<close>: the four bytes in memory order.\<close>

definition inet_ntop :: "32 word \<Rightarrow> string" where
  "inet_ntop a = join_dots (map show_nat (to_le 4 (unat a)))"

text \<open>\<open>inet_pton(AF_INET, \<dots>)\<close>: four decimal octets without leading zeros.\<close>

definition octet :: "string \<Rightarrow> nat option" where
  "octet s = (if s \<noteq> [] \<and> list_all is_digit s \<and> (hd s = CHR ''0'' \<longrightarrow> s = ''0'') \<and> read_nat s \<le> 255
     then Some (read_nat s) else None)"

definition inet_pton :: "string \<Rightarrow> 32 word option" where
  "inet_pton s = (let os = map octet (split_dots s) in
     if length os = 4 \<and> None \<notin> set os then Some (of_nat (of_le (map the os))) else None)"

text \<open>\<open>snprintf\<close> into a buffer of \<open>sz\<close> bytes keeps at most \<open>sz - 1\<close> characters.\<close>

definition snprintf :: "nat \<Rightarrow> string \<Rightarrow> string" where
  "snprintf sz s = take (sz - 1) s"

definition c_str :: "string \<Rightarrow> string" where
  "c_str s = takeWhile (\<lambda>c. c \<noteq> CHR 0x00) s"

definition sockets_toHostPort :: "nat \<Rightarrow> sockaddr_in \<Rightarrow> string" where
  "sockets_toHostPort sz addr =
     snprintf sz (inet_ntop (sin_addr addr) @ '':'' @ show_nat (unat (networkToHost16 (sin_port addr))))"

definition fromHostPort :: "string \<Rightarrow> 16 word \<Rightarrow> sockaddr_in \<Rightarrow> sockaddr_in" where
  "fromHostPort ip port addr =
     (let addr1 = addr\<lparr>sin_family := AF_INET, sin_port := hostToNetwork16 port\<rparr> in
      case inet_pton ip of None \<Rightarrow> addr1 | Some a \<Rightarrow> addr1\<lparr>sin_addr := a\<rparr>)"

definition InetAddress_ip_port :: "string \<Rightarrow> 16 word \<Rightarrow> sockaddr_in" where
  "InetAddress_ip_port ip port = fromHostPort (c_str ip) port zero_addr"

definition toHostPort :: "sockaddr_in \<Rightarrow> string" where
  "toHostPort addr = sockets_toHostPort 32 addr"

lemma is_digit_facts: "is_digit c \<Longrightarrow> c \<noteq> CHR ''.'' \<and> c \<noteq> CHR '':'' \<and> c \<noteq> CHR 0x00"
  by (auto simp: is_digit_def)

lemma split_plain: "CHR ''.'' \<notin> set s \<Longrightarrow> split_dots s = [s]"
  by (induction s) auto

lemma split_join: "CHR ''.'' \<notin> set x \<Longrightarrow> split_dots (x @ CHR ''.'' # s) = x # split_dots s"
  by (induction x) auto

lemma split_join_dots:
  "xs \<noteq> [] \<Longrightarrow> \<forall>x \<in> set xs. CHR ''.'' \<notin> set x \<Longrightarrow> split_dots (join_dots xs) = xs"
  by (induction xs rule: join_dots.induct) (simp_all add: split_plain split_join)

lemma octet_show: "n < 256 \<Longrightarrow> octet (show_nat n) = Some n"
proof -
  assume n: "n < 256"
  have "hd (show_nat n) = CHR ''0'' \<Longrightarrow> show_nat n = ''0''"
    using show_nat_no_leading_zero[of n] by (cases n) (auto simp: show_nat.simps[of 0] digit_def)
  then show ?thesis
    using n show_nat_digits[of n] by (auto simp: octet_def list_all_iff)
qed

lemma pton_ntop: "inet_pton (inet_ntop a) = Some a"
proof -
  let ?bs = "to_le 4 (unat a)"
  have bytes: "\<forall>b \<in> set ?bs. b < 256" using to_le_bytes by blast
  have "\<forall>x \<in> set (map show_nat ?bs). CHR ''.'' \<notin> set x"
    using show_nat_digits is_digit_facts by fastforce
  then have split: "split_dots (inet_ntop a) = map show_nat ?bs"
    unfolding inet_ntop_def by (intro split_join_dots) (auto dest: arg_cong[of _ _ length])
  have "map octet (map show_nat ?bs) = map Some ?bs"
    using bytes by (simp add: octet_show)
  moreover have "of_nat (of_le ?bs) = a"
    using unsigned_less[of a, where 'a = nat] by (simp add: of_to_le)
  moreover have "map the (map Some ?bs) = ?bs" by (simp add: comp_def)
  ultimately show ?thesis by (simp add: inet_pton_def split Let_def del: map_map)
qed

lemma ntop_chars: "c \<in> set (inet_ntop a) \<Longrightarrow> is_digit c \<or> c = CHR ''.''"
proof -
  have "c \<in> set (join_dots xs) \<Longrightarrow> c = CHR ''.'' \<or> (\<exists>x \<in> set xs. c \<in> set x)" for xs
    by (induction xs rule: join_dots.induct) auto
  then show "c \<in> set (inet_ntop a) \<Longrightarrow> is_digit c \<or> c = CHR ''.''"
    unfolding inet_ntop_def using show_nat_digits by fastforce
qed

lemma four_Suc: "(4 :: nat) = Suc (Suc (Suc (Suc 0)))"
  by simp

lemma length_ntop: "length (inet_ntop a) \<le> 15"
proof -
  have b: "b < 256 \<Longrightarrow> length (show_nat b) \<le> 3" for b
    using length_show_nat[of b 2] by simp
  obtain p q r t where bs: "to_le 4 (unat a) = [p, q, r, t]"
    unfolding four_Suc to_le.simps by blast
  have "p < 256" "q < 256" "r < 256" "t < 256"
    using to_le_bytes[of _ 4 "unat a"] unfolding bs by simp_all
  then show ?thesis
    unfolding inet_ntop_def bs using b[of p] b[of q] b[of r] b[of t] by simp
qed


section \<open>Properties\<close>

text \<open>
  Converting to network byte order and back is the identity at every width.
\<close>

theorem network_order_roundtrip:
  "networkToHost64 (hostToNetwork64 a) = a \<and> networkToHost32 (hostToNetwork32 b) = b \<and>
   networkToHost16 (hostToNetwork16 c) = c"
  by (simp add: byte_order_roundtrip)

text \<open>
  An address survives its text form: \<open>InetAddress(ip, port)\<close> applied to the host part of what
  \<open>toHostPort\<close> prints for an IPv4 address, and to its port, gives back family, address and port.
\<close>

theorem host_text_roundtrip:
  "InetAddress_ip_port (inet_ntop a) port = \<lparr>sin_family = AF_INET, sin_port = hostToNetwork16 port, sin_addr = a\<rparr>"
proof -
  have "c_str (inet_ntop a) = inet_ntop a"
    unfolding c_str_def using ntop_chars is_digit_facts by (intro takeWhile_eq_all_conv[THEN iffD2]) blast
  then show ?thesis
    by (simp add: InetAddress_ip_port_def fromHostPort_def pton_ntop zero_addr_def)
qed

text \<open>
  The 32-byte buffer of \<open>toHostPort\<close> never truncates: the result is the dotted address, a colon and
  the decimal port in host order.
\<close>

theorem toHostPort_complete:
  "toHostPort addr = inet_ntop (sin_addr addr) @ '':'' @ show_nat (unat (networkToHost16 (sin_port addr)))"
proof -
  have "unat (networkToHost16 (sin_port addr)) < 65536"
    using unsigned_less[of "networkToHost16 (sin_port addr)", where 'a = nat] by simp
  then have "length (show_nat (unat (networkToHost16 (sin_port addr)))) \<le> 5"
    using length_show_nat[of _ 4] by simp
  then show ?thesis
    using length_ntop[of "sin_addr addr"] by (simp add: toHostPort_def sockets_toHostPort_def snprintf_def)
qed

end
