(* ===== verification/Sockets.thy ===== *)
theory Sockets
  imports Kernel InetAddr
begin

unbundle bit_operations_syntax

text \<open>
  \<open>namespace sockets\<close> (\<open>src/src/sockets_options.cpp\<close>) and \<open>class Socket\<close>
  (\<open>src/src/include/socket.h\<close>, \<open>src/src/socket.cpp\<close>): thin wrappers of system calls. A failed call
  is only logged, so what remains of it is its effect on the kernel and its return value. The
  system calls for setting up sockets and threads are a second record of parameters.
\<close>

section \<open>System calls for setting up\<close>

text \<open>Results are the return value and \<open>errno\<close>, for \<open>accept4\<close> and \<open>getsockname\<close> with the address the
  kernel stored.\<close>

record 'k netops =
  sys_socket :: "'k \<Rightarrow> (int \<times> int) \<times> 'k"
  sys_bind :: "int \<Rightarrow> sockaddr_in \<Rightarrow> 'k \<Rightarrow> (int \<times> int) \<times> 'k"
  sys_listen :: "int \<Rightarrow> 'k \<Rightarrow> (int \<times> int) \<times> 'k"
  sys_accept4 :: "int \<Rightarrow> 'k \<Rightarrow> (int \<times> sockaddr_in \<times> int) \<times> 'k"
  sys_getsockname :: "int \<Rightarrow> 'k \<Rightarrow> (int \<times> sockaddr_in \<times> int) \<times> 'k"
  sys_setsockopt :: "int \<Rightarrow> string \<Rightarrow> int \<Rightarrow> 'k \<Rightarrow> (int \<times> int) \<times> 'k"
  sys_clone :: "'k \<Rightarrow> int \<times> 'k"


section \<open>The wrappers\<close>

text \<open>
  \<open>fcntl(2)\<close> is a parameter of the one function that calls it: descriptor, command and argument give the
  returned flags. The results of the calls are not checked.
\<close>

datatype fcntl_cmd = F_GETFL | F_SETFL | F_GETFD | F_SETFD

definition O_NONBLOCK :: "32 word" where
  "O_NONBLOCK = 0x800"

definition FD_CLOEXEC :: "32 word" where
  "FD_CLOEXEC = 1"

definition setNonBlockAndCloseOnExec :: "(int \<Rightarrow> fcntl_cmd \<Rightarrow> 32 word \<Rightarrow> 'k \<Rightarrow> 32 word \<times> 'k) \<Rightarrow> int \<Rightarrow> 'k \<Rightarrow> 'k" where
  "setNonBlockAndCloseOnExec fcntl sockfd k =
     (let (flags, k1) = fcntl sockfd F_GETFL 0 k;
          (ret, k2) = fcntl sockfd F_SETFL (flags OR O_NONBLOCK) k1;
          (flags', k3) = fcntl sockfd F_GETFD 0 k2;
          (ret', k4) = fcntl sockfd F_SETFD (flags' OR FD_CLOEXEC) k3 in k4)"

definition createNonblockingOrDie :: "'k netops \<Rightarrow> 'k \<Rightarrow> int \<times> 'k" where
  "createNonblockingOrDie N k = (let ((sockfd, errno), k') = sys_socket N k in (sockfd, k'))"

definition bindOrDie :: "'k netops \<Rightarrow> int \<Rightarrow> sockaddr_in \<Rightarrow> 'k \<Rightarrow> 'k" where
  "bindOrDie N sockfd addr k = (let ((ret, errno), k') = sys_bind N sockfd addr k in k')"

definition listenOrDie :: "'k netops \<Rightarrow> int \<Rightarrow> 'k \<Rightarrow> 'k" where
  "listenOrDie N sockfd k = (let ((ret, errno), k') = sys_listen N sockfd k in k')"

text \<open>How \<open>sockets::accept\<close> classifies the \<open>errno\<close> of a failed \<open>accept4\<close>; it decides what is logged.\<close>

datatype accept_error = ExpectedErr | UnexpectedErr | UnknownErr

definition accept_class :: "int \<Rightarrow> accept_error" where
  "accept_class e =
     (if e \<in> {11, 103, 4, 71, 1, 24} then ExpectedErr
      else if e \<in> {9, 14, 22, 23, 105, 12, 88, 95} then UnexpectedErr else UnknownErr)"

text \<open>The third component is the class of the error, if there is one.\<close>

definition sockets_accept :: "'k netops \<Rightarrow> int \<Rightarrow> sockaddr_in \<Rightarrow> 'k \<Rightarrow>
    (int \<times> sockaddr_in \<times> accept_error option) \<times> 'k" where
  "sockets_accept N sockfd addr k =
     (let ((connfd, a, errno), k') = sys_accept4 N sockfd k in
      if connfd < 0 then ((connfd, addr, Some (accept_class errno)), k') else ((connfd, a, None), k'))"

definition sockets_close :: "'k sysops \<Rightarrow> int \<Rightarrow> 'k \<Rightarrow> 'k" where
  "sockets_close K sockfd k = snd (sys_close K sockfd k)"

definition sockets_shutdownWrite :: "'k sysops \<Rightarrow> int \<Rightarrow> 'k \<Rightarrow> 'k" where
  "sockets_shutdownWrite K sockfd k = snd (sys_shutdown_wr K sockfd k)"

text \<open>\<open>sockets::getSocketError\<close>: the pending error of the socket, or why it cannot be read.\<close>

definition getSocketError :: "'k sysops \<Rightarrow> int \<Rightarrow> 'k \<Rightarrow> int \<times> 'k" where
  "getSocketError K sockfd k =
     (let ((ret, optval, errno), k') = sys_so_error K sockfd k in
      (if ret < 0 then errno else optval, k'))"

definition getLocalAddr :: "'k netops \<Rightarrow> int \<Rightarrow> 'k \<Rightarrow> sockaddr_in \<times> 'k" where
  "getLocalAddr N sockfd k =
     (let ((ret, a, errno), k') = sys_getsockname N sockfd k in (if ret < 0 then zero_addr else a, k'))"


section \<open>Socket\<close>

definition bindAddress :: "'k netops \<Rightarrow> int \<Rightarrow> sockaddr_in \<Rightarrow> 'k \<Rightarrow> 'k" where
  "bindAddress N sockfd addr k = bindOrDie N sockfd addr k"

definition Socket_listen :: "'k netops \<Rightarrow> int \<Rightarrow> 'k \<Rightarrow> 'k" where
  "Socket_listen N sockfd k = listenOrDie N sockfd k"

text \<open>\<open>accept(InetAddress*)\<close>: the peer address is assigned only on success.\<close>

definition Socket_accept :: "'k netops \<Rightarrow> int \<Rightarrow> sockaddr_in \<Rightarrow> 'k \<Rightarrow> (int \<times> sockaddr_in) \<times> 'k" where
  "Socket_accept N sockfd peeraddr k =
     (let ((connfd, addr, e), k') = sockets_accept N sockfd zero_addr k in
      ((connfd, if connfd \<ge> 0 then addr else peeraddr), k'))"

definition Socket_dtor :: "'k sysops \<Rightarrow> int \<Rightarrow> 'k \<Rightarrow> 'k" where
  "Socket_dtor K sockfd k = sockets_close K sockfd k"

definition shutdownWrite :: "'k sysops \<Rightarrow> int \<Rightarrow> 'k \<Rightarrow> 'k" where
  "shutdownWrite K sockfd k = sockets_shutdownWrite K sockfd k"

lemma socket_shutdown: "shutdownWrite K sockfd k = snd (sys_shutdown_wr K sockfd k)"
  by (simp add: shutdownWrite_def sockets_shutdownWrite_def)

definition setReuseAddr :: "'k netops \<Rightarrow> int \<Rightarrow> bool \<Rightarrow> 'k \<Rightarrow> 'k" where
  "setReuseAddr N sockfd on k = snd (sys_setsockopt N sockfd ''SO_REUSEADDR'' (if on then 1 else 0) k)"

definition setTcpNoDelay :: "'k netops \<Rightarrow> int \<Rightarrow> bool \<Rightarrow> 'k \<Rightarrow> 'k" where
  "setTcpNoDelay N sockfd on k = snd (sys_setsockopt N sockfd ''TCP_NODELAY'' (if on then 1 else 0) k)"

definition setKeepAlive :: "'k netops \<Rightarrow> int \<Rightarrow> bool \<Rightarrow> 'k \<Rightarrow> 'k" where
  "setKeepAlive N sockfd on k = snd (sys_setsockopt N sockfd ''SO_KEEPALIVE'' (if on then 1 else 0) k)"

text \<open>On success the new descriptor and the kernel's address are returned, on error the peer address
  is untouched.\<close>

text \<open>A descriptor's status flags and descriptor flags, as \<open>fcntl(2)\<close> reads and writes them.\<close>

definition fcntl_ok :: "(int \<Rightarrow> fcntl_cmd \<Rightarrow> 32 word \<Rightarrow> 'k \<Rightarrow> 32 word \<times> 'k) \<Rightarrow> ('k \<Rightarrow> int \<Rightarrow> 32 word) \<Rightarrow>
    ('k \<Rightarrow> int \<Rightarrow> 32 word) \<Rightarrow> bool" where
  "fcntl_ok fcntl fl fdf \<longleftrightarrow> (\<forall>fd a k.
     fcntl fd F_GETFL a k = (fl k fd, k) \<and> fcntl fd F_GETFD a k = (fdf k fd, k) \<and>
     fl (snd (fcntl fd F_SETFL a k)) = (fl k)(fd := a) \<and> fdf (snd (fcntl fd F_SETFL a k)) = fdf k \<and>
     fdf (snd (fcntl fd F_SETFD a k)) = (fdf k)(fd := a) \<and> fl (snd (fcntl fd F_SETFD a k)) = fl k)"

lemma setNonBlock_sets_two_bits:
  assumes "fcntl_ok fcntl fl fdf"
  shows "fl (setNonBlockAndCloseOnExec fcntl sockfd k) = (fl k)(sockfd := fl k sockfd OR O_NONBLOCK) \<and>
    fdf (setNonBlockAndCloseOnExec fcntl sockfd k) = (fdf k)(sockfd := fdf k sockfd OR FD_CLOEXEC)"
  using assms by (simp add: setNonBlockAndCloseOnExec_def fcntl_ok_def case_prod_beta Let_def)

lemma Socket_accept_eq:
  assumes "sys_accept4 N sockfd k = ((connfd, a, e), k')"
  shows "Socket_accept N sockfd peer k = ((connfd, if connfd \<ge> 0 then a else peer), k')"
  using assms by (simp add: Socket_accept_def sockets_accept_def)


section \<open>A simulated network\<close>

text \<open>For the simulated kernel: descriptors are taken from the clock, every call succeeds.\<close>

definition sim_net :: "sim netops" where
  "sim_net = \<lparr>sys_socket = (\<lambda>k. ((3, 0), k)), sys_bind = (\<lambda>fd a k. ((0, 0), k)),
     sys_listen = (\<lambda>fd k. ((0, 0), k)), sys_accept4 = (\<lambda>fd k. ((7, InetAddress_port 5000, 0), k)),
     sys_getsockname = (\<lambda>fd k. ((0, InetAddress_port 2007, 0), k)),
     sys_setsockopt = (\<lambda>fd opt v k. ((0, 0), k)),
     sys_clone = (\<lambda>k. (sim_clock k, k\<lparr>sim_clock := sim_clock k + 1\<rparr>))\<rparr>"

end
