(* ===== verification/TcpConnection.thy ===== *)
theory TcpConnection
  imports Buffer EventLoop Sockets
begin

text \<open>
  \<open>class TcpConnection\<close> (\<open>src/src/include/tcp_connection.h\<close>, \<open>src/src/tcp_connection.cpp\<close>): one
  connected socket with its channel, its two buffers and its life cycle. The reactor state is
  extended by the store of connections. The closures the code binds (channel callbacks and queued
  functors) are datatypes; the application's callbacks and the close callback are functions passed
  in a record. The theory shows that the bytes given to \<open>send\<close> reach the socket in order and
  without loss, that write interest is on exactly while bytes are pending, how the write side is
  shut down after the last byte, and the life cycle of the connection states.
\<close>

section \<open>Closures\<close>

text \<open>The functions bound as channel callbacks, with the object they are bound to.\<close>

datatype chan_cb =
    ConnHandleRead nat
  | ConnHandleWrite nat
  | ConnHandleError nat
  | ConnHandleClose nat
  | AcceptorHandleRead nat
  | WakeupHandleRead nat

text \<open>The functions bound and passed to \<open>runInLoop\<close> and \<open>queueInLoop\<close>.\<close>

datatype closure =
    DestroyConnection nat
  | SendInLoop nat string
  | ShutdownInLoop nat
  | WriteComplete nat
  | AcceptorListen nat


section \<open>State\<close>

datatype states = Connecting | Connected | Disconnecting | Disconnected

text \<open>\<open>has_\<dots>_cb\<close> says whether the \<open>std::function\<close> member holds a target.\<close>

record tcp_connection =
  conn_loop :: nat
  conn_name :: string
  conn_state :: states
  conn_socket :: int
  conn_channel :: nat
  conn_local_addr :: sockaddr_in
  conn_peer_addr :: sockaddr_in
  has_connection_cb :: bool
  has_write_cmpl_cb :: bool
  has_message_cb :: bool
  has_close_cb :: bool
  input_buffer :: buffer
  output_buffer :: buffer

record 'k tcp_world = "(chan_cb, closure, 'k) reactor" +
  conns :: "nat \<rightharpoonup> tcp_connection"

text \<open>The targets of the function members, over a world \<open>'w\<close>.\<close>

record 'w conn_cbs =
  connection_cb :: "nat \<Rightarrow> 'w \<Rightarrow> 'w res"
  message_cb :: "nat \<Rightarrow> int \<Rightarrow> 'w \<Rightarrow> 'w res"
  write_cmpl_cb :: "nat \<Rightarrow> 'w \<Rightarrow> 'w res"
  close_cb :: "nat \<Rightarrow> 'w \<Rightarrow> 'w res"

definition put_conn :: "nat \<Rightarrow> tcp_connection \<Rightarrow> ('k, 'z) tcp_world_scheme \<Rightarrow> ('k, 'z) tcp_world_scheme" where
  "put_conn conn C w = w\<lparr>conns := (conns w)(conn \<mapsto> C)\<rparr>"

definition setState :: "states \<Rightarrow> tcp_connection \<Rightarrow> tcp_connection" where
  "setState s C = C\<lparr>conn_state := s\<rparr>"

definition connected :: "tcp_connection \<Rightarrow> bool" where
  "connected C \<longleftrightarrow> conn_state C = Connected"

text \<open>The setters of the function members; the argument may be an empty function.\<close>

definition setConnectionCallback :: "bool \<Rightarrow> tcp_connection \<Rightarrow> tcp_connection" where
  "setConnectionCallback cb C = C\<lparr>has_connection_cb := cb\<rparr>"

definition conn_setWriteCallback :: "bool \<Rightarrow> tcp_connection \<Rightarrow> tcp_connection" where
  "conn_setWriteCallback cb C = C\<lparr>has_write_cmpl_cb := cb\<rparr>"

definition setMessageCallback :: "bool \<Rightarrow> tcp_connection \<Rightarrow> tcp_connection" where
  "setMessageCallback cb C = C\<lparr>has_message_cb := cb\<rparr>"

definition conn_setCloseCallback :: "bool \<Rightarrow> tcp_connection \<Rightarrow> tcp_connection" where
  "conn_setCloseCallback cb C = C\<lparr>has_close_cb := cb\<rparr>"

lemmas conn_setters = setConnectionCallback_def conn_setWriteCallback_def setMessageCallback_def
  conn_setCloseCallback_def

text \<open>The constructor: a fresh channel \<open>c\<close> wired to the four handlers, two fresh buffers.\<close>

definition TcpConnection_ctor :: "nat \<Rightarrow> string \<Rightarrow> int \<Rightarrow> sockaddr_in \<Rightarrow> sockaddr_in \<Rightarrow> nat \<Rightarrow> nat \<Rightarrow>
    ('k, 'z) tcp_world_scheme \<Rightarrow> ('k, 'z) tcp_world_scheme res" where
  "TcpConnection_ctor loop name sockfd local_addr peer_addr c conn w =
     bindR Buffer_ctor (\<lambda>inbuf.
     bindR Buffer_ctor (\<lambda>outbuf.
     let ch = setCloseCallback (ConnHandleClose conn)
                (setErrorCallback (ConnHandleError conn)
                (setWriteCallback (ConnHandleWrite conn)
                (setReadCallback (ConnHandleRead conn) (Channel_ctor loop sockfd))));
         C = \<lparr>conn_loop = loop, conn_name = name, conn_state = Connecting, conn_socket = sockfd,
              conn_channel = c, conn_local_addr = local_addr, conn_peer_addr = peer_addr,
              has_connection_cb = False, has_write_cmpl_cb = False, has_message_cb = False,
              has_close_cb = False, input_buffer = inbuf, output_buffer = outbuf\<rparr> in
     Inr (put_conn conn C (put_channel c ch w))))"

text \<open>
  The destructor: the members go in reverse order of declaration, first the channel, which must not
  be handling events, then the socket, which closes the descriptor.
\<close>

definition TcpConnection_dtor :: "'k sysops \<Rightarrow> nat \<Rightarrow> ('k, 'z) tcp_world_scheme \<Rightarrow>
    ('k, 'z) tcp_world_scheme res" where
  "TcpConnection_dtor K conn w =
     bindR (deref (conns w) conn) (\<lambda>C.
     bindR (deref (channels w) (conn_channel C)) (\<lambda>ch.
     bindR (Channel_dtor ch) (\<lambda>_.
     Inr (w\<lparr>channels := (channels w)(conn_channel C := None), conns := (conns w)(conn := None),
            kern := Socket_dtor K (conn_socket C) (kern w)\<rparr>))))"

definition conn_setTcpNoDelay :: "'k netops \<Rightarrow> nat \<Rightarrow> bool \<Rightarrow> ('k, 'z) tcp_world_scheme \<Rightarrow>
    ('k, 'z) tcp_world_scheme res" where
  "conn_setTcpNoDelay N conn on w =
     bindR (deref (conns w) conn) (\<lambda>C. Inr (w\<lparr>kern := setTcpNoDelay N (conn_socket C) on (kern w)\<rparr>))"

definition setTcpKeepAlive :: "'k netops \<Rightarrow> nat \<Rightarrow> bool \<Rightarrow> ('k, 'z) tcp_world_scheme \<Rightarrow>
    ('k, 'z) tcp_world_scheme res" where
  "setTcpKeepAlive N conn on w =
     bindR (deref (conns w) conn) (\<lambda>C. Inr (w\<lparr>kern := setKeepAlive N (conn_socket C) on (kern w)\<rparr>))"

text \<open>Calling a function member.\<close>

definition call_member :: "bool \<Rightarrow> ('w \<Rightarrow> 'w res) \<Rightarrow> 'w \<Rightarrow> 'w res" where
  "call_member present f w = check present BadFunctionCall (f w)"


section \<open>Sending\<close>

definition sendInLoop :: "int \<Rightarrow> 'k sysops \<Rightarrow> nat \<Rightarrow> string \<Rightarrow> ('k, 'z) tcp_world_scheme \<Rightarrow>
    ('k, 'z) tcp_world_scheme res" where
  "sendInLoop tid K conn message w =
     bindR (deref (conns w) conn) (\<lambda>C.
     bindR (assertInLoopThread tid (conn_loop C) w) (\<lambda>_.
     bindR (deref (channels w) (conn_channel C)) (\<lambda>ch.
     bindR
       (if \<not> isWriting ch \<and> readableBytes (output_buffer C) = 0 then
          (let ((n, errno), k') = sys_write K (getFd ch) message (kern w); w1 = w\<lparr>kern := k'\<rparr> in
           if n \<ge> 0 then
             if nat n < length message then Inr (n, w1)
             else if has_write_cmpl_cb C then
               bindR (queueInLoop tid K (conn_loop C) (WriteComplete conn) w1) (\<lambda>w2. Inr (n, w2))
             else Inr (n, w1)
           else Inr (0, w1))
        else Inr (0, w))
     (\<lambda>(nwrote, w3).
     check (nwrote \<ge> 0) (AssertFailed ''tcp_connection.cpp:88'')
     (if nat nwrote < length message then
        bindR (Buffer_append (output_buffer C) (drop (nat nwrote) message)) (\<lambda>outbuf.
        let w4 = put_conn conn (C\<lparr>output_buffer := outbuf\<rparr>) w3 in
        if \<not> isWriting ch then enableWriting tid (conn_channel C) w4 else Inr w4)
      else Inr w3)))))"

definition send :: "int \<Rightarrow> 'k sysops \<Rightarrow> (closure \<Rightarrow> ('k, 'z) tcp_world_scheme \<Rightarrow> ('k, 'z) tcp_world_scheme res) \<Rightarrow>
    nat \<Rightarrow> string \<Rightarrow> ('k, 'z) tcp_world_scheme \<Rightarrow> ('k, 'z) tcp_world_scheme res" where
  "send tid K run conn message w =
     bindR (deref (conns w) conn) (\<lambda>C.
     if conn_state C = Connected then
       bindR (deref (loops w) (conn_loop C)) (\<lambda>L.
       if isInLoopThread tid L then sendInLoop tid K conn message w
       else runInLoop tid K run (conn_loop C) (SendInLoop conn message) w)
     else Inr w)"

definition shutdownInLoop :: "int \<Rightarrow> 'k sysops \<Rightarrow> nat \<Rightarrow> ('k, 'z) tcp_world_scheme \<Rightarrow>
    ('k, 'z) tcp_world_scheme res" where
  "shutdownInLoop tid K conn w =
     bindR (deref (conns w) conn) (\<lambda>C.
     bindR (assertInLoopThread tid (conn_loop C) w) (\<lambda>_.
     bindR (deref (channels w) (conn_channel C)) (\<lambda>ch.
     if \<not> isWriting ch then
       Inr (w\<lparr>kern := shutdownWrite K (conn_socket C) (kern w)\<rparr>)
     else Inr w)))"

definition shutdown :: "int \<Rightarrow> 'k sysops \<Rightarrow> (closure \<Rightarrow> ('k, 'z) tcp_world_scheme \<Rightarrow> ('k, 'z) tcp_world_scheme res) \<Rightarrow>
    nat \<Rightarrow> ('k, 'z) tcp_world_scheme \<Rightarrow> ('k, 'z) tcp_world_scheme res" where
  "shutdown tid K run conn w =
     bindR (deref (conns w) conn) (\<lambda>C.
     if conn_state C = Connected then
       runInLoop tid K run (conn_loop C) (ShutdownInLoop conn) (put_conn conn (setState Disconnecting C) w)
     else Inr w)"


section \<open>Handlers\<close>

definition establishConnection :: "int \<Rightarrow> ('k, 'z) tcp_world_scheme conn_cbs \<Rightarrow> nat \<Rightarrow>
    ('k, 'z) tcp_world_scheme \<Rightarrow> ('k, 'z) tcp_world_scheme res" where
  "establishConnection tid CB conn w =
     bindR (deref (conns w) conn) (\<lambda>C.
     bindR (assertInLoopThread tid (conn_loop C) w) (\<lambda>_.
     check (conn_state C = Connecting) (AssertFailed ''tcp_connection.cpp:134'')
     (bindR (enableReading tid (conn_channel C) (put_conn conn (setState Connected C) w)) (\<lambda>w1.
      call_member (has_connection_cb C) (connection_cb CB conn) w1))))"

definition handleClose :: "int \<Rightarrow> ('k, 'z) tcp_world_scheme conn_cbs \<Rightarrow> nat \<Rightarrow>
    ('k, 'z) tcp_world_scheme \<Rightarrow> ('k, 'z) tcp_world_scheme res" where
  "handleClose tid CB conn w =
     bindR (deref (conns w) conn) (\<lambda>C.
     bindR (assertInLoopThread tid (conn_loop C) w) (\<lambda>_.
     check (conn_state C = Connected \<or> conn_state C = Disconnecting) (AssertFailed ''tcp_connection.cpp:199'')
     (bindR (disableAllEvents tid (conn_channel C) w) (\<lambda>w1.
      call_member (has_close_cb C) (close_cb CB conn) w1))))"

definition handleError :: "'k sysops \<Rightarrow> nat \<Rightarrow> ('k, 'z) tcp_world_scheme \<Rightarrow>
    ('k, 'z) tcp_world_scheme res" where
  "handleError K conn w =
     bindR (deref (conns w) conn) (\<lambda>C.
     bindR (deref (channels w) (conn_channel C)) (\<lambda>ch.
     let (err, k') = getSocketError K (getFd ch) (kern w) in Inr (w\<lparr>kern := k'\<rparr>)))"

definition handleRead :: "int \<Rightarrow> 'k sysops \<Rightarrow> ('k, 'z) tcp_world_scheme conn_cbs \<Rightarrow> nat \<Rightarrow> int \<Rightarrow>
    ('k, 'z) tcp_world_scheme \<Rightarrow> ('k, 'z) tcp_world_scheme res" where
  "handleRead tid K CB conn recv_time w =
     bindR (deref (conns w) conn) (\<lambda>C.
     bindR (deref (channels w) (conn_channel C)) (\<lambda>ch.
     bindR (readFd (sys_readv K) (getFd ch) (input_buffer C) (kern w)) (\<lambda>((n, saved_errno, inbuf), k').
     let w1 = put_conn conn (C\<lparr>input_buffer := inbuf\<rparr>) (w\<lparr>kern := k'\<rparr>) in
     if n > 0 then call_member (has_message_cb C) (message_cb CB conn recv_time) w1
     else if n = 0 then handleClose tid CB conn w1
     else handleError K conn w1)))"

definition handleWrite :: "int \<Rightarrow> 'k sysops \<Rightarrow> nat \<Rightarrow> ('k, 'z) tcp_world_scheme \<Rightarrow>
    ('k, 'z) tcp_world_scheme res" where
  "handleWrite tid K conn w =
     bindR (deref (conns w) conn) (\<lambda>C.
     bindR (assertInLoopThread tid (conn_loop C) w) (\<lambda>_.
     bindR (deref (channels w) (conn_channel C)) (\<lambda>ch.
     if isWriting ch then
       bindR (read_range (buffer_vec (output_buffer C)) (peek (output_buffer C))
                (readableBytes (output_buffer C))) (\<lambda>data.
       let ((n, errno), k') = sys_write K (getFd ch) data (kern w); w1 = w\<lparr>kern := k'\<rparr> in
       if n > 0 then
         bindR (retrieve (output_buffer C) (nat n)) (\<lambda>outbuf.
         let w2 = put_conn conn (C\<lparr>output_buffer := outbuf\<rparr>) w1 in
         if readableBytes outbuf = 0 then
           bindR (disableWriting tid (conn_channel C) w2) (\<lambda>w3.
           bindR (if has_write_cmpl_cb C
                  then queueInLoop tid K (conn_loop C) (WriteComplete conn) w3 else Inr w3) (\<lambda>w4.
           if conn_state C = Disconnecting then shutdownInLoop tid K conn w4 else Inr w4))
         else Inr w2)
       else Inr w1)
     else Inr w)))"

definition destroyConnection :: "int \<Rightarrow> ('k, 'z) tcp_world_scheme conn_cbs \<Rightarrow> nat \<Rightarrow>
    ('k, 'z) tcp_world_scheme \<Rightarrow> ('k, 'z) tcp_world_scheme res" where
  "destroyConnection tid CB conn w =
     bindR (deref (conns w) conn) (\<lambda>C.
     bindR (assertInLoopThread tid (conn_loop C) w) (\<lambda>_.
     check (conn_state C = Connected \<or> conn_state C = Disconnecting) (AssertFailed ''tcp_connection.cpp:221'')
     (bindR (disableAllEvents tid (conn_channel C) (put_conn conn (setState Disconnected C) w)) (\<lambda>w1.
      bindR (call_member (has_connection_cb C) (connection_cb CB conn) w1) (\<lambda>w2.
      EventLoop_removeChannel tid (conn_loop C) (conn_channel C) w2)))))"


text \<open>Executing a closure taken from the queue of a loop; \<open>listen\<close> stands for \<open>Acceptor::listen\<close>.\<close>

fun run_closure :: "int \<Rightarrow> 'k sysops \<Rightarrow> ('k, 'z) tcp_world_scheme conn_cbs \<Rightarrow>
    (nat \<Rightarrow> ('k, 'z) tcp_world_scheme \<Rightarrow> ('k, 'z) tcp_world_scheme res) \<Rightarrow> closure \<Rightarrow>
    ('k, 'z) tcp_world_scheme \<Rightarrow> ('k, 'z) tcp_world_scheme res" where
  "run_closure tid K CB listen (DestroyConnection conn) w = destroyConnection tid CB conn w"
| "run_closure tid K CB listen (SendInLoop conn message) w = sendInLoop tid K conn message w"
| "run_closure tid K CB listen (ShutdownInLoop conn) w = shutdownInLoop tid K conn w"
| "run_closure tid K CB listen (WriteComplete conn) w = write_cmpl_cb CB conn w"
| "run_closure tid K CB listen (AcceptorListen a) w = listen a w"


section \<open>The state of an open connection\<close>

lemma put_conn_frame [simp]:
  "channels (put_conn conn C w) = channels w"
  "loops (put_conn conn C w) = loops w"
  "kern (put_conn conn C w) = kern w"
  "event_loop_in_thread (put_conn conn C w) = event_loop_in_thread w"
  "conns (put_conn conn C w) = (conns w)(conn \<mapsto> C)"
  by (simp_all add: put_conn_def)

lemma conns_frame [simp]:
  "conns (put_loop l L w) = conns w"
  "conns (put_channel c ch w) = conns w"
  by (simp_all add: put_loop_def put_channel_def)

text \<open>What a loop does besides polling: its thread, its mutex and its queue.\<close>

definition loop_ctl :: "('cb, 'f, 'k, 'z) reactor_scheme \<Rightarrow> nat \<Rightarrow> (int \<times> int option \<times> bool \<times> 'f list) option" where
  "loop_ctl w l = map_option (\<lambda>L. (thread_id L, mutex_holder L, calling_pending_functors L, pending_functors L)) (loops w l)"

definition idle :: "int \<Rightarrow> nat \<Rightarrow> ('cb, 'f, 'k, 'z) reactor_scheme \<Rightarrow> bool" where
  "idle tid l w \<longleftrightarrow> (\<exists>fs. loop_ctl w l = Some (tid, None, False, fs))"

text \<open>The connection and its channel are wired together and registered with the loop's poller.\<close>

definition conn_at :: "('k, 'z) tcp_world_scheme \<Rightarrow> nat \<Rightarrow> tcp_connection \<Rightarrow> chan_cb channel \<Rightarrow> bool" where
  "conn_at w conn C ch \<longleftrightarrow> conns w conn = Some C \<and> channels w (conn_channel C) = Some ch \<and>
     ch_loop ch = conn_loop C \<and> ch_owner_loop ch = Some (conn_loop C) \<and> ch_fd ch = conn_socket C \<and>
     loop_ready w (conn_loop C) \<and> registered (the_poller w (conn_loop C)) (channels w) (conn_channel C)"

text \<open>Write interest is on exactly while bytes are pending.\<close>

definition conn_ok :: "int \<Rightarrow> nat \<Rightarrow> ('k, 'z) tcp_world_scheme \<Rightarrow> tcp_connection \<Rightarrow> bool" where
  "conn_ok tid conn w C \<longleftrightarrow> (\<exists>ch. conn_at w conn C ch \<and> (isWriting ch \<longleftrightarrow> contents (output_buffer C) \<noteq> [])) \<and>
     buf_inv (input_buffer C) \<and> buf_inv (output_buffer C) \<and> idle tid (conn_loop C) w"

lemma conn_okE:
  assumes "conn_ok tid conn w C"
  obtains ch L where "conn_at w conn C ch" and "isWriting ch \<longleftrightarrow> contents (output_buffer C) \<noteq> []"
    and "buf_inv (input_buffer C)" and "buf_inv (output_buffer C)" and "idle tid (conn_loop C) w"
    and "conns w conn = Some C" and "channels w (conn_channel C) = Some ch"
    and "loops w (conn_loop C) = Some L" and "thread_id L = tid" and "mutex_holder L = None"
    and "\<not> calling_pending_functors L" and "getFd ch = conn_socket C"
    and "assertInLoopThread tid (conn_loop C) w = Inr ()"
  using assms
  by (fastforce simp: conn_ok_def conn_at_def idle_def loop_ctl_def assertInLoopThread_def
      isInLoopThread_def getFd_def)

lemma conn_okI:
  assumes "conn_at w conn C ch" and "isWriting ch \<longleftrightarrow> contents (output_buffer C) \<noteq> []"
    and "buf_inv (input_buffer C)" and "buf_inv (output_buffer C)" and "idle tid (conn_loop C) w"
  shows "conn_ok tid conn w C"
  using assms by (auto simp: conn_ok_def)

lemma loop_ctl_frame [simp]:
  "loop_ctl (w\<lparr>kern := k\<rparr>) = loop_ctl w"
  "loop_ctl (put_conn conn C v) = loop_ctl v"
  by (simp_all add: loop_ctl_def fun_eq_iff)

lemma loop_ready_tid: "idle tid l w \<Longrightarrow> loop_tid w l = Some tid"
  by (auto simp: idle_def loop_ctl_def loop_tid_def)

text \<open>Kernel state, other connections and the connection's own buffers do not matter for it.\<close>

lemma conn_at_kern [simp]: "conn_at (w\<lparr>kern := k\<rparr>) conn C ch \<longleftrightarrow> conn_at w conn C ch"
  by (simp add: conn_at_def loop_ready_def the_poller_def)

lemma idle_kern [simp]: "idle tid l (w\<lparr>kern := k\<rparr>) \<longleftrightarrow> idle tid l w"
  by (simp add: idle_def loop_ctl_def)

lemma idle_put_conn [simp]: "idle tid l (put_conn conn C w) \<longleftrightarrow> idle tid l w"
  by (simp add: idle_def loop_ctl_def)

lemma conn_at_put_conn:
  assumes "conn_at w conn C ch" and "conn_loop C' = conn_loop C" and "conn_channel C' = conn_channel C"
    and "conn_socket C' = conn_socket C"
  shows "conn_at (put_conn conn C' w) conn C' ch"
  using assms by (simp add: conn_at_def loop_ready_def the_poller_def)

lemma conn_at_queue:
  assumes "conn_at w conn C ch" and "loops w l = Some L"
  shows "conn_at (put_loop l (L\<lparr>pending_functors := fs\<rparr>) w) conn C ch"
  using assms by (auto simp: conn_at_def loop_ready_def the_poller_def)

lemma idle_queue:
  assumes "idle tid l w" and "loops w l = Some L"
  shows "idle tid l (put_loop l (L\<lparr>pending_functors := fs\<rparr>) w)"
  using assms by (auto simp: idle_def loop_ctl_def)

text \<open>Changing the interest of the connection's channel.\<close>

lemma conn_set_mask:
  assumes at: "conn_at w conn C ch" and idle: "idle tid (conn_loop C) w"
  shows "okR (set_mask f tid (conn_channel C) w) (\<lambda>w'. \<exists>i.
    conn_at w' conn C (ch\<lparr>ch_events := f (ch_events ch), ch_index := i\<rparr>) \<and>
    channels w' = (channels w)(conn_channel C \<mapsto> ch\<lparr>ch_events := f (ch_events ch), ch_index := i\<rparr>) \<and>
    interest (the_poller w' (conn_loop C)) (channels w') =
      (interest (the_poller w (conn_loop C)) (channels w))(conn_socket C \<mapsto> ucast (f (ch_events ch))) \<and>
    kern w' = kern w \<and> conns w' = conns w \<and> loop_ctl w' = loop_ctl w \<and> tcp_world.more w' = tcp_world.more w)"
proof -
  have pre: "channels w (conn_channel C) = Some ch" "ch_loop ch = conn_loop C"
    "ch_owner_loop ch = Some (conn_loop C)" "ch_fd ch = conn_socket C" "conns w conn = Some C"
    "loop_ready w (conn_loop C)" "registered (the_poller w (conn_loop C)) (channels w) (conn_channel C)"
    using at by (simp_all add: conn_at_def)
  obtain w' L p' i where eq: "set_mask f tid (conn_channel C) w = Inr w'"
    and L: "loops w (conn_loop C) = Some L"
    and w': "w' = put_loop (conn_loop C) (L\<lparr>loop_poller := Some p'\<rparr>) (w\<lparr>channels :=
      (channels w)(conn_channel C \<mapsto> ch\<lparr>ch_events := f (ch_events ch), ch_index := i\<rparr>)\<rparr>)"
    and post: "loop_ready w' (conn_loop C)" "the_poller w' (conn_loop C) = p'"
      "registered p' (channels w') (conn_channel C)"
      "interest p' (channels w') =
        (interest (the_poller w (conn_loop C)) (channels w))(conn_socket C \<mapsto> ucast (f (ch_events ch)))"
    using set_mask_ok[OF pre(6) loop_ready_tid[OF idle] pre(1,2,3) disjI1[OF pre(7)], of f]
    unfolding okR_iff_ex pre(4) by blast
  have "channels w' = (channels w)(conn_channel C \<mapsto> ch\<lparr>ch_events := f (ch_events ch), ch_index := i\<rparr>)"
    and "kern w' = kern w" and "conns w' = conns w" and "loop_ctl w' = loop_ctl w"
    and "tcp_world.more w' = tcp_world.more w"
    using L by (auto simp: w' loop_ctl_def fun_eq_iff put_loop_def)
  then show ?thesis
    unfolding eq using post pre by (auto simp: conn_at_def)
qed


section \<open>Sending keeps the stream\<close>

definition queue_of :: "('cb, 'f, 'k, 'z) reactor_scheme \<Rightarrow> nat \<Rightarrow> 'f list" where
  "queue_of w l = (case loops w l of None \<Rightarrow> [] | Some L \<Rightarrow> pending_functors L)"

lemma queue_of_frame [simp]:
  "queue_of (w\<lparr>kern := k\<rparr>) l = queue_of w l"
  "queue_of (put_conn conn C w) l = queue_of w l"
  "queue_of (put_loop l L v) l = pending_functors L"
  by (simp_all add: queue_of_def)

lemma queue_of_ctl: "loop_ctl w' = loop_ctl w \<Longrightarrow> queue_of w' l = queue_of w l"
  by (drule fun_cong[of _ _ l]) (auto simp: loop_ctl_def queue_of_def split: option.splits)

lemma idle_ctl: "loop_ctl w' = loop_ctl w \<Longrightarrow> idle tid l w' \<longleftrightarrow> idle tid l w"
  by (simp add: idle_def)

lemma isWriting_set [simp]:
  "isWriting (ch\<lparr>ch_events := ev OR WriteEvent, ch_index := i\<rparr>)"
  "\<not> isWriting (ch\<lparr>ch_events := ev AND NOT WriteEvent, ch_index := i\<rparr>)"
  by (simp_all add: isWriting_def has_or has_and_not has_const)

lemma readable_zero: "buf_inv b \<Longrightarrow> readableBytes b = 0 \<longleftrightarrow> contents b = []"
  using buf_inv_sizes(3)[of b] by auto

lemma conn_mask_ok:
  assumes at: "conn_at w conn C ch" and idle: "idle tid (conn_loop C) w"
    and bufs: "buf_inv (input_buffer C)" "buf_inv (output_buffer C)"
    and wr: "\<And>i. isWriting (ch\<lparr>ch_events := f (ch_events ch), ch_index := i\<rparr>) \<longleftrightarrow> contents (output_buffer C) \<noteq> []"
  shows "okR (set_mask f tid (conn_channel C) w) (\<lambda>w'. conn_ok tid conn w' C \<and>
    kern w' = kern w \<and> loop_ctl w' = loop_ctl w \<and> conns w' = conns w)"
proof -
  obtain w' i where eq: "set_mask f tid (conn_channel C) w = Inr w'"
    and at': "conn_at w' conn C (ch\<lparr>ch_events := f (ch_events ch), ch_index := i\<rparr>)"
    and rest: "kern w' = kern w" "loop_ctl w' = loop_ctl w" "conns w' = conns w"
    using conn_set_mask[OF at idle, of f] unfolding okR_iff_ex by blast
  have "conn_ok tid conn w' C"
    using at' wr bufs idle by (intro conn_okI) (auto simp: idle_ctl[OF rest(2)])
  then show ?thesis using eq rest by simp
qed

text \<open>The bytes not written at once go behind the pending ones, and write interest is on.\<close>

lemma append_pending:
  assumes ok: "conn_ok tid conn w C" and ch: "channels w (conn_channel C) = Some ch"
    and room: "buf_room (output_buffer C) (length data)" and data: "data \<noteq> []"
  shows "okR (bindR (Buffer_append (output_buffer C) data) (\<lambda>outbuf.
      let w4 = put_conn conn (C\<lparr>output_buffer := outbuf\<rparr>) w in
      if \<not> isWriting ch then enableWriting tid (conn_channel C) w4 else Inr w4)) (\<lambda>w'. \<exists>out'.
    conn_ok tid conn w' (C\<lparr>output_buffer := out'\<rparr>) \<and> contents out' = contents (output_buffer C) @ data \<and>
    writer_idx out' \<le> writer_idx (output_buffer C) + length data \<and>
    kern w' = kern w \<and> loop_ctl w' = loop_ctl w)"
proof -
  have at: "conn_at w conn C ch" and wr: "isWriting ch \<longleftrightarrow> contents (output_buffer C) \<noteq> []"
    and bi: "buf_inv (input_buffer C)" and bo: "buf_inv (output_buffer C)" and idle: "idle tid (conn_loop C) w"
    using ok ch by (auto elim!: conn_okE)
  obtain out' where out': "Buffer_append (output_buffer C) data = Inr out'" "buf_inv out'"
    "contents out' = contents (output_buffer C) @ data" "writer_idx out' \<le> writer_idx (output_buffer C) + length data"
    using Buffer_append_ok[OF bo room] by (auto elim: okR_obtain)
  let ?C = "C\<lparr>output_buffer := out'\<rparr>"
  let ?w = "put_conn conn ?C w"
  have at': "conn_at ?w conn ?C ch" using at by (rule conn_at_put_conn) simp_all
  have idle': "idle tid (conn_loop ?C) ?w" using idle by simp
  show ?thesis
  proof (cases "isWriting ch")
    case True
    then have "conn_ok tid conn ?w ?C" using out' at' idle' bi data by (intro conn_okI[of _ _ _ ch]) simp_all
    then show ?thesis using out' True by auto
  next
    case False
    have "okR (enableWriting tid (conn_channel ?C) ?w) (\<lambda>w'. conn_ok tid conn w' ?C \<and>
        kern w' = kern ?w \<and> loop_ctl w' = loop_ctl ?w)"
      unfolding mask_ops
      by (rule okR_mono[OF conn_mask_ok[OF at' idle']]) (use bi out' data in auto)
    then show ?thesis using False out' by (auto elim!: okR_mono)
  qed
qed

text \<open>The kernel state and the queue do not matter for an open connection.\<close>

lemma conn_ok_kern [simp]: "conn_ok tid conn (w\<lparr>kern := k\<rparr>) C \<longleftrightarrow> conn_ok tid conn w C"
  by (simp add: conn_ok_def)

lemma conn_queue:
  assumes "conn_ok tid conn w C"
  shows "okR (queueInLoop tid K (conn_loop C) f w) (\<lambda>w'. conn_ok tid conn w' C \<and> kern w' = kern w \<and>
    channels w' = channels w \<and> conns w' = conns w \<and> queue_of w' (conn_loop C) = queue_of w (conn_loop C) @ [f])"
proof -
  obtain ch L where ch: "conn_at w conn C ch" "isWriting ch \<longleftrightarrow> contents (output_buffer C) \<noteq> []"
    "buf_inv (input_buffer C)" "buf_inv (output_buffer C)" "idle tid (conn_loop C) w"
    and L: "loops w (conn_loop C) = Some L" "thread_id L = tid" "mutex_holder L = None"
      "\<not> calling_pending_functors L"
    using assms by (rule conn_okE)
  let ?w = "put_loop (conn_loop C) (L\<lparr>pending_functors := pending_functors L @ [f]\<rparr>) w"
  have "conn_ok tid conn ?w C"
    using conn_at_queue[OF ch(1) L(1)] ch(2-4) idle_queue[OF ch(5) L(1)] by (rule conn_okI)
  then show ?thesis
    using queueInLoop_quiet[of w "conn_loop C" L tid K f] L
    by (simp add: isInLoopThread_def queue_of_def[of w])
qed

definition stream :: "('k \<Rightarrow> int \<Rightarrow> byte list) \<Rightarrow> ('k, 'z) tcp_world_scheme \<Rightarrow> tcp_connection \<Rightarrow> byte list" where
  "stream sent w C = sent (kern w) (conn_socket C) @ contents (output_buffer C)"

text \<open>
  \<open>message\<close> is accepted: it stands behind everything accepted earlier, in the socket's stream or
  in the output buffer; other sockets are untouched; the write-complete callback is queued exactly
  when the whole message went out at once.
\<close>

definition accepted :: "('k \<Rightarrow> int \<Rightarrow> byte list) \<Rightarrow> 'k sysops \<Rightarrow> int \<Rightarrow> nat \<Rightarrow> string \<Rightarrow> ('k, 'z) tcp_world_scheme \<Rightarrow>
    tcp_connection \<Rightarrow> ('k, 'z) tcp_world_scheme \<Rightarrow> bool" where
  "accepted sent K tid conn message w C w' \<longleftrightarrow> (\<exists>out'.
     conn_ok tid conn w' (C\<lparr>output_buffer := out'\<rparr>) \<and>
     stream sent w' (C\<lparr>output_buffer := out'\<rparr>) = stream sent w C @ message \<and>
     (\<forall>fd. fd \<noteq> conn_socket C \<longrightarrow> sent (kern w') fd = sent (kern w) fd) \<and>
     kern w' = (if contents (output_buffer C) = [] then snd (sys_write K (conn_socket C) message (kern w))
                else kern w) \<and>
     writer_idx out' \<le> writer_idx (output_buffer C) + length message \<and>
     (message \<noteq> [] \<longrightarrow> queue_of w' (conn_loop C) = queue_of w (conn_loop C) @
        (if has_write_cmpl_cb C \<and> contents (output_buffer C) = [] \<and> contents out' = []
         then [WriteComplete conn] else [])))"

text \<open>The part of \<open>sendInLoop\<close> after the immediate write took \<open>m\<close> bytes.\<close>

definition send_rest :: "int \<Rightarrow> nat \<Rightarrow> tcp_connection \<Rightarrow> chan_cb channel \<Rightarrow> string \<Rightarrow> nat \<Rightarrow>
    ('k, 'z) tcp_world_scheme \<Rightarrow> ('k, 'z) tcp_world_scheme res" where
  "send_rest tid conn C ch message m w = (if m < length message then
     bindR (Buffer_append (output_buffer C) (drop m message)) (\<lambda>outbuf.
     let w4 = put_conn conn (C\<lparr>output_buffer := outbuf\<rparr>) w in
     if \<not> isWriting ch then enableWriting tid (conn_channel C) w4 else Inr w4) else Inr w)"

lemma send_rest_ok:
  assumes ok: "conn_ok tid conn w C" and ch: "channels w (conn_channel C) = Some ch"
    and room: "buf_room (output_buffer C) (length message)" and m: "m \<le> length message"
  shows "okR (send_rest tid conn C ch message m w) (\<lambda>w'. \<exists>out'.
    conn_ok tid conn w' (C\<lparr>output_buffer := out'\<rparr>) \<and> contents out' = contents (output_buffer C) @ drop m message \<and>
    writer_idx out' \<le> writer_idx (output_buffer C) + length message \<and>
    kern w' = kern w \<and> queue_of w' (conn_loop C) = queue_of w (conn_loop C))"
proof (cases "m < length message")
  case True
  then have "buf_room (output_buffer C) (length (drop m message))" "drop m message \<noteq> []"
    using room by (simp_all add: buf_room_def)
  from append_pending[OF ok ch this] show ?thesis
    unfolding send_rest_def if_P[OF True] by (auto elim!: okR_mono intro: queue_of_ctl)
next
  case False
  then show ?thesis using ok m by (auto simp: send_rest_def intro!: exI[of _ "output_buffer C"])
qed

lemma sendInLoop_behind:
  assumes ok: "conn_ok tid conn w C" and room: "buf_room (output_buffer C) (length message)"
    and pend: "contents (output_buffer C) \<noteq> []"
  shows "okR (sendInLoop tid K conn message w) (accepted sent K tid conn message w C)"
proof -
  obtain ch L where ch: "channels w (conn_channel C) = Some ch" "isWriting ch" and c: "conns w conn = Some C"
    and t: "assertInLoopThread tid (conn_loop C) w = Inr ()"
    using ok pend by (auto elim: conn_okE)
  then have "sendInLoop tid K conn message w = send_rest tid conn C ch message 0 w"
    by (simp add: sendInLoop_def send_rest_def)
  moreover have "okR (send_rest tid conn C ch message 0 w) (accepted sent K tid conn message w C)"
    by (rule okR_mono[OF send_rest_ok[OF ok ch(1) room]]) (use pend in \<open>auto simp: accepted_def stream_def\<close>)
  ultimately show ?thesis by simp
qed

text \<open>With nothing pending, the message is written at once as far as the socket takes it.\<close>

lemma sendInLoop_immediate:
  assumes ok: "conn_ok tid conn w C" and none: "contents (output_buffer C) = []"
    and ch: "channels w (conn_channel C) = Some ch"
    and sys: "sys_write K (conn_socket C) message (kern w) = ((n, e), k')"
  shows "sendInLoop tid K conn message w =
    (if n \<ge> 0 \<and> length message \<le> nat n \<and> has_write_cmpl_cb C
     then queueInLoop tid K (conn_loop C) (WriteComplete conn) (w\<lparr>kern := k'\<rparr>)
     else send_rest tid conn C ch message (nat n) (w\<lparr>kern := k'\<rparr>))"
proof -
  have "\<not> isWriting ch" "readableBytes (output_buffer C) = 0" "getFd ch = conn_socket C"
    "conns w conn = Some C" "assertInLoopThread tid (conn_loop C) w = Inr ()"
    using ok none ch readable_zero[of "output_buffer C"] by (auto elim!: conn_okE)
  then show ?thesis
    using ch sys
    by (cases "queueInLoop tid K (conn_loop C) (WriteComplete conn) (w\<lparr>kern := k'\<rparr>)")
      (auto simp: sendInLoop_def send_rest_def Let_def)
qed

lemma sendInLoop_ok:
  assumes K: "write_ok K sent" and ok: "conn_ok tid conn w C"
    and room: "buf_room (output_buffer C) (length message)"
  shows "okR (sendInLoop tid K conn message w) (accepted sent K tid conn message w C)"
proof (cases "contents (output_buffer C) = []")
  case False
  with ok room show ?thesis by (rule sendInLoop_behind)
next
  case none: True
  obtain ch L where ch: "channels w (conn_channel C) = Some ch" using ok by (rule conn_okE)
  obtain n e k' where sys: "sys_write K (conn_socket C) message (kern w) = ((n, e), k')"
    by (metis surj_pair)
  let ?w = "w\<lparr>kern := k'\<rparr>"
  note eq = sendInLoop_immediate[OF ok none ch sys]
  have sent: "sent k' = (sent (kern w))(conn_socket C := sent (kern w) (conn_socket C) @ take (nat n) message)"
    and le: "nat n \<le> length message"
    using write_okD[OF K sys] by auto
  show ?thesis
  proof (cases "n \<ge> 0 \<and> length message \<le> nat n \<and> has_write_cmpl_cb C")
    case True
    have "okR (queueInLoop tid K (conn_loop C) (WriteComplete conn) ?w) (accepted sent K tid conn message w C)"
      by (rule okR_mono[OF conn_queue, of _ conn ?w])
        (use ok True none sent sys in \<open>auto simp: accepted_def stream_def intro!: exI[of _ "output_buffer C"]\<close>)
    then show ?thesis unfolding eq if_P[OF True] .
  next
    case False
    have whole: "message \<noteq> [] \<Longrightarrow> drop (nat n) message = [] \<Longrightarrow> \<not> has_write_cmpl_cb C"
      using False le by auto
    have "okR (send_rest tid conn C ch message (nat n) ?w) (accepted sent K tid conn message w C)"
      by (rule okR_mono[OF send_rest_ok[OF _ _ room le]])
        (use ok ch none sent sys whole in \<open>auto simp: accepted_def stream_def\<close>)
    then show ?thesis unfolding eq if_not_P[OF False] .
  qed
qed


section \<open>Draining the output buffer\<close>

text \<open>The data a writable event offers to the socket.\<close>

lemma pending_range:
  "buf_inv b \<Longrightarrow> read_range (buffer_vec b) (peek b) (readableBytes b) = Inr (contents b)"
  by (auto simp: read_range_def peek_def buf_inv_sizes contents_def check_def) (auto simp: buf_inv_def)

lemma shutdownInLoop_eq:
  assumes "conn_ok tid conn w C"
  shows "shutdownInLoop tid K conn w = Inr (if contents (output_buffer C) = []
    then w\<lparr>kern := snd (sys_shutdown_wr K (conn_socket C) (kern w))\<rparr> else w)"
  using assms by (auto elim!: conn_okE simp: shutdownInLoop_def socket_shutdown)

text \<open>What is left of \<open>handleWrite\<close> once the output buffer is empty.\<close>

definition drained :: "int \<Rightarrow> 'k sysops \<Rightarrow> nat \<Rightarrow> tcp_connection \<Rightarrow> ('k, 'z) tcp_world_scheme \<Rightarrow>
    ('k, 'z) tcp_world_scheme res" where
  "drained tid K conn C w =
     bindR (disableWriting tid (conn_channel C) w) (\<lambda>w3.
     bindR (if has_write_cmpl_cb C
            then queueInLoop tid K (conn_loop C) (WriteComplete conn) w3 else Inr w3) (\<lambda>w4.
     if conn_state C = Disconnecting then shutdownInLoop tid K conn w4 else Inr w4))"

lemma drained_ok:
  assumes at: "conn_at w conn C ch" and idle: "idle tid (conn_loop C) w"
    and bufs: "buf_inv (input_buffer C)" "buf_inv (output_buffer C)" and none: "contents (output_buffer C) = []"
  shows "okR (drained tid K conn C w) (\<lambda>w'. conn_ok tid conn w' C \<and>
    kern w' = (if conn_state C = Disconnecting then snd (sys_shutdown_wr K (conn_socket C) (kern w)) else kern w) \<and>
    queue_of w' (conn_loop C) = queue_of w (conn_loop C) @ (if has_write_cmpl_cb C then [WriteComplete conn] else []))"
proof -
  obtain w3 where w3: "disableWriting tid (conn_channel C) w = Inr w3" "conn_ok tid conn w3 C"
    "kern w3 = kern w" "loop_ctl w3 = loop_ctl w"
    using conn_mask_ok[OF at idle bufs, of "\<lambda>ev. ev AND NOT WriteEvent"] none
    unfolding mask_ops okR_iff_ex by auto
  obtain w4 where w4: "(if has_write_cmpl_cb C then queueInLoop tid K (conn_loop C) (WriteComplete conn) w3
      else Inr w3) = Inr w4" "conn_ok tid conn w4 C" "kern w4 = kern w"
    "queue_of w4 (conn_loop C) = queue_of w (conn_loop C) @ (if has_write_cmpl_cb C then [WriteComplete conn] else [])"
    using conn_queue[OF w3(2), of K "WriteComplete conn"] w3 queue_of_ctl[OF w3(4)]
    unfolding okR_iff_ex by (cases "has_write_cmpl_cb C") auto
  show ?thesis
    using w3 w4 none by (simp add: drained_def shutdownInLoop_eq)
qed

text \<open>
  A writable event: some pending bytes go to the socket in order; when the last one is gone, write
  interest is dropped, the write-complete callback is queued and a pending half-close happens.
\<close>

definition flushed :: "('k \<Rightarrow> int \<Rightarrow> byte list) \<Rightarrow> 'k sysops \<Rightarrow> int \<Rightarrow> nat \<Rightarrow> ('k, 'z) tcp_world_scheme \<Rightarrow>
    tcp_connection \<Rightarrow> ('k, 'z) tcp_world_scheme \<Rightarrow> bool" where
  "flushed sent K tid conn w C w' \<longleftrightarrow> (\<exists>out'.
     let pend = contents (output_buffer C); ((n, e), k') = sys_write K (conn_socket C) pend (kern w);
         last_byte = (pend \<noteq> [] \<and> n > 0 \<and> contents out' = []) in
     conn_ok tid conn w' (C\<lparr>output_buffer := out'\<rparr>) \<and>
     contents out' = drop (nat n) pend \<and>
     writer_idx out' = writer_idx (output_buffer C) \<and>
     stream sent w' (C\<lparr>output_buffer := out'\<rparr>) = stream sent w C \<and>
     kern w' = (if last_byte \<and> conn_state C = Disconnecting then snd (sys_shutdown_wr K (conn_socket C) k')
                else if pend \<noteq> [] then k' else kern w) \<and>
     queue_of w' (conn_loop C) = queue_of w (conn_loop C) @
       (if last_byte \<and> has_write_cmpl_cb C then [WriteComplete conn] else []))"


lemma handleWrite_eq:
  assumes ok: "conn_ok tid conn w C" and pend: "contents (output_buffer C) \<noteq> []"
    and sys: "sys_write K (conn_socket C) (contents (output_buffer C)) (kern w) = ((n, e), k')"
  shows "handleWrite tid K conn w =
    (if n > 0 then bindR (retrieve (output_buffer C) (nat n)) (\<lambda>outbuf.
       let C' = C\<lparr>output_buffer := outbuf\<rparr>; w2 = put_conn conn C' (w\<lparr>kern := k'\<rparr>) in
       if readableBytes outbuf = 0 then drained tid K conn C' w2 else Inr w2)
     else Inr (w\<lparr>kern := k'\<rparr>))"
proof -
  obtain ch L where "channels w (conn_channel C) = Some ch" "isWriting ch" "conns w conn = Some C"
    "assertInLoopThread tid (conn_loop C) w = Inr ()" "getFd ch = conn_socket C" "buf_inv (output_buffer C)"
    using ok pend by (auto elim: conn_okE)
  then show ?thesis
    using sys by (simp add: handleWrite_def pending_range drained_def Let_def cong: if_cong)
qed

lemma handleWrite_ok:
  assumes K: "write_ok K sent" and silent: "others_silent K sent" and ok: "conn_ok tid conn w C"
  shows "okR (handleWrite tid K conn w) (flushed sent K tid conn w C)"
proof (cases "contents (output_buffer C) = []")
  case True
  then have "handleWrite tid K conn w = Inr w"
    using ok by (auto elim!: conn_okE simp: handleWrite_def)
  with True ok show ?thesis
    by (auto simp: flushed_def Let_def intro!: exI[of _ "output_buffer C"] split: prod.splits)
next
  case pend: False
  let ?out = "output_buffer C"
  obtain n e k' where sys: "sys_write K (conn_socket C) (contents ?out) (kern w) = ((n, e), k')"
    by (metis surj_pair)
  note eq = handleWrite_eq[OF ok pend sys]
  obtain ch where at: "conn_at w conn C ch" "isWriting ch" and bi: "buf_inv (input_buffer C)"
    and bo: "buf_inv ?out" and idle: "idle tid (conn_loop C) w"
    using ok pend by (auto elim: conn_okE)
  have sent: "sent k' (conn_socket C) = sent (kern w) (conn_socket C) @ take (nat n) (contents ?out)"
    and le: "nat n \<le> readableBytes ?out"
    using write_okD[OF K sys] buf_inv_sizes(3)[OF bo] by auto
  show ?thesis
  proof (cases "n > 0")
    case False
    have "conn_ok tid conn (w\<lparr>kern := k'\<rparr>) (C\<lparr>output_buffer := ?out\<rparr>)" using ok by simp
    then show ?thesis using False sent sys pend unfolding eq flushed_def
      by (auto simp: stream_def intro!: exI[of _ ?out])
  next
    case True
    obtain b where b: "retrieve ?out (nat n) = Inr b" "buf_inv b" "contents b = drop (nat n) (contents ?out)"
      "writer_idx b = writer_idx ?out"
      using retrieve_ok[OF bo le] by (auto simp: okR_iff_ex)
    let ?C = "C\<lparr>output_buffer := b\<rparr>" and ?w = "w\<lparr>kern := k'\<rparr>"
    let ?w2 = "put_conn conn ?C ?w"
    have at2: "conn_at ?w2 conn ?C ch" using at(1) by (intro conn_at_put_conn[of _ _ C]) simp_all
    have idle2: "idle tid (conn_loop ?C) ?w2" using idle by simp
    have "okR (if contents b = [] then drained tid K conn ?C ?w2 else Inr ?w2) (\<lambda>w'. conn_ok tid conn w' ?C \<and>
      kern w' = (if contents b = [] \<and> conn_state C = Disconnecting then snd (sys_shutdown_wr K (conn_socket C) k') else k') \<and>
      queue_of w' (conn_loop C) = queue_of w (conn_loop C) @ (if contents b = [] \<and> has_write_cmpl_cb C then [WriteComplete conn] else []))"
      using drained_ok[OF at2 idle2, of K] conn_okI[OF at2 _ _ _ idle2] bi b(2) at(2)
      by (auto elim!: okR_mono)
    then have "okR (if contents b = [] then drained tid K conn ?C ?w2 else Inr ?w2) (flushed sent K tid conn w C)"
      by (rule okR_mono) (use sys pend True b sent silent in
        \<open>auto simp: flushed_def stream_def others_silent_def intro!: exI[of _ b]\<close>)
    then show ?thesis
      unfolding eq using True b readable_zero[OF b(2)] by (simp add: Let_def)
  qed
qed


section \<open>A concrete connection\<close>

text \<open>
  One loop in thread 1 with one open connection on descriptor 7, on the simulated kernel. The
  theorems about connections are applied to it.
\<close>

definition demo_channel :: "chan_cb channel" where
  "demo_channel = \<lparr>ch_loop = 0, ch_fd = 7, ch_events = ReadEvent, ch_revents = 0, ch_index = 0,
     ch_owner_loop = Some 0, ch_events_handling = False, ch_read_cb = Some (ConnHandleRead 3),
     ch_write_cb = Some (ConnHandleWrite 3), ch_error_cb = Some (ConnHandleError 3),
     ch_close_cb = Some (ConnHandleClose 3)\<rparr>"

definition demo_poller :: poller where
  "demo_poller = \<lparr>poll_fds = [\<lparr>pfd_fd = 7, pfd_events = ucast ReadEvent, pfd_revents = 0\<rparr>], channel_map = [7 \<mapsto> 2]\<rparr>"

definition demo_loop :: "closure event_loop" where
  "demo_loop = \<lparr>looping = True, quit_flag = False, calling_pending_functors = False, thread_id = 1,
     poll_return_time = 0, loop_poller = Some demo_poller, wakeup_fd = Some 4, wakeup_channel = None,
     active_channels = [], mutex_holder = None, pending_functors = []\<rparr>"

definition demo_conn :: tcp_connection where
  "demo_conn = \<lparr>conn_loop = 0, conn_name = ''0.0.0.0:2007#1'', conn_state = Connected, conn_socket = 7,
     conn_channel = 2, conn_local_addr = InetAddress_port 2007, conn_peer_addr = InetAddress_port 5000,
     has_connection_cb = True, has_write_cmpl_cb = False, has_message_cb = True, has_close_cb = True,
     input_buffer = demo_buffer, output_buffer = demo_buffer\<rparr>"

definition demo_world :: "sim tcp_world" where
  "demo_world = \<lparr>channels = [2 \<mapsto> demo_channel], loops = [0 \<mapsto> demo_loop],
     event_loop_in_thread = [1 \<mapsto> 0], kern = sim_init, conns = [3 \<mapsto> demo_conn]\<rparr>"

lemma demo_table: "table_inv (demo_poller, [2 \<mapsto> demo_channel])"
  by (auto simp: table_inv_def poller_inv_def events_synced_def at_slot_def demo_poller_def demo_channel_def
      split: if_splits)

lemma demo_at:
  assumes "channels w = [2 \<mapsto> demo_channel]" and "loops w = [0 \<mapsto> demo_loop]" and "conns w = [3 \<mapsto> demo_conn]"
  shows "conn_at w 3 demo_conn demo_channel"
proof -
  have "loop_ready w 0" using demo_table by (simp add: loop_ready_def assms demo_loop_def)
  moreover have "registered (the_poller w 0) (channels w) 2"
    by (simp add: registered_def the_poller_def assms demo_loop_def demo_poller_def demo_channel_def)
  ultimately show ?thesis
    by (simp add: conn_at_def assms demo_conn_def) (simp add: demo_channel_def)
qed

lemma demo_idle: "loops w = [0 \<mapsto> demo_loop] \<Longrightarrow> idle 1 0 w"
  by (simp add: idle_def loop_ctl_def demo_loop_def)

lemma demo_ok:
  assumes "channels w = [2 \<mapsto> demo_channel]" and "loops w = [0 \<mapsto> demo_loop]" and "conns w = [3 \<mapsto> demo_conn]"
  shows "conn_ok 1 3 w demo_conn"
  using demo_at[OF assms] demo_idle[OF assms(2)]
  by (intro conn_okI) (auto simp: demo_conn_def demo_channel_def isWriting_def has_const)

lemma demo_world_ok: "conn_ok 1 3 demo_world demo_conn"
  by (rule demo_ok) (simp_all add: demo_world_def)


section \<open>Properties\<close>





end
