(* ===== verification/TcpOutput.thy ===== *)
theory TcpOutput
  imports TcpConnection
begin

text \<open>
  The output side of a connection as a whole: any sequence of \<open>send\<close>, writable events and
  \<open>shutdown\<close> in the loop's thread. The locale \<open>half_close\<close> is the contract of an output side that
  buffers what the socket does not take and closes its write side after the last byte;
  \<open>half_close_live\<close> adds progress. Both are interpreted on \<open>send\<close>, \<open>handleWrite\<close> and
  \<open>shutdown\<close> of \<open>src/src/tcp_connection.cpp\<close>, for every kernel with the documented behaviour.
\<close>

section \<open>The contract\<close>

datatype out_act = ASend string | AWritable | AShutdown

fun out_step :: "(string \<Rightarrow> 's \<Rightarrow> 's res) \<Rightarrow> ('s \<Rightarrow> 's res) \<Rightarrow> ('s \<Rightarrow> 's res) \<Rightarrow> out_act \<Rightarrow> 's \<Rightarrow> 's res" where
  "out_step snd_op wr_op shut_op (ASend m) = snd_op m"
| "out_step snd_op wr_op shut_op AWritable = wr_op"
| "out_step snd_op wr_op shut_op AShutdown = shut_op"

text \<open>What is accepted: the messages sent before the first shutdown.\<close>

fun accepted_msgs :: "out_act list \<Rightarrow> string" where
  "accepted_msgs [] = []"
| "accepted_msgs (ASend m # as) = m @ accepted_msgs as"
| "accepted_msgs (AWritable # as) = accepted_msgs as"
| "accepted_msgs (AShutdown # as) = []"

fun offered :: "out_act list \<Rightarrow> nat" where
  "offered [] = 0"
| "offered (ASend m # as) = length m + offered as"
| "offered (a # as) = offered as"

text \<open>
  \<open>ok s r\<close>: the state is consistent and has room for \<open>r\<close> more bytes; \<open>strm s\<close>: all bytes accepted
  so far; \<open>snt s\<close>: those the socket took; \<open>closing s\<close>: shutdown was requested; \<open>shut s\<close>: the write
  side of the socket is closed.
\<close>

locale half_close =
  fixes ok :: "'s \<Rightarrow> nat \<Rightarrow> bool" and strm snt :: "'s \<Rightarrow> string" and closing shut :: "'s \<Rightarrow> bool"
    and snd_op :: "string \<Rightarrow> 's \<Rightarrow> 's res" and wr_op shut_op :: "'s \<Rightarrow> 's res"
  assumes send_open: "ok s (length m + r) \<Longrightarrow> \<not> closing s \<Longrightarrow>
      okR (snd_op m s) (\<lambda>s'. ok s' r \<and> strm s' = strm s @ m \<and> \<not> closing s' \<and> shut s' = shut s)"
    and send_closing: "ok s r \<Longrightarrow> closing s \<Longrightarrow> snd_op m s = Inr s"
    and writable: "ok s r \<Longrightarrow> okR (wr_op s) (\<lambda>s'. ok s' r \<and> strm s' = strm s \<and> closing s' = closing s \<and>
      (shut s' \<longrightarrow> shut s \<or> closing s \<and> snt s' = strm s'))"
    and writable_done: "ok s r \<Longrightarrow> snt s = strm s \<Longrightarrow> wr_op s = Inr s"
    and shutdown_open: "ok s r \<Longrightarrow> \<not> closing s \<Longrightarrow>
      okR (shut_op s) (\<lambda>s'. ok s' r \<and> strm s' = strm s \<and> closing s' \<and> (shut s' \<longrightarrow> shut s \<or> snt s' = strm s'))"
    and shutdown_closing: "ok s r \<Longrightarrow> closing s \<Longrightarrow> shut_op s = Inr s"
    and ok_mono: "ok s r \<Longrightarrow> q \<le> r \<Longrightarrow> ok s q"
begin

definition run :: "out_act list \<Rightarrow> 's \<Rightarrow> 's res" where
  "run as s = foldR (out_step snd_op wr_op shut_op) as s"

text \<open>The write side is closed only after shutdown was requested and every byte is out.\<close>

definition orderly :: "'s \<Rightarrow> bool" where
  "orderly s \<longleftrightarrow> (shut s \<longrightarrow> closing s \<and> snt s = strm s)"

lemma writable_orderly:
  assumes "ok s r" and "orderly s"
  shows "okR (wr_op s) (\<lambda>s'. ok s' r \<and> orderly s' \<and> strm s' = strm s \<and> closing s' = closing s)"
proof (cases "snt s = strm s")
  case True
  then show ?thesis using assms writable_done by simp
next
  case False
  then have "\<not> shut s" using assms by (auto simp: orderly_def)
  then show ?thesis by (intro okR_mono[OF writable[OF assms(1)]]) (auto simp: orderly_def)
qed

lemma shutdown_orderly:
  assumes "ok s r" and "orderly s"
  shows "okR (shut_op s) (\<lambda>s'. ok s' r \<and> orderly s' \<and> strm s' = strm s \<and> closing s')"
proof (cases "closing s")
  case True
  then show ?thesis using assms shutdown_closing by simp
next
  case False
  then have "\<not> shut s" using assms by (auto simp: orderly_def)
  then show ?thesis by (intro okR_mono[OF shutdown_open[OF assms(1) False]]) (auto simp: orderly_def)
qed

lemma send_orderly:
  assumes "ok s (length m + r)" and "orderly s"
  shows "okR (snd_op m s) (\<lambda>s'. ok s' r \<and> orderly s' \<and> closing s' = closing s \<and>
    strm s' = (if closing s then strm s else strm s @ m))"
proof (cases "closing s")
  case True
  then show ?thesis using assms send_closing ok_mono[OF assms(1), of r] by simp
next
  case False
  then have "\<not> shut s" using assms by (auto simp: orderly_def)
  then show ?thesis using False by (intro okR_mono[OF send_open[OF assms(1) False]]) (auto simp: orderly_def)
qed

lemma step_orderly:
  assumes "ok s (offered (a # as) + r)" and "orderly s"
  shows "okR (out_step snd_op wr_op shut_op a s) (\<lambda>s'. ok s' (offered as + r) \<and> orderly s' \<and>
    closing s' = (closing s \<or> a = AShutdown) \<and>
    strm s' = strm s @ (if closing s then [] else accepted_msgs [a]))"
proof (cases a)
  case (ASend m)
  then have "ok s (length m + (offered as + r))" using assms by (simp add: add.assoc)
  from send_orderly[OF this assms(2)] show ?thesis unfolding ASend by (auto elim!: okR_mono)
next
  case AWritable
  then have "ok s (offered as + r)" using assms by simp
  from writable_orderly[OF this assms(2)] show ?thesis unfolding AWritable by (auto elim!: okR_mono)
next
  case AShutdown
  then have "ok s (offered as + r)" using assms by simp
  from shutdown_orderly[OF this assms(2)] show ?thesis unfolding AShutdown by (auto elim!: okR_mono)
qed

lemma accepted_msgs_Cons:
  "accepted_msgs (a # as) = accepted_msgs [a] @ (if a = AShutdown then [] else accepted_msgs as)"
  by (cases a) simp_all

theorem run_ok:
  assumes "ok s (offered as + r)" and "orderly s"
  shows "okR (run as s) (\<lambda>s'. ok s' r \<and> orderly s' \<and> closing s' = (closing s \<or> AShutdown \<in> set as) \<and>
    strm s' = strm s @ (if closing s then [] else accepted_msgs as))"
  using assms
proof (induction as arbitrary: s)
  case Nil
  then show ?case by (simp add: run_def)
next
  case (Cons a as)
  obtain s1 where s1: "out_step snd_op wr_op shut_op a s = Inr s1" "ok s1 (offered as + r)" "orderly s1"
    "closing s1 = (closing s \<or> a = AShutdown)"
    "strm s1 = strm s @ (if closing s then [] else accepted_msgs [a])"
    using step_orderly[OF Cons.prems] by (auto simp: okR_iff_ex)
  from Cons.IH[OF s1(2,3)] show ?case
    unfolding accepted_msgs_Cons[of a as] using s1(1,4,5) by (auto simp: run_def elim!: okR_mono)
qed

end

text \<open>Progress: a writable event takes at least one pending byte.\<close>

locale half_close_live = half_close +
  assumes progress: "ok s r \<Longrightarrow> snt s \<noteq> strm s \<Longrightarrow> okR (wr_op s) (\<lambda>s'.
      length (strm s') - length (snt s') < length (strm s) - length (snt s) \<and>
      (snt s' = strm s' \<and> closing s \<longrightarrow> shut s'))"
    and sent_prefix: "ok s r \<Longrightarrow> length (snt s) = length (strm s) \<Longrightarrow> snt s = strm s"
    and sent_short: "ok s r \<Longrightarrow> length (snt s) \<le> length (strm s)"
begin

lemma wr_step:
  assumes "ok s r" and "orderly s" and "snt s \<noteq> strm s"
  obtains s' where "wr_op s = Inr s'" and "ok s' r" and "orderly s'" and "strm s' = strm s"
    and "closing s' = closing s"
    and "length (strm s') - length (snt s') < length (strm s) - length (snt s)"
    and "snt s' = strm s' \<and> closing s \<longrightarrow> shut s'"
proof -
  obtain s' where "wr_op s = Inr s'" "ok s' r \<and> orderly s' \<and> strm s' = strm s \<and> closing s' = closing s"
    using writable_orderly[OF assms(1,2)] by (rule okR_obtain)
  then show thesis using progress[OF assms(1,3)] that by simp
qed

text \<open>Enough writable events flush the output, and close the write side if that was requested.\<close>

theorem flush:
  assumes "ok s r" and "orderly s" and "length (strm s) - length (snt s) \<le> n"
    and "closing s \<and> snt s = strm s \<longrightarrow> shut s"
  shows "okR (run (replicate n AWritable) s) (\<lambda>s'. ok s' r \<and> strm s' = strm s \<and> snt s' = strm s \<and>
    closing s' = closing s \<and> (closing s \<longrightarrow> shut s'))"
  using assms
proof (induction n arbitrary: s)
  case 0
  have "length (snt s) = length (strm s)" using 0(3) sent_short[OF 0(1)] by linarith
  then have "snt s = strm s" by (rule sent_prefix[OF 0(1)])
  then show ?case using 0(1,4) by (simp add: run_def)
next
  case (Suc n)
  show ?case
  proof (cases "snt s = strm s")
    case True
    then have "wr_op s = Inr s" using writable_done[OF Suc.prems(1)] by blast
    then show ?thesis using Suc.IH[of s] Suc.prems True by (simp add: run_def)
  next
    case False
    obtain s' where "wr_op s = Inr s'" "ok s' r" "orderly s'" "strm s' = strm s" "closing s' = closing s"
      "length (strm s') - length (snt s') < length (strm s) - length (snt s)"
      "snt s' = strm s' \<and> closing s \<longrightarrow> shut s'"
      using Suc.prems(1,2) False by (rule wr_step)
    then show ?thesis using Suc.IH[of s'] Suc.prems(3) by (simp add: run_def)
  qed
qed

end


section \<open>The connection implements it\<close>

text \<open>
  The documented behaviour of \<open>shutdown(2)\<close>: \<open>shut k fd\<close> says that the write side of \<open>fd\<close> is
  closed; only that call closes it, and only for its own descriptor.
\<close>

definition shut_contract :: "'k sysops \<Rightarrow> ('k \<Rightarrow> int \<Rightarrow> bool) \<Rightarrow> bool" where
  "shut_contract K shut \<longleftrightarrow>
     (\<forall>fd data k. shut (snd (sys_write K fd data k)) = shut k) \<and>
     (\<forall>fd k fd'. shut (snd (sys_shutdown_wr K fd k)) fd' \<longrightarrow> shut k fd' \<or> fd' = fd)"

text \<open>A writable socket takes at least one byte, and closing its write side succeeds.\<close>

definition live_contract :: "'k sysops \<Rightarrow> ('k \<Rightarrow> int \<Rightarrow> bool) \<Rightarrow> bool" where
  "live_contract K shut \<longleftrightarrow>
     (\<forall>fd data k n e k'. data \<noteq> [] \<longrightarrow> sys_write K fd data k = ((n, e), k') \<longrightarrow> 0 < n) \<and>
     (\<forall>fd k. shut (snd (sys_shutdown_wr K fd k)) fd)"

definition the_conn :: "nat \<Rightarrow> ('k, 'z) tcp_world_scheme \<Rightarrow> tcp_connection" where
  "the_conn conn w = the (conns w conn)"

definition out_ok :: "'k sysops \<Rightarrow> ('k \<Rightarrow> int \<Rightarrow> byte list) \<Rightarrow> ('k \<Rightarrow> int \<Rightarrow> bool) \<Rightarrow> int \<Rightarrow> nat \<Rightarrow>
    ('k, 'z) tcp_world_scheme \<Rightarrow> nat \<Rightarrow> bool" where
  "out_ok K sent shut tid conn w r \<longleftrightarrow> write_ok K sent \<and> others_silent K sent \<and> shut_contract K shut \<and>
     conn_ok tid conn w (the_conn conn w) \<and>
     conn_state (the_conn conn w) \<in> {Connected, Disconnecting} \<and>
     buf_room (output_buffer (the_conn conn w)) r"

definition out_live :: "'k sysops \<Rightarrow> ('k \<Rightarrow> int \<Rightarrow> byte list) \<Rightarrow> ('k \<Rightarrow> int \<Rightarrow> bool) \<Rightarrow> int \<Rightarrow> nat \<Rightarrow>
    ('k, 'z) tcp_world_scheme \<Rightarrow> nat \<Rightarrow> bool" where
  "out_live K sent shut tid conn w r \<longleftrightarrow> out_ok K sent shut tid conn w r \<and> live_contract K shut"

definition out_stream :: "('k \<Rightarrow> int \<Rightarrow> byte list) \<Rightarrow> nat \<Rightarrow> ('k, 'z) tcp_world_scheme \<Rightarrow> string" where
  "out_stream sent conn w = stream sent w (the_conn conn w)"

definition out_sent :: "('k \<Rightarrow> int \<Rightarrow> byte list) \<Rightarrow> nat \<Rightarrow> ('k, 'z) tcp_world_scheme \<Rightarrow> string" where
  "out_sent sent conn w = sent (kern w) (conn_socket (the_conn conn w))"

definition out_closing :: "nat \<Rightarrow> ('k, 'z) tcp_world_scheme \<Rightarrow> bool" where
  "out_closing conn w \<longleftrightarrow> conn_state (the_conn conn w) = Disconnecting"

definition out_shut :: "('k \<Rightarrow> int \<Rightarrow> bool) \<Rightarrow> nat \<Rightarrow> ('k, 'z) tcp_world_scheme \<Rightarrow> bool" where
  "out_shut shut conn w \<longleftrightarrow> shut (kern w) (conn_socket (the_conn conn w))"

lemmas out_views = out_stream_def out_sent_def out_closing_def out_shut_def

lemma setState_frame [simp]:
  "conn_state (setState s C) = s" "conn_loop (setState s C) = conn_loop C"
  "conn_socket (setState s C) = conn_socket C" "conn_channel (setState s C) = conn_channel C"
  "input_buffer (setState s C) = input_buffer C" "output_buffer (setState s C) = output_buffer C"
  by (simp_all add: setState_def)

lemma the_conn_frame [simp]:
  "the_conn conn (put_conn conn C w) = C" "the_conn conn (w\<lparr>kern := k\<rparr>) = the_conn conn w"
  by (simp_all add: the_conn_def)

lemma the_conn_ok: "conn_ok tid conn w C \<Longrightarrow> the_conn conn w = C \<and> conns w conn = Some C"
  by (auto simp: the_conn_def elim: conn_okE)

text \<open>In the loop's thread, \<open>send\<close> and \<open>shutdown\<close> call their \<open>InLoop\<close> parts directly.\<close>

lemma send_in_loop:
  assumes "conn_ok tid conn w C" and "conn_state C = Connected"
  shows "send tid K run conn message w = sendInLoop tid K conn message w"
  using assms by (auto elim!: conn_okE simp: send_def isInLoopThread_def)

lemma send_not_connected:
  "conns w conn = Some C \<Longrightarrow> conn_state C \<noteq> Connected \<Longrightarrow> send tid K run conn message w = Inr w"
  by (simp add: send_def)

lemma conn_ok_setState:
  assumes "conn_ok tid conn w C"
  shows "conn_ok tid conn (put_conn conn (setState s C) w) (setState s C)"
proof -
  obtain ch L where at: "conn_at w conn C ch" "isWriting ch \<longleftrightarrow> contents (output_buffer C) \<noteq> []"
    "buf_inv (input_buffer C)" "buf_inv (output_buffer C)" "idle tid (conn_loop C) w"
    using assms by (rule conn_okE)
  have "conn_at (put_conn conn (setState s C) w) conn (setState s C) ch"
    using at(1) by (rule conn_at_put_conn) simp_all
  then show ?thesis using at(2-) by (intro conn_okI) simp_all
qed

lemma shutdown_in_loop:
  assumes ok: "conn_ok tid conn w C" and st: "conn_state C = Connected"
  shows "shutdown tid K (run_closure tid K CB listen) conn w =
    Inr (let w1 = put_conn conn (setState Disconnecting C) w in
      if contents (output_buffer C) = []
      then w1\<lparr>kern := snd (sys_shutdown_wr K (conn_socket C) (kern w))\<rparr> else w1)"
proof -
  let ?w = "put_conn conn (setState Disconnecting C) w"
  have "shutdown tid K (run_closure tid K CB listen) conn w = shutdownInLoop tid K conn ?w"
    using ok st by (auto elim!: conn_okE simp: shutdown_def runInLoop_def isInLoopThread_def)
  then show ?thesis
    using shutdownInLoop_eq[OF conn_ok_setState[OF ok, of Disconnecting], of K] by simp
qed

lemma shutdown_not_connected:
  "conns w conn = Some C \<Longrightarrow> conn_state C \<noteq> Connected \<Longrightarrow> shutdown tid K run conn w = Inr w"
  by (simp add: shutdown_def)


lemma shut_write: "shut_contract K shut \<Longrightarrow> sys_write K fd data k = (r, k') \<Longrightarrow> shut k' = shut k"
  unfolding shut_contract_def by (metis snd_conv)

lemma out_send_open:
  assumes ok: "out_ok K sent shut tid conn w (length m + r)" and op: "\<not> out_closing conn w"
  shows "okR (send tid K run conn m w) (\<lambda>w'. out_ok K sent shut tid conn w' r \<and>
    out_stream sent conn w' = out_stream sent conn w @ m \<and> \<not> out_closing conn w' \<and>
    out_shut shut conn w' = out_shut shut conn w)"
proof -
  let ?C = "the_conn conn w"
  have C: "conn_ok tid conn w ?C" "conn_state ?C = Connected" "write_ok K sent" "others_silent K sent"
    "shut_contract K shut" "buf_room (output_buffer ?C) (length m + r)"
    using ok op by (auto simp: out_ok_def out_closing_def)
  have "okR (send tid K run conn m w) (accepted sent K tid conn m w ?C)"
    unfolding send_in_loop[OF C(1,2)] using C(6) by (intro sendInLoop_ok C) (simp add: buf_room_def)
  then show ?thesis
  proof (rule okR_mono)
    fix w'
    assume "accepted sent K tid conn m w ?C w'"
    then obtain out' where out': "conn_ok tid conn w' (?C\<lparr>output_buffer := out'\<rparr>)"
      "stream sent w' (?C\<lparr>output_buffer := out'\<rparr>) = stream sent w ?C @ m"
      "kern w' = (if contents (output_buffer ?C) = [] then snd (sys_write K (conn_socket ?C) m (kern w)) else kern w)"
      "writer_idx out' \<le> writer_idx (output_buffer ?C) + length m"
      by (auto simp: accepted_def)
    note the = the_conn_ok[OF out'(1), THEN conjunct1]
    have "shut (kern w') = shut (kern w)" using C(5) out'(3) by (simp add: shut_contract_def)
    then show "out_ok K sent shut tid conn w' r \<and> out_stream sent conn w' = out_stream sent conn w @ m \<and>
        \<not> out_closing conn w' \<and> out_shut shut conn w' = out_shut shut conn w"
      using out' C unfolding out_views out_ok_def the by (simp add: buf_room_def)
  qed
qed

lemma out_writable:
  assumes ok: "out_ok K sent shut tid conn w r"
  shows "okR (handleWrite tid K conn w) (\<lambda>w'. out_ok K sent shut tid conn w' r \<and>
    out_stream sent conn w' = out_stream sent conn w \<and> out_closing conn w' = out_closing conn w \<and>
    (out_shut shut conn w' \<longrightarrow> out_shut shut conn w \<or> out_closing conn w \<and> out_sent sent conn w' = out_stream sent conn w'))"
proof -
  let ?C = "the_conn conn w"
  have C: "conn_ok tid conn w ?C" "write_ok K sent" "others_silent K sent" "shut_contract K shut"
    using ok by (auto simp: out_ok_def)
  from handleWrite_ok[OF C(2,3,1)] show ?thesis
  proof (rule okR_mono)
    fix w'
    assume fl: "flushed sent K tid conn w ?C w'"
    obtain n e k' where sys: "sys_write K (conn_socket ?C) (contents (output_buffer ?C)) (kern w) = ((n, e), k')"
      by (metis surj_pair)
    obtain out' where out': "conn_ok tid conn w' (?C\<lparr>output_buffer := out'\<rparr>)"
      "stream sent w' (?C\<lparr>output_buffer := out'\<rparr>) = stream sent w ?C" "writer_idx out' = writer_idx (output_buffer ?C)"
      and k: "contents out' = [] \<and> conn_state ?C = Disconnecting \<and> kern w' = snd (sys_shutdown_wr K (conn_socket ?C) k')
        \<or> kern w' = k' \<or> kern w' = kern w"
      using fl by (auto simp: flushed_def sys Let_def split: if_splits)
    note the = the_conn_ok[OF out'(1), THEN conjunct1]
    have k': "shut k' = shut (kern w)" using shut_write[OF C(4) sys] .
    have "shut (kern w') (conn_socket ?C) \<Longrightarrow> shut (kern w) (conn_socket ?C) \<or>
        contents out' = [] \<and> conn_state ?C = Disconnecting"
      using k k' by auto
    then show "out_ok K sent shut tid conn w' r \<and> out_stream sent conn w' = out_stream sent conn w \<and>
        out_closing conn w' = out_closing conn w \<and> (out_shut shut conn w' \<longrightarrow> out_shut shut conn w \<or>
        out_closing conn w \<and> out_sent sent conn w' = out_stream sent conn w')"
      using out' C ok unfolding out_views out_ok_def the by (auto simp: buf_room_def stream_def)
  qed
qed


lemma out_sent_all:
  "conn_ok tid conn w (the_conn conn w) \<Longrightarrow>
   out_sent sent conn w = out_stream sent conn w \<longleftrightarrow> contents (output_buffer (the_conn conn w)) = []"
  by (simp add: out_sent_def out_stream_def stream_def)

lemma handleWrite_nothing:
  assumes "conn_ok tid conn w C" and "contents (output_buffer C) = []"
  shows "handleWrite tid K conn w = Inr w"
  using assms by (auto elim!: conn_okE simp: handleWrite_def)

lemma out_shutdown_open:
  assumes ok: "out_ok K sent shut tid conn w r" and op: "\<not> out_closing conn w"
  shows "okR (shutdown tid K (run_closure tid K CB listen) conn w) (\<lambda>w'. out_ok K sent shut tid conn w' r \<and>
    out_stream sent conn w' = out_stream sent conn w \<and> out_closing conn w' \<and>
    (out_shut shut conn w' \<longrightarrow> out_shut shut conn w \<or> out_sent sent conn w' = out_stream sent conn w') \<and>
    (live_contract K shut \<and> out_sent sent conn w' = out_stream sent conn w' \<longrightarrow> out_shut shut conn w'))"
proof -
  let ?C = "the_conn conn w" and ?D = "setState Disconnecting (the_conn conn w)"
  let ?w1 = "put_conn conn ?D w"
  have C: "conn_ok tid conn w ?C" "conn_state ?C = Connected" "others_silent K sent"
    using ok op by (auto simp: out_ok_def out_closing_def)
  have D: "conn_ok tid conn (?w1\<lparr>kern := k\<rparr>) ?D" "conn_ok tid conn ?w1 ?D" for k
    using conn_ok_setState[OF C(1)] by simp_all
  show ?thesis
    unfolding shutdown_in_loop[OF C(1,2)] using ok D C(3)
    by (auto simp: Let_def out_views out_ok_def stream_def buf_room_def others_silent_def live_contract_def)
qed

interpretation hc: half_close "out_ok K sent shut tid conn" "out_stream sent conn" "out_sent sent conn"
  "out_closing conn" "out_shut shut conn" "\<lambda>m. send tid K (run_closure tid K CB listen) conn m"
  "handleWrite tid K conn" "shutdown tid K (run_closure tid K CB listen) conn"
  for K :: "'k sysops" and sent shut tid conn and CB :: "('k, 'z) tcp_world_scheme conn_cbs" and listen
proof
  fix w :: "('k, 'z) tcp_world_scheme" and m r q
  show "out_ok K sent shut tid conn w (length m + r) \<Longrightarrow> \<not> out_closing conn w \<Longrightarrow>
      okR (send tid K (run_closure tid K CB listen) conn m w) (\<lambda>w'. out_ok K sent shut tid conn w' r \<and>
        out_stream sent conn w' = out_stream sent conn w @ m \<and> \<not> out_closing conn w' \<and>
        out_shut shut conn w' = out_shut shut conn w)"
    by (rule out_send_open)
  show "out_ok K sent shut tid conn w r \<Longrightarrow> okR (handleWrite tid K conn w) (\<lambda>w'. out_ok K sent shut tid conn w' r \<and>
      out_stream sent conn w' = out_stream sent conn w \<and> out_closing conn w' = out_closing conn w \<and>
      (out_shut shut conn w' \<longrightarrow> out_shut shut conn w \<or> out_closing conn w \<and> out_sent sent conn w' = out_stream sent conn w'))"
    by (rule out_writable)
  show "out_ok K sent shut tid conn w r \<Longrightarrow> out_sent sent conn w = out_stream sent conn w \<Longrightarrow>
      handleWrite tid K conn w = Inr w"
    using handleWrite_nothing out_sent_all[of tid conn w sent] by (auto simp: out_ok_def)
  show "out_ok K sent shut tid conn w r \<Longrightarrow> \<not> out_closing conn w \<Longrightarrow>
      okR (shutdown tid K (run_closure tid K CB listen) conn w) (\<lambda>w'. out_ok K sent shut tid conn w' r \<and>
        out_stream sent conn w' = out_stream sent conn w \<and> out_closing conn w' \<and>
        (out_shut shut conn w' \<longrightarrow> out_shut shut conn w \<or> out_sent sent conn w' = out_stream sent conn w'))"
    using out_shutdown_open[of K sent shut tid conn w r CB listen] by (auto elim: okR_mono)
  show "out_ok K sent shut tid conn w r \<Longrightarrow> out_closing conn w \<Longrightarrow>
      send tid K (run_closure tid K CB listen) conn m w = Inr w"
    using the_conn_ok[of tid conn w "the_conn conn w"] by (auto simp: send_not_connected out_ok_def out_closing_def)
  show "out_ok K sent shut tid conn w r \<Longrightarrow> out_closing conn w \<Longrightarrow>
      shutdown tid K (run_closure tid K CB listen) conn w = Inr w"
    using the_conn_ok[of tid conn w "the_conn conn w"] by (auto simp: shutdown_not_connected out_ok_def out_closing_def)
  show "out_ok K sent shut tid conn w r \<Longrightarrow> q \<le> r \<Longrightarrow> out_ok K sent shut tid conn w q"
    by (auto simp: out_ok_def buf_room_def)
qed


lemma out_progress:
  assumes ok: "out_live K sent shut tid conn w r" and pend: "out_sent sent conn w \<noteq> out_stream sent conn w"
  shows "okR (handleWrite tid K conn w) (\<lambda>w'.
    length (out_stream sent conn w') - length (out_sent sent conn w') <
      length (out_stream sent conn w) - length (out_sent sent conn w) \<and>
    (out_sent sent conn w' = out_stream sent conn w' \<and> out_closing conn w \<longrightarrow> out_shut shut conn w'))"
proof -
  let ?C = "the_conn conn w" and ?p = "contents (output_buffer (the_conn conn w))"
  have C: "conn_ok tid conn w ?C" "write_ok K sent" "others_silent K sent" "live_contract K shut"
    using ok by (auto simp: out_ok_def out_live_def)
  have p: "?p \<noteq> []" using pend out_sent_all[OF C(1)] by blast
  obtain n e k' where sys: "sys_write K (conn_socket ?C) ?p (kern w) = ((n, e), k')" by (metis surj_pair)
  have n: "0 < n" using C(4) p sys unfolding live_contract_def by blast
  from handleWrite_ok[OF C(2,3,1)] show ?thesis
  proof (rule okR_mono)
    fix w'
    assume fl: "flushed sent K tid conn w ?C w'"
    obtain out' where out': "conn_ok tid conn w' (?C\<lparr>output_buffer := out'\<rparr>)" "contents out' = drop (nat n) ?p"
      and k: "contents out' = [] \<and> conn_state ?C = Disconnecting \<longrightarrow> kern w' = snd (sys_shutdown_wr K (conn_socket ?C) k')"
      using fl n p by (auto simp: flushed_def sys Let_def)
    note the = the_conn_ok[OF out'(1), THEN conjunct1]
    have "length (contents out') < length ?p" using n p out'(2) by simp
    then show "length (out_stream sent conn w') - length (out_sent sent conn w') <
        length (out_stream sent conn w) - length (out_sent sent conn w) \<and>
      (out_sent sent conn w' = out_stream sent conn w' \<and> out_closing conn w \<longrightarrow> out_shut shut conn w')"
      using k C(4) unfolding out_views the by (simp add: stream_def live_contract_def)
  qed
qed

interpretation hcl: half_close_live "out_live K sent shut tid conn" "out_stream sent conn" "out_sent sent conn"
  "out_closing conn" "out_shut shut conn" "\<lambda>m. send tid K (run_closure tid K CB listen) conn m"
  "handleWrite tid K conn" "shutdown tid K (run_closure tid K CB listen) conn"
  for K :: "'k sysops" and sent shut tid conn and CB :: "('k, 'z) tcp_world_scheme conn_cbs" and listen
proof (intro half_close_live.intro half_close_live_axioms.intro)
  show "half_close (out_live K sent shut tid conn) (out_stream sent conn) (out_sent sent conn)
      (out_closing conn) (out_shut shut conn) (\<lambda>m. send tid K (run_closure tid K CB listen) conn m)
      (handleWrite tid K conn) (shutdown tid K (run_closure tid K CB listen) conn)"
    using hc.half_close_axioms[of K sent shut tid conn CB listen]
    by (auto simp: half_close_def out_live_def)
next
  fix w :: "('k, 'z) tcp_world_scheme" and r
  assume "out_live K sent shut tid conn w r" and "out_sent sent conn w \<noteq> out_stream sent conn w"
  then show "okR (handleWrite tid K conn w) (\<lambda>w'.
      length (out_stream sent conn w') - length (out_sent sent conn w') <
        length (out_stream sent conn w) - length (out_sent sent conn w) \<and>
      (out_sent sent conn w' = out_stream sent conn w' \<and> out_closing conn w \<longrightarrow> out_shut shut conn w'))"
    by (rule out_progress)
next
  fix w :: "('k, 'z) tcp_world_scheme" and r
  assume "length (out_sent sent conn w) = length (out_stream sent conn w)"
  then show "out_sent sent conn w = out_stream sent conn w" by (simp add: out_views stream_def)
next
  fix w :: "('k, 'z) tcp_world_scheme" and r
  show "length (out_sent sent conn w) \<le> length (out_stream sent conn w)" by (simp add: out_views stream_def)
qed


section \<open>Properties\<close>

definition sim_shut_fd :: "sim \<Rightarrow> int \<Rightarrow> bool" where
  "sim_shut_fd k fd \<longleftrightarrow> fd \<in> set (sim_shut k)"

text \<open>The simulated kernel, with a send buffer that always takes at least one byte.\<close>

definition sim_ops_live :: "sim sysops" where
  "sim_ops_live = sim_ops\<lparr>sys_write := \<lambda>fd data k. sim_write fd data (k\<lparr>sim_cap := \<lambda>f. max 1 (sim_cap k f)\<rparr>)\<rparr>"

lemma sim_shut_contract: "shut_contract sim_ops sim_shut_fd" "shut_contract sim_ops_live sim_shut_fd"
  by (auto simp: shut_contract_def sim_ops_def sim_ops_live_def sim_write_def sim_shut_fd_def Let_def fun_eq_iff)

lemma sim_live_contract: "live_contract sim_ops_live sim_shut_fd"
  by (auto simp: live_contract_def sim_ops_def sim_ops_live_def sim_write_def sim_shut_fd_def Let_def split: if_splits)

lemma sim_live_write_ok: "write_ok sim_ops_live sim_tx"
  by (auto simp: write_ok_def sim_ops_live_def sim_ops_def sim_write_def Let_def min_def split: if_splits)

lemma sim_live_silent: "others_silent sim_ops_live sim_tx"
  by (simp add: others_silent_def sim_ops_live_def sim_ops_def sim_poll_def sim_readv_def Let_def)

definition demo_cbs :: "sim tcp_world conn_cbs" where
  "demo_cbs = \<lparr>connection_cb = (\<lambda>conn. Inr), message_cb = (\<lambda>conn t. Inr), write_cmpl_cb = (\<lambda>conn. Inr), close_cb = (\<lambda>conn. Inr)\<rparr>"

lemma demo_the_conn: "the_conn 3 demo_world = demo_conn"
  using the_conn_ok[OF demo_world_ok] by simp

lemma demo_out_ok:
  assumes "8 + n \<le> max_size"
  shows "out_ok sim_ops sim_tx sim_shut_fd 1 3 demo_world n" "out_ok sim_ops_live sim_tx sim_shut_fd 1 3 demo_world n"
  using assms demo_world_ok
  by (simp_all add: out_ok_def sim_write_ok sim_others_silent sim_shut_contract sim_live_write_ok sim_live_silent demo_the_conn)
    (simp_all add: demo_conn_def)

lemma demo_open: "\<not> out_closing 3 demo_world" "out_sent sent 3 demo_world = out_stream sent 3 demo_world"
  unfolding out_views demo_the_conn stream_def by (simp_all add: demo_conn_def)

lemma demo_not_shut: "\<not> out_shut sim_shut_fd 3 demo_world"
  by (simp add: out_shut_def sim_shut_fd_def demo_world_def sim_init_def)

text \<open>
  C1: the output stream of a connection is intact. For every sequence of \<open>send\<close> calls, writable events
  and \<open>shutdown\<close> calls in the loop's thread, whatever the socket takes each time: no call fails; the
  bytes the socket took, followed by the pending ones, are those of before followed by exactly the
  messages sent before the first \<open>shutdown\<close>, in order; and the write side of the socket is closed only
  after \<open>shutdown\<close> was called and every one of those bytes is out.
\<close>

theorem output_stream_intact:
  assumes "out_ok K sent shut tid conn w (offered acts + r)"
    and "out_shut shut conn w \<longrightarrow> out_closing conn w \<and> out_sent sent conn w = out_stream sent conn w"
  shows "okR (foldR (out_step (\<lambda>m. send tid K (run_closure tid K CB listen) conn m) (handleWrite tid K conn)
      (shutdown tid K (run_closure tid K CB listen) conn)) acts w) (\<lambda>w'.
    out_ok K sent shut tid conn w' r \<and>
    out_stream sent conn w' = out_stream sent conn w @ (if out_closing conn w then [] else accepted_msgs acts) \<and>
    (out_shut shut conn w' \<longrightarrow> out_closing conn w' \<and> out_sent sent conn w' = out_stream sent conn w'))"
  using hc.run_ok[OF assms(1), of CB listen] assms(2)
  unfolding hc.run_def hc.orderly_def by (auto elim!: okR_mono)

theorem output_stream_intact_witness:
  "okR (foldR (out_step (\<lambda>m. send 1 sim_ops (run_closure 1 sim_ops demo_cbs (\<lambda>a. Inr)) 3 m) (handleWrite 1 sim_ops 3)
      (shutdown 1 sim_ops (run_closure 1 sim_ops demo_cbs (\<lambda>a. Inr)) 3)) [ASend ''hello'', AShutdown, ASend ''x'', AWritable] demo_world) (\<lambda>w'.
    out_stream sim_tx 3 w' = out_stream sim_tx 3 demo_world @ ''hello'')"
proof -
  let ?acts = "[ASend ''hello'', AShutdown, ASend ''x'', AWritable]"
  have "out_ok sim_ops sim_tx sim_shut_fd 1 3 demo_world (offered ?acts + 0)"
    by (rule demo_out_ok(1)) (simp add: max_size_def)
  from output_stream_intact[OF this, of demo_cbs "\<lambda>a. Inr"] show ?thesis
    using demo_not_shut by (auto simp: demo_open elim!: okR_mono)
qed



end
