(* ===== verification/TcpLifecycle.thy ===== *)
theory TcpLifecycle
  imports TcpOutput
begin

text \<open>
  The life of a connection (\<open>establishConnection\<close>, \<open>handleRead\<close>, \<open>handleClose\<close>,
  \<open>destroyConnection\<close> of \<open>src/src/tcp_connection.cpp\<close>). The states follow a step relation whose
  final state is never left; establishing registers the channel for reading, destroying removes it
  from the poller; received bytes are handed to the message callback behind those it has not taken
  yet.
\<close>

section \<open>The state machine\<close>

inductive life :: "states \<Rightarrow> states \<Rightarrow> bool" where
  establish: "life Connecting Connected"
| half_close: "life Connected Disconnecting"
| destroy_open: "life Connected Disconnected"
| destroy_closing: "life Disconnecting Disconnected"

inductive_simps life_simps: "life s s'"

fun rank :: "states \<Rightarrow> nat" where
  "rank Connecting = 0"
| "rank Connected = 1"
| "rank Disconnecting = 2"
| "rank Disconnected = 3"

lemma life_rank: "life\<^sup>*\<^sup>* s s' \<Longrightarrow> s = s' \<or> rank s < rank s'"
  by (induction rule: rtranclp_induct) (auto simp: life_simps)

lemma life_final: "life\<^sup>*\<^sup>* Disconnected s \<Longrightarrow> s = Disconnected"
  using life_rank[of Disconnected s] by (cases s) auto

lemma life_no_restart: "life\<^sup>*\<^sup>* s Connecting \<Longrightarrow> s = Connecting"
  using life_rank[of s Connecting] by simp

text \<open>One call on a connection: by the application, by its channel or by the server.\<close>

datatype conn_op = Establish | SendOp string | ShutdownOp | Readable int | WritableOp | CloseOp | ErrorOp | Destroy

fun conn_exec :: "int \<Rightarrow> 'k sysops \<Rightarrow> ('k, 'z) tcp_world_scheme conn_cbs \<Rightarrow>
    (nat \<Rightarrow> ('k, 'z) tcp_world_scheme \<Rightarrow> ('k, 'z) tcp_world_scheme res) \<Rightarrow> nat \<Rightarrow> conn_op \<Rightarrow>
    ('k, 'z) tcp_world_scheme \<Rightarrow> ('k, 'z) tcp_world_scheme res" where
  "conn_exec tid K CB listen conn Establish = establishConnection tid CB conn"
| "conn_exec tid K CB listen conn (SendOp m) = send tid K (run_closure tid K CB listen) conn m"
| "conn_exec tid K CB listen conn ShutdownOp = shutdown tid K (run_closure tid K CB listen) conn"
| "conn_exec tid K CB listen conn (Readable t) = handleRead tid K CB conn t"
| "conn_exec tid K CB listen conn WritableOp = handleWrite tid K conn"
| "conn_exec tid K CB listen conn CloseOp = handleClose tid CB conn"
| "conn_exec tid K CB listen conn ErrorOp = handleError K conn"
| "conn_exec tid K CB listen conn Destroy = destroyConnection tid CB conn"

definition state_of :: "nat \<Rightarrow> ('k, 'z) tcp_world_scheme \<Rightarrow> states option" where
  "state_of conn w = map_option conn_state (conns w conn)"

text \<open>A step that moves the state of the connection forward or leaves it.\<close>

definition forward :: "nat \<Rightarrow> ('k, 'z) tcp_world_scheme \<Rightarrow> ('k, 'z) tcp_world_scheme \<Rightarrow> bool" where
  "forward conn w w' \<longleftrightarrow> rel_option life\<^sup>*\<^sup>* (state_of conn w) (state_of conn w')"

definition cbs_forward :: "('k, 'z) tcp_world_scheme conn_cbs \<Rightarrow> nat \<Rightarrow> bool" where
  "cbs_forward CB conn \<longleftrightarrow> (\<forall>w t. safeR (connection_cb CB conn w) (forward conn w) \<and>
     safeR (message_cb CB conn t w) (forward conn w) \<and> safeR (close_cb CB conn w) (forward conn w))"

lemma forward_refl [simp]: "forward conn w w"
  by (simp add: forward_def option.rel_refl)

lemma forward_same: "state_of conn w' = state_of conn w \<Longrightarrow> forward conn w w'"
  by (simp add: forward_def option.rel_refl)

lemma forward_trans: "forward conn u v \<Longrightarrow> forward conn v w \<Longrightarrow> forward conn u w"
  by (auto simp: forward_def option_rel_Some2 elim!: option.rel_cases)

lemma forward_step: "life s s' \<Longrightarrow> state_of conn w = Some s \<Longrightarrow> state_of conn w' = Some s' \<Longrightarrow> forward conn w w'"
  by (auto simp: forward_def)


section \<open>Reactor operations leave the connections alone\<close>

lemma updateChannel_conns: "EventLoop_updateChannel tid l c w = Inr w' \<Longrightarrow> conns w' = conns w"
  by (auto simp: EventLoop_updateChannel_def res_iffs)

lemma removeChannel_conns: "EventLoop_removeChannel tid l c w = Inr w' \<Longrightarrow> conns w' = conns w"
  by (auto simp: EventLoop_removeChannel_def res_iffs)

lemma set_mask_conns: "set_mask f tid c w = Inr w' \<Longrightarrow> conns w' = conns w"
  by (auto simp: set_mask_def Channel_update_def res_iffs dest: updateChannel_conns)

lemma wakeup_conns: "wakeup K l w = Inr w' \<Longrightarrow> conns w' = conns w"
  by (auto simp: wakeup_def res_iffs case_prod_beta)

lemma queueInLoop_conns: "queueInLoop tid K l f w = Inr w' \<Longrightarrow> conns w' = conns w"
  by (auto simp: queueInLoop_def lock_mutex_def unlock_mutex_def res_iffs Let_def
      split: if_splits dest!: wakeup_conns)

lemmas conns_dests = set_mask_conns queueInLoop_conns removeChannel_conns

lemma state_of_frame [simp]:
  "state_of conn (w\<lparr>kern := k\<rparr>) = state_of conn w"
  "state_of conn (put_conn conn' C w) = (if conn' = conn then Some (conn_state C) else state_of conn w)"
  by (simp_all add: state_of_def)

lemma state_of_conns: "conns w' = conns w \<Longrightarrow> state_of conn w' = state_of conn w"
  by (simp add: state_of_def)

text \<open>Sending, flushing and half-closing leave every connection's state.\<close>

lemma shutdownInLoop_conns: "shutdownInLoop tid K conn w = Inr w' \<Longrightarrow> conns w' = conns w"
  by (auto simp: shutdownInLoop_def res_iffs case_prod_beta split: if_splits)

lemma set_mask_state: "safeR (set_mask f tid c w) (\<lambda>w'. state_of conn w' = state_of conn w)"
  unfolding safeR_iff_all by (blast intro: state_of_conns set_mask_conns)

lemma queueInLoop_state: "safeR (queueInLoop tid K l f w) (\<lambda>w'. state_of conn w' = state_of conn w)"
  unfolding safeR_iff_all by (blast intro: state_of_conns queueInLoop_conns)

lemma shutdownInLoop_state: "safeR (shutdownInLoop tid K conn' w) (\<lambda>w'. state_of conn w' = state_of conn w)"
  unfolding safeR_iff_all by (blast intro: state_of_conns shutdownInLoop_conns)

lemma state_of_Some: "conns w conn = Some C \<Longrightarrow> state_of conn w = Some (conn_state C)"
  by (simp add: state_of_def)

lemma sendInLoop_state:
  fixes w :: "('k, 'z) tcp_world_scheme"
  shows "safeR (sendInLoop tid K conn' m w) (\<lambda>w'. state_of conn w' = state_of conn w)"
  unfolding sendInLoop_def
proof (intro safeR_bind_deref, rule safeR_bind_any, intro safeR_bind_deref,
    rule safeR_bindI[where Q = "\<lambda>(n, v). state_of conn v = state_of conn w"])
  fix C ch
  show "safeR (if \<not> isWriting ch \<and> readableBytes (output_buffer C) = 0 then
          (let ((n, errno), k') = sys_write K (getFd ch) m (kern w); w1 = w\<lparr>kern := k'\<rparr> in
           if n \<ge> 0 then
             if nat n < length m then Inr (n, w1)
             else if has_write_cmpl_cb C then
               bindR (queueInLoop tid K (conn_loop C) (WriteComplete conn') w1) (\<lambda>w2. Inr (n, w2))
             else Inr (n, w1)
           else Inr (0, w1))
        else Inr (0, w)) (\<lambda>(n, v). state_of conn v = state_of conn w)"
    using queueInLoop_state[of tid K "conn_loop C" "WriteComplete conn'" "w\<lparr>kern := k\<rparr>" conn for k]
    by (simp add: Let_def case_prod_beta wp)
next
  fix C ch and x :: "int \<times> ('k, 'z) tcp_world_scheme"
  assume C: "conns w conn' = Some C" and "case x of (n, v) \<Rightarrow> state_of conn v = state_of conn w"
  then obtain n v where x: "x = (n, v)" "state_of conn v = state_of conn w" by (cases x) auto
  let ?v = "\<lambda>b. put_conn conn' (C\<lparr>output_buffer := b\<rparr>) v"
  have "state_of conn (?v b) = state_of conn w" for b
    using C x(2) by (auto dest: state_of_Some)
  moreover have "safeR (enableWriting tid c (?v b)) (\<lambda>w'. state_of conn w' = state_of conn (?v b))" for b c
    unfolding mask_ops by (rule set_mask_state)
  ultimately show "safeR (case x of (nwrote, w3) \<Rightarrow> check (nwrote \<ge> 0) (AssertFailed ''tcp_connection.cpp:88'')
     (if nat nwrote < length m then
        bindR (Buffer_append (output_buffer C) (drop (nat nwrote) m)) (\<lambda>outbuf.
        let w4 = put_conn conn' (C\<lparr>output_buffer := outbuf\<rparr>) w3 in
        if \<not> isWriting ch then enableWriting tid (conn_channel C) w4 else Inr w4)
      else Inr w3)) (\<lambda>w'. state_of conn w' = state_of conn w)"
    using x(2) by (auto simp: x(1) Let_def intro!: safeR_checkI safeR_bind_any)
qed

lemma handleWrite_state:
  fixes w :: "('k, 'z) tcp_world_scheme"
  shows "safeR (handleWrite tid K conn' w) (\<lambda>w'. state_of conn w' = state_of conn w)"
  unfolding handleWrite_def
proof (intro safeR_bind_deref, rule safeR_bind_any, intro safeR_bind_deref)
  fix C ch
  assume C: "conns w conn' = Some C"
  let ?v = "\<lambda>b k. put_conn conn' (C\<lparr>output_buffer := b\<rparr>) (w\<lparr>kern := k\<rparr>)"
  let ?P = "\<lambda>w' :: ('k, 'z) tcp_world_scheme. state_of conn w' = state_of conn w"
  have "safeR (bindR (disableWriting tid (conn_channel C) (?v b k)) (\<lambda>w3.
           bindR (if has_write_cmpl_cb C
                  then queueInLoop tid K (conn_loop C) (WriteComplete conn') w3 else Inr w3) (\<lambda>w4.
           if conn_state C = Disconnecting then shutdownInLoop tid K conn' w4 else Inr w4))) ?P" for b k
  proof (rule safeR_bindI[where Q = ?P])
    show "safeR (disableWriting tid (conn_channel C) (?v b k)) ?P"
      unfolding mask_ops using state_of_Some[OF C] by (intro safeR_mono[OF set_mask_state[where conn = conn]]) auto
    fix w3 assume "?P w3"
    then show "safeR (bindR (if has_write_cmpl_cb C
                  then queueInLoop tid K (conn_loop C) (WriteComplete conn') w3 else Inr w3) (\<lambda>w4.
           if conn_state C = Disconnecting then shutdownInLoop tid K conn' w4 else Inr w4)) ?P"
      using queueInLoop_state[of tid K "conn_loop C" "WriteComplete conn'" w3 conn]
      by (intro safeR_bindI[where Q = ?P]) (auto intro: safeR_mono[OF shutdownInLoop_state[where conn = conn]])
  qed
  then show "safeR (if isWriting ch then
       bindR (read_range (buffer_vec (output_buffer C)) (peek (output_buffer C))
                (readableBytes (output_buffer C))) (\<lambda>data.
       let ((n, errno), k') = sys_write K (getFd ch) data (kern w); w1 = w\<lparr>kern := k'\<rparr> in
       if n > 0 then
         bindR (retrieve (output_buffer C) (nat n)) (\<lambda>outbuf.
         let w2 = put_conn conn' (C\<lparr>output_buffer := outbuf\<rparr>) w1 in
         if readableBytes outbuf = 0 then
           bindR (disableWriting tid (conn_channel C) w2) (\<lambda>w3.
           bindR (if has_write_cmpl_cb C
                  then queueInLoop tid K (conn_loop C) (WriteComplete conn') w3 else Inr w3) (\<lambda>w4.
           if conn_state C = Disconnecting then shutdownInLoop tid K conn' w4 else Inr w4))
         else Inr w2)
       else Inr w1)
     else Inr w) ?P"
    using state_of_Some[OF C] by (auto simp: Let_def case_prod_beta intro!: safeR_bind_any)
qed

lemma handleError_state: "safeR (handleError K conn' w) (\<lambda>w'. state_of conn w' = state_of conn w)"
  unfolding handleError_def by (auto simp: case_prod_beta intro!: safeR_bind_deref)


section \<open>Every operation moves the state forward\<close>

lemma call_member_forward:
  assumes "\<And>v. safeR (f v) (forward conn v)" and "forward conn w v"
  shows "safeR (call_member b f v) (forward conn w)"
  unfolding call_member_def
  by (rule safeR_checkI, rule safeR_mono[OF assms(1)]) (rule forward_trans[OF assms(2)])

lemma cbs_forwardD:
  assumes "cbs_forward CB conn"
  shows "safeR (connection_cb CB conn v) (forward conn v)" and "safeR (message_cb CB conn t v) (forward conn v)"
    and "safeR (close_cb CB conn v) (forward conn v)"
  using assms by (simp_all add: cbs_forward_def)

lemma set_mask_forward: "forward conn w v \<Longrightarrow> safeR (set_mask f tid c v) (forward conn w)"
  by (rule safeR_mono[OF set_mask_state[where conn = conn]]) (simp add: forward_def)

lemma establish_forward:
  assumes "cbs_forward CB conn"
  shows "safeR (establishConnection tid CB conn w) (forward conn w)"
  unfolding establishConnection_def mask_ops
proof (intro safeR_bind_deref, rule safeR_bind_any, rule safeR_checkI, rule safeR_bindI[where Q = "forward conn w"])
  fix C assume C: "conns w conn = Some C" "conn_state C = Connecting"
  have "forward conn w (put_conn conn (setState Connected C) w)"
    by (rule forward_step[OF establish]) (use C in \<open>simp_all add: state_of_def\<close>)
  then show "safeR (set_mask (\<lambda>ev. ev OR ReadEvent) tid (conn_channel C) (put_conn conn (setState Connected C) w)) (forward conn w)"
    by (rule set_mask_forward)
next
  fix C v assume "forward conn w v"
  then show "safeR (call_member (has_connection_cb C) (connection_cb CB conn) v) (forward conn w)"
    using cbs_forwardD(1)[OF assms] by (intro call_member_forward)
qed

lemma handleClose_forward:
  assumes "cbs_forward CB conn" and "forward conn u w"
  shows "safeR (handleClose tid CB conn w) (forward conn u)"
  unfolding handleClose_def mask_ops
proof (intro safeR_bind_deref, rule safeR_bind_any, rule safeR_checkI, rule safeR_bindI[where Q = "forward conn u"])
  fix C show "safeR (set_mask (\<lambda>ev. NoneEvent) tid (conn_channel C) w) (forward conn u)"
    by (rule set_mask_forward[OF assms(2)])
next
  fix C v assume "forward conn u v"
  then show "safeR (call_member (has_close_cb C) (close_cb CB conn) v) (forward conn u)"
    using cbs_forwardD(3)[OF assms(1)] by (intro call_member_forward)
qed

lemma destroy_forward:
  assumes "cbs_forward CB conn"
  shows "safeR (destroyConnection tid CB conn w) (\<lambda>w'. forward conn w w' \<and> state_of conn w' = Some Disconnected)"
  unfolding destroyConnection_def mask_ops
proof (intro safeR_bind_deref, rule safeR_bind_any, rule safeR_checkI, rule safeR_bindI[where Q = "\<lambda>v. forward conn w v \<and> state_of conn v = Some Disconnected"],
    goal_cases mask rest)
  case (mask C)
  have "forward conn w (put_conn conn (setState Disconnected C) w)"
    using mask by (auto simp: forward_def state_of_def life_simps)
  then show ?case
    by (intro safeR_mono[OF set_mask_state[where conn = conn]]) (simp add: forward_def)
next
  case (rest C _ v)
  have "safeR (connection_cb CB conn v) (\<lambda>w2. forward conn w w2 \<and> state_of conn w2 = Some Disconnected)"
  proof (rule safeR_mono[OF cbs_forwardD(1)[OF assms]], intro conjI)
    fix w2 assume f: "forward conn v w2"
    show "forward conn w w2" using rest f by (blast intro: forward_trans)
    show "state_of conn w2 = Some Disconnected"
      using f rest by (auto simp: forward_def option_rel_Some1 dest: life_final)
  qed
  then show ?case
    unfolding call_member_def
    by (intro safeR_bindI[where Q = "\<lambda>v. forward conn w v \<and> state_of conn v = Some Disconnected"] safeR_checkI)
      (auto simp: safeR_iff_all forward_def dest!: removeChannel_conns state_of_conns[where conn = conn])
qed


lemma shutdown_forward: "safeR (shutdown tid K (run_closure tid K CB listen) conn w) (forward conn w)"
  unfolding shutdown_def
proof (rule safeR_bind_deref)
  fix C assume C: "conns w conn = Some C"
  let ?v = "put_conn conn (setState Disconnecting C) w"
  have "conn_state C = Connected \<Longrightarrow> forward conn w ?v"
    by (rule forward_step[OF half_close]) (use C in \<open>simp_all add: state_of_def\<close>)
  moreover have "safeR (runInLoop tid K (run_closure tid K CB listen) (conn_loop C) (ShutdownInLoop conn) ?v)
      (\<lambda>w'. state_of conn w' = state_of conn ?v)"
    unfolding runInLoop_def
    by (rule safeR_bind_deref) (auto intro: shutdownInLoop_state queueInLoop_state simp del: state_of_frame)
  ultimately show "safeR (if conn_state C = Connected
      then runInLoop tid K (run_closure tid K CB listen) (conn_loop C) (ShutdownInLoop conn) ?v else Inr w) (forward conn w)"
    by (auto elim!: safeR_mono simp: forward_def)
qed

lemma send_forward: "safeR (send tid K (run_closure tid K CB listen) conn m w) (forward conn w)"
proof -
  have "safeR (send tid K (run_closure tid K CB listen) conn m w) (\<lambda>w'. state_of conn w' = state_of conn w)"
    unfolding send_def runInLoop_def
    by (auto intro!: safeR_bind_deref sendInLoop_state queueInLoop_state)
  then show ?thesis by (rule safeR_mono) (rule forward_same)
qed

lemma handleRead_forward:
  assumes "cbs_forward CB conn"
  shows "safeR (handleRead tid K CB conn t w) (forward conn w)"
  unfolding handleRead_def
proof (rule safeR_bind_deref, rule safeR_bind_deref, rule safeR_bind_any, clarify)
  fix C ch n e b k
  assume C: "conns w conn = Some C"
  let ?v = "put_conn conn (C\<lparr>input_buffer := b\<rparr>) (w\<lparr>kern := k\<rparr>)"
  have v: "forward conn w ?v" using C by (intro forward_same) (auto simp: state_of_def)
  have "safeR (handleError K conn ?v) (forward conn w)"
    by (rule safeR_mono[OF handleError_state[where conn = conn]]) (use v in \<open>simp add: forward_def\<close>)
  then show "safeR (let w1 = ?v in if n > 0 then call_member (has_message_cb C) (message_cb CB conn t) w1
      else if n = 0 then handleClose tid CB conn w1 else handleError K conn w1) (forward conn w)"
    using call_member_forward[OF cbs_forwardD(2)[OF assms] v] handleClose_forward[OF assms v]
    by (simp add: Let_def)
qed

lemma conn_exec_forward:
  assumes "cbs_forward CB conn"
  shows "safeR (conn_exec tid K CB listen conn opr w) (forward conn w)"
proof (cases opr)
  case Destroy
  then show ?thesis using safeR_mono[OF destroy_forward[OF assms]] by auto
next
  case WritableOp
  then show ?thesis using safeR_mono[OF handleWrite_state forward_same] by auto
next
  case ErrorOp
  then show ?thesis using safeR_mono[OF handleError_state forward_same] by auto
qed (use assms in \<open>simp_all add: establish_forward send_forward shutdown_forward handleRead_forward handleClose_forward\<close>)

lemma conn_run_forward:
  assumes "cbs_forward CB conn"
  shows "safeR (foldR (conn_exec tid K CB listen conn) ops w) (forward conn w)"
  by (rule foldR_safeR) (auto intro: safeR_mono[OF conn_exec_forward[OF assms]] forward_trans)

text \<open>What a state rules out.\<close>

lemma exec_disconnected:
  assumes "state_of conn w = Some Disconnected" and "opr \<in> {Establish, CloseOp, Destroy}"
  shows "\<exists>e. conn_exec tid K CB listen conn opr w = Inl e"
proof -
  obtain C where C: "conns w conn = Some C" "conn_state C = Disconnected"
    using assms(1) by (auto simp: state_of_def)
  with assms(2) show ?thesis
    by (cases "assertInLoopThread tid (conn_loop C) w")
      (auto simp: establishConnection_def handleClose_def destroyConnection_def)
qed

lemma exec_establish_once:
  assumes "state_of conn w = Some s" and "s \<noteq> Connecting"
  shows "\<exists>e. conn_exec tid K CB listen conn Establish w = Inl e"
proof -
  obtain C where C: "conns w conn = Some C" "conn_state C \<noteq> Connecting"
    using assms by (auto simp: state_of_def)
  then show ?thesis
    by (cases "assertInLoopThread tid (conn_loop C) w") (auto simp: establishConnection_def)
qed

lemma run_split:
  assumes "foldR f (xs @ x # ys) s = Inr s'" and "y \<in> set ys"
  obtains us vs s1 s2 s3 where "ys = us @ y # vs" and "foldR f xs s = Inr s1" and "f x s1 = Inr s2"
    and "foldR f us s2 = Inr s3" and "\<exists>s4. f y s3 = Inr s4"
proof -
  obtain us vs where ys: "ys = us @ y # vs" using assms(2) by (auto simp: in_set_conv_decomp)
  then show thesis using assms(1) that by (auto simp: foldR_append bindR_eq_Inr_iff)
qed


section \<open>Establishing, reading, closing, destroying\<close>

text \<open>A constructed connection whose channel has been given to its loop and is not registered yet.\<close>

definition conn_new :: "int \<Rightarrow> nat \<Rightarrow> ('k, 'z) tcp_world_scheme \<Rightarrow> tcp_connection \<Rightarrow> bool" where
  "conn_new tid conn w C \<longleftrightarrow> conns w conn = Some C \<and> conn_state C = Connecting \<and>
     (\<exists>ch. channels w (conn_channel C) = Some ch \<and> ch_loop ch = conn_loop C \<and>
        ch_owner_loop ch = Some (conn_loop C) \<and> ch_fd ch = conn_socket C \<and> ch_events ch = NoneEvent) \<and>
     loop_ready w (conn_loop C) \<and> idle tid (conn_loop C) w \<and>
     unregistered (the_poller w (conn_loop C)) (channels w) (conn_channel C) \<and>
     buf_inv (input_buffer C) \<and> buf_inv (output_buffer C) \<and> contents (output_buffer C) = []"

text \<open>Establishing leaves an open connection, polled for reading, and then calls the application.\<close>

lemma establish_eq:
  assumes new: "conn_new tid conn w C" and cb: "has_connection_cb C"
  shows "\<exists>w1. establishConnection tid CB conn w = connection_cb CB conn w1 \<and>
    conn_ok tid conn w1 (setState Connected C) \<and> kern w1 = kern w \<and>
    interest (the_poller w1 (conn_loop C)) (channels w1) =
      (interest (the_poller w (conn_loop C)) (channels w))(conn_socket C \<mapsto> ucast ReadEvent)"
proof -
  let ?C = "setState Connected C" and ?l = "conn_loop C" and ?c = "conn_channel C"
  let ?w = "put_conn conn ?C w"
  obtain ch where ch: "channels ?w ?c = Some ch" "ch_loop ch = ?l" "ch_owner_loop ch = Some ?l"
    "ch_fd ch = conn_socket C" "ch_events ch = NoneEvent"
    using new by (auto simp: conn_new_def)
  have pre: "loop_ready ?w ?l" "unregistered (the_poller ?w ?l) (channels ?w) ?c" "loop_tid ?w ?l = Some tid"
    "idle tid ?l ?w" "the_poller ?w ?l = the_poller w ?l"
    using new loop_ready_tid[of tid ?l ?w] by (auto simp: conn_new_def loop_ready_def the_poller_def)
  obtain w1 L p' i where w1: "set_mask (\<lambda>ev. ev OR ReadEvent) tid ?c ?w = Inr w1" "loops ?w ?l = Some L"
    "w1 = put_loop ?l (L\<lparr>loop_poller := Some p'\<rparr>) (?w\<lparr>channels := (channels ?w)(?c \<mapsto> ch\<lparr>ch_events := ch_events ch OR ReadEvent, ch_index := i\<rparr>)\<rparr>)"
    and post: "loop_ready w1 ?l" "the_poller w1 ?l = p'" "registered p' (channels w1) ?c"
      "interest p' (channels w1) = (interest (the_poller ?w ?l) (channels ?w))(conn_socket C \<mapsto> ucast (ch_events ch OR ReadEvent))"
    using set_mask_ok[OF pre(1,3) ch(1,2,3) disjI2[OF pre(2)], of "\<lambda>ev. ev OR ReadEvent"]
    unfolding okR_iff_ex ch(4) by blast
  have ev: "ch_events ch OR ReadEvent = ReadEvent" by (simp add: ch(5) NoneEvent_def)
  have "conn_at w1 conn ?C (ch\<lparr>ch_events := ReadEvent, ch_index := i\<rparr>)"
    using post(1-3) ch(1-4) by (simp add: conn_at_def w1(3) ev)
  moreover have "idle tid ?l w1" using pre(4) w1(2) by (auto simp: w1(3) idle_def loop_ctl_def)
  ultimately have "conn_ok tid conn w1 ?C"
    using new by (intro conn_okI) (auto simp: conn_new_def isWriting_def has_const)
  moreover have "establishConnection tid CB conn w = connection_cb CB conn w1"
    using new cb w1(1) by (auto simp: establishConnection_def mask_ops conn_new_def idle_def loop_ctl_def
      assertInLoopThread_def isInLoopThread_def call_member_def)
  moreover have "kern w1 = kern w" by (simp add: w1(3))
  ultimately show ?thesis using post(2,4) pre(5) ev by auto
qed


text \<open>After the peer closed, the channel wants no events and the server is told.\<close>

lemma handleClose_eq:
  assumes at: "conn_at w conn C ch" and idle: "idle tid (conn_loop C) w"
    and st: "conn_state C \<in> {Connected, Disconnecting}" and cb: "has_close_cb C"
  shows "\<exists>w1 i. handleClose tid CB conn w = close_cb CB conn w1 \<and>
    conn_at w1 conn C (ch\<lparr>ch_events := NoneEvent, ch_index := i\<rparr>) \<and> kern w1 = kern w \<and>
    loop_ctl w1 = loop_ctl w \<and> conns w1 = conns w \<and> tcp_world.more w1 = tcp_world.more w"
proof -
  obtain w1 i where w1: "set_mask (\<lambda>ev. NoneEvent) tid (conn_channel C) w = Inr w1"
    "conn_at w1 conn C (ch\<lparr>ch_events := NoneEvent, ch_index := i\<rparr>)" "kern w1 = kern w"
    "loop_ctl w1 = loop_ctl w" "conns w1 = conns w" "tcp_world.more w1 = tcp_world.more w"
    using conn_set_mask[OF at idle, of "\<lambda>ev. NoneEvent"] unfolding okR_iff_ex by blast
  have "handleClose tid CB conn w = close_cb CB conn w1"
    using w1(1) st cb at idle
    by (auto simp: handleClose_def mask_ops conn_at_def idle_def loop_ctl_def assertInLoopThread_def
        isInLoopThread_def call_member_def)
  then show ?thesis using w1 by blast
qed

text \<open>The connection callback of the application only looks at the connection, which exists.\<close>

definition cb_observes :: "('k, 'z) tcp_world_scheme conn_cbs \<Rightarrow> nat \<Rightarrow> bool" where
  "cb_observes CB conn \<longleftrightarrow> (\<forall>w. conns w conn \<noteq> None \<longrightarrow> connection_cb CB conn w = Inr w)"

lemma destroy_ok:
  assumes at: "conn_at w conn C ch" and tid: "loop_tid w (conn_loop C) = Some tid"
    and st: "conn_state C \<in> {Connected, Disconnecting}" and cb: "has_connection_cb C" "cb_observes CB conn"
  shows "okR (destroyConnection tid CB conn w) (\<lambda>w'. conns w' = (conns w)(conn \<mapsto> setState Disconnected C) \<and>
    loop_ready w' (conn_loop C) \<and> \<not> registered (the_poller w' (conn_loop C)) (channels w') (conn_channel C) \<and>
    interest (the_poller w' (conn_loop C)) (channels w') =
      (interest (the_poller w (conn_loop C)) (channels w))(conn_socket C := None) \<and>
    kern w' = kern w \<and> loop_ctl w' = loop_ctl w \<and> tcp_world.more w' = tcp_world.more w)"
proof -
  let ?C = "setState Disconnected C" and ?l = "conn_loop C" and ?c = "conn_channel C"
  let ?w = "put_conn conn ?C w"
  have ch: "channels ?w ?c = Some ch" "ch_loop ch = ?l" "ch_owner_loop ch = Some ?l" "ch_fd ch = conn_socket C"
    and pre: "loop_ready ?w ?l" "registered (the_poller ?w ?l) (channels ?w) ?c" "loop_tid ?w ?l = Some tid"
      "the_poller ?w ?l = the_poller w ?l"
    using at tid by (auto simp: conn_at_def loop_ready_def the_poller_def loop_tid_def)
  obtain w1 L p' i where w1: "set_mask (\<lambda>ev. NoneEvent) tid ?c ?w = Inr w1" "loops ?w ?l = Some L"
    "w1 = put_loop ?l (L\<lparr>loop_poller := Some p'\<rparr>) (?w\<lparr>channels := (channels ?w)(?c \<mapsto> ch\<lparr>ch_events := NoneEvent, ch_index := i\<rparr>)\<rparr>)"
    and post: "loop_ready w1 ?l" "the_poller w1 ?l = p'" "registered p' (channels w1) ?c"
      "interest p' (channels w1) = (interest (the_poller ?w ?l) (channels ?w))(conn_socket C \<mapsto> ucast NoneEvent)"
    using set_mask_ok[OF pre(1,3) ch(1,2,3) disjI1[OF pre(2)], of "\<lambda>ev. NoneEvent"]
    unfolding okR_iff_ex ch(4) by blast
  let ?ch = "ch\<lparr>ch_events := NoneEvent, ch_index := i\<rparr>"
  have ch1: "channels w1 ?c = Some ?ch" "ch_owner_loop ?ch = Some ?l" "isNoneEvent ?ch"
    "registered (the_poller w1 ?l) (channels w1) ?c" "ch_fd ?ch = conn_socket C"
    using ch(3,4) post by (simp_all add: w1(3) isNoneEvent_def)
  have t1: "loop_tid w1 ?l = Some tid" using pre(3) w1(2) by (simp add: w1(3) loop_tid_def)
  obtain w2 L1 p2 h2 where w2: "EventLoop_removeChannel tid ?l ?c w1 = Inr w2" "loops w1 ?l = Some L1"
    "w2 = put_loop ?l (L1\<lparr>loop_poller := Some p2\<rparr>) (w1\<lparr>channels := h2\<rparr>)"
    and post2: "loop_ready w2 ?l" "\<not> registered p2 h2 ?c"
      "interest p2 h2 = (interest (the_poller w1 ?l) (channels w1))(conn_socket C := None)"
    using removeChannel_ok[OF post(1) t1 ch1(1-4)] unfolding okR_iff_ex ch1(5) by blast
  have "connection_cb CB conn w1 = Inr w1" using cb(2) by (simp add: cb_observes_def w1(3) put_loop_def)
  then have "destroyConnection tid CB conn w = Inr w2"
    using w1(1) w2(1) st cb(1) at tid
    by (auto simp: destroyConnection_def mask_ops conn_at_def loop_tid_def assertInLoopThread_def
        isInLoopThread_def call_member_def)
  moreover have "loop_ctl w2 = loop_ctl w" "conns w2 = (conns w)(conn \<mapsto> ?C)" "kern w2 = kern w"
    "channels w2 = h2" "the_poller w2 ?l = p2" "tcp_world.more w2 = tcp_world.more w"
    using w1(2) w2(2)
    by (auto simp: w2(3) w1(3) loop_ctl_def fun_eq_iff the_poller_def put_loop_def put_conn_def)
  ultimately show ?thesis
    using post2 post(2,4) pre(4) by simp
qed

text \<open>A readable event: the received bytes go behind the unread ones, then the application is called.\<close>

definition with_input :: "nat \<Rightarrow> tcp_connection \<Rightarrow> buffer \<Rightarrow> 'k \<Rightarrow> ('k, 'z) tcp_world_scheme \<Rightarrow>
    ('k, 'z) tcp_world_scheme" where
  "with_input conn C b k w = put_conn conn (C\<lparr>input_buffer := b\<rparr>) (w\<lparr>kern := k\<rparr>)"

lemma handleRead_eq:
  assumes ok: "conn_ok tid conn w C" and K: "readv_contract K"
    and room: "length (buffer_vec (input_buffer C)) + extrabuf_size \<le> max_size"
    and sys: "sys_readv K (conn_socket C) [writableBytes (input_buffer C), extrabuf_size] (kern w) = ((n, data, e), k')"
  shows "\<exists>b. buf_inv b \<and> contents b = contents (input_buffer C) @ data \<and>
    conn_ok tid conn (with_input conn C b k' w) (C\<lparr>input_buffer := b\<rparr>) \<and>
    handleRead tid K CB conn t w = (let w1 = with_input conn C b k' w in
      if n > 0 then call_member (has_message_cb C) (message_cb CB conn t) w1
      else if n = 0 then handleClose tid CB conn w1 else handleError K conn w1)"
proof -
  obtain ch L where at: "conn_at w conn C ch" "isWriting ch \<longleftrightarrow> contents (output_buffer C) \<noteq> []"
    and bufs: "buf_inv (input_buffer C)" "buf_inv (output_buffer C)" and idle: "idle tid (conn_loop C) w"
    and c: "conns w conn = Some C" "channels w (conn_channel C) = Some ch" "getFd ch = conn_socket C"
    using ok by (rule conn_okE)
  have "readv_ok ((n, data, e), k') [writableBytes (input_buffer C), extrabuf_size]"
    using K sys unfolding readv_contract_def readv_ok_def prod.case by blast
  from readFd_ok[where readv = "sys_readv K" and fd = "conn_socket C", OF bufs(1) room sys this] obtain m saved b where
    rd: "readFd (sys_readv K) (conn_socket C) (input_buffer C) (kern w) = Inr ((m, saved, b), k')" "m = n"
      "buf_inv b" "contents b = contents (input_buffer C) @ data"
    by (auto simp: okR_iff_ex)
  let ?C = "C\<lparr>input_buffer := b\<rparr>" and ?w = "with_input conn C b k' w"
  have "conn_at ?w conn ?C ch"
    unfolding with_input_def using at(1) by (intro conn_at_put_conn[of _ _ C]) simp_all
  then have "conn_ok tid conn ?w ?C"
    using at(2) rd(3) bufs(2) idle by (intro conn_okI) (simp_all add: with_input_def)
  then show ?thesis
    using rd c by (intro exI[of _ b]) (simp add: handleRead_def with_input_def Let_def)
qed


section \<open>Properties\<close>

lemma demo_cbs_forward: "cbs_forward demo_cbs conn"
  by (simp add: cbs_forward_def demo_cbs_def)

lemma demo_conn_fields:
  "conn_state demo_conn = Connected" "has_connection_cb demo_conn" "has_message_cb demo_conn"
  "conn_loop demo_conn = 0" "conn_socket demo_conn = 7" "conns demo_world 3 = Some demo_conn"
  "input_buffer demo_conn = demo_buffer" "output_buffer demo_conn = demo_buffer" "conn_channel demo_conn = 2"
  by (simp_all add: demo_conn_def demo_world_def)

lemma demo_world_at: "conn_at demo_world 3 demo_conn demo_channel" "loop_tid demo_world 0 = Some 1"
  by (rule demo_at) (simp_all add: demo_world_def loop_tid_def demo_loop_def)

lemma demo_observes: "cb_observes demo_cbs conn"
  by (simp add: cb_observes_def demo_cbs_def)



text \<open>
  C10: a connection is destroyed at most once and established at most once: in every sequence of calls
  that returns, no \<open>establishConnection\<close>, \<open>handleClose\<close> or \<open>destroyConnection\<close> follows a
  \<open>destroyConnection\<close> (the code asserts it).
\<close>

theorem destroyed_once:
  assumes "cbs_forward CB conn" and "foldR (conn_exec tid K CB listen conn) (xs @ Destroy # ys) w = Inr w'"
  shows "set ys \<inter> {Establish, CloseOp, Destroy} = {}"
proof (rule ccontr)
  assume "set ys \<inter> {Establish, CloseOp, Destroy} \<noteq> {}"
  then obtain y where y: "y \<in> set ys" "y \<in> {Establish, CloseOp, Destroy}" by blast
  obtain us s1 s2 s3 where run: "conn_exec tid K CB listen conn Destroy s1 = Inr s2"
    "foldR (conn_exec tid K CB listen conn) us s2 = Inr s3" "\<exists>s4. conn_exec tid K CB listen conn y s3 = Inr s4"
    using assms(2) y(1) by (rule run_split)
  have "state_of conn s2 = Some Disconnected"
    using destroy_forward[OF assms(1), of tid s1] run(1) by simp
  then have "state_of conn s3 = Some Disconnected"
    using conn_run_forward[OF assms(1), of tid K listen us s2] run(2)
    by (auto simp: forward_def option_rel_Some1 dest: life_final)
  then show False using exec_disconnected[OF _ y(2), of conn s3 tid K CB listen] run(3) by auto
qed

theorem destroyed_once_witness:
  "\<exists>w'. foldR (conn_exec 1 sim_ops demo_cbs (\<lambda>a. Inr) 3) ([] @ Destroy # [SendOp ''x'']) demo_world = Inr w' \<and>
    set [SendOp ''x''] \<inter> {Establish, CloseOp, Destroy} = {}"
proof -
  obtain w1 where w1: "destroyConnection 1 demo_cbs 3 demo_world = Inr w1"
    "conns w1 = (conns demo_world)(3 \<mapsto> setState Disconnected demo_conn)"
    using destroy_ok[of demo_world 3 demo_conn demo_channel 1 demo_cbs] demo_world_at demo_observes
    by (auto simp: demo_conn_fields okR_iff_ex)
  then have "foldR (conn_exec 1 sim_ops demo_cbs (\<lambda>a. Inr) 3) ([] @ Destroy # [SendOp ''x'']) demo_world = Inr w1"
    by (simp add: send_def)
  from destroyed_once[OF demo_cbs_forward this] this show ?thesis by blast
qed

text \<open>
  \<open>establishConnection\<close> makes a constructed connection open: its state is Connected, its channel is
  registered with the poller for reading and nothing else, no byte is sent, and only then is the
  connection callback called.
\<close>

theorem establish_opens:
  assumes "conn_new tid conn w C" and "has_connection_cb C"
  shows "\<exists>w1. establishConnection tid CB conn w = connection_cb CB conn w1 \<and>
    conn_ok tid conn w1 (setState Connected C) \<and> kern w1 = kern w \<and>
    interest (the_poller w1 (conn_loop C)) (channels w1) =
      (interest (the_poller w (conn_loop C)) (channels w))(conn_socket C \<mapsto> ucast ReadEvent)"
  using assms by (rule establish_eq)

definition demo_new_world :: "sim tcp_world" where
  "demo_new_world = demo_world\<lparr>channels := [2 \<mapsto> demo_channel\<lparr>ch_events := NoneEvent, ch_index := - 1\<rparr>],
     loops := [0 \<mapsto> demo_loop\<lparr>loop_poller := Some Poller_ctor\<rparr>], conns := [3 \<mapsto> setState Connecting demo_conn]\<rparr>"

lemma demo_new: "conn_new 1 3 demo_new_world (setState Connecting demo_conn)"
proof -
  have "loop_ready demo_new_world 0"
    by (simp add: demo_new_world_def loop_ready_def table_inv_def poller_inv_ctor[unfolded Poller_ctor_def] events_synced_def at_slot_def Poller_ctor_def)
  then show ?thesis
    by (simp add: conn_new_def demo_conn_fields)
      (simp add: demo_new_world_def demo_channel_def idle_def loop_ctl_def demo_loop_def unregistered_def
        the_poller_def Poller_ctor_def)
qed

theorem establish_opens_witness:
  "\<exists>w1. establishConnection 1 demo_cbs 3 demo_new_world = connection_cb demo_cbs 3 w1 \<and>
    conn_ok 1 3 w1 (setState Connected (setState Connecting demo_conn))"
  using establish_opens[OF demo_new, of demo_cbs] by (auto simp: setState_def demo_conn_def)

text \<open>
  \<open>destroyConnection\<close> of an open or half-closed connection, with a connection callback that only
  observes, returns; the connection is Disconnected, its descriptor is off the poller's table and the
  rows of all other descriptors are unchanged.
\<close>

theorem destroy_unregisters:
  assumes "conn_at w conn C ch" and "loop_tid w (conn_loop C) = Some tid"
    and "conn_state C \<in> {Connected, Disconnecting}" and "has_connection_cb C" and "cb_observes CB conn"
  shows "okR (destroyConnection tid CB conn w) (\<lambda>w'. conns w' = (conns w)(conn \<mapsto> setState Disconnected C) \<and>
    loop_ready w' (conn_loop C) \<and> \<not> registered (the_poller w' (conn_loop C)) (channels w') (conn_channel C) \<and>
    interest (the_poller w' (conn_loop C)) (channels w') =
      (interest (the_poller w (conn_loop C)) (channels w))(conn_socket C := None) \<and> kern w' = kern w)"
  using destroy_ok[OF assms] by (rule okR_mono) blast

theorem destroy_unregisters_witness:
  "okR (destroyConnection 1 demo_cbs 3 demo_world) (\<lambda>w'. conns w' = (conns demo_world)(3 \<mapsto> setState Disconnected demo_conn) \<and>
    interest (the_poller w' 0) (channels w') = (interest (the_poller demo_world 0) (channels demo_world))(7 := None))"
  using destroy_unregisters[of demo_world 3 demo_conn demo_channel 1 demo_cbs] demo_world_at demo_observes
  by (auto simp: demo_conn_fields elim!: okR_mono)

text \<open>
  C13: a readable event delivers: whatever \<open>readv\<close> returns is behind the unread bytes of the input
  buffer, in order, and the connection is still consistent; if bytes came, the message callback is
  called, at end of file \<open>handleClose\<close> runs, and on error \<open>handleError\<close>.
\<close>

theorem readable_delivers:
  assumes "conn_ok tid conn w C" and "readv_contract K"
    and "length (buffer_vec (input_buffer C)) + extrabuf_size \<le> max_size"
    and "sys_readv K (conn_socket C) [writableBytes (input_buffer C), extrabuf_size] (kern w) = ((n, data, e), k')"
  shows "\<exists>b. buf_inv b \<and> contents b = contents (input_buffer C) @ data \<and>
    conn_ok tid conn (with_input conn C b k' w) (C\<lparr>input_buffer := b\<rparr>) \<and>
    handleRead tid K CB conn t w = (let w1 = with_input conn C b k' w in
      if n > 0 then call_member (has_message_cb C) (message_cb CB conn t) w1
      else if n = 0 then handleClose tid CB conn w1 else handleError K conn w1)"
  using assms by (rule handleRead_eq)

theorem readable_delivers_witness:
  "\<exists>b w1. contents b = [] \<and> conn_ok 1 3 w1 (demo_conn\<lparr>input_buffer := b\<rparr>) \<and>
    handleRead 1 sim_ops demo_cbs 3 0 demo_world = handleClose 1 demo_cbs 3 w1"
proof -
  have room: "length (buffer_vec (input_buffer demo_conn)) + extrabuf_size \<le> max_size"
    by (simp add: demo_conn_def demo_buffer_def extrabuf_size_def max_size_def)
  have "sys_readv sim_ops (conn_socket demo_conn) [writableBytes (input_buffer demo_conn), extrabuf_size] (kern demo_world)
      = ((0, [], 0), sim_init\<lparr>sim_rx := (sim_rx sim_init)(7 := [])\<rparr>)"
    by (simp add: demo_conn_fields demo_world_def sim_ops_def sim_readv_def sim_init_def Let_def)
  from readable_delivers[OF demo_world_ok sim_readv_contract room this, of demo_cbs 0] show ?thesis
    by (auto simp: Let_def demo_conn_fields)
qed

end
