(* ===== verification/ThreadPool.thy ===== *)
theory ThreadPool
  imports EventLoop Sockets
begin

text \<open>
  \<open>class EventLoopThreadPool\<close> (\<open>src/src/include/event_loop_thread_pool.h\<close>,
  \<open>src/src/event_loop_thread_pool.cpp\<close>): the loops of the I/O threads, handed out in turn.
  \<open>EventLoopThread::startLoop\<close> is modelled by its effect once the new thread has published its loop:
  a new loop object that belongs to a new thread. The locale \<open>round_robin\<close> states what a dispenser
  of a fixed list promises; the pool is an instance of it.
\<close>

section \<open>State and operations\<close>

record thread_pool =
  base_loop :: nat
  pool_started :: bool
  num_threads :: int
  next_idx :: int
  pool_loops :: "nat list"

definition EventLoopThreadPool_ctor :: "nat \<Rightarrow> thread_pool" where
  "EventLoopThreadPool_ctor l =
     \<lparr>base_loop = l, pool_started = False, num_threads = 0, next_idx = 0, pool_loops = []\<rparr>"

definition pool_setThreadNum :: "int \<Rightarrow> thread_pool \<Rightarrow> thread_pool" where
  "pool_setThreadNum n p = p\<lparr>num_threads := n\<rparr>"

text \<open>
  \<open>startLoop\<close>: the thread is created, constructs its \<open>EventLoop\<close> at address \<open>l\<close> and publishes it;
  \<open>uninit\<close> is the indeterminate initial value of the loop's \<open>calling_pending_functors_\<close>.
\<close>

definition startLoop :: "'k netops \<Rightarrow> bool \<Rightarrow> nat \<Rightarrow> ('cb, 'f, 'k, 'z) reactor_scheme \<Rightarrow>
    ('cb, 'f, 'k, 'z) reactor_scheme" where
  "startLoop N uninit l w =
     (let (tid', k') = sys_clone N (kern w) in EventLoop_ctor tid' l uninit (w\<lparr>kern := k'\<rparr>))"

text \<open>The \<open>for\<close> loop of \<open>start\<close>; the loops get the addresses from \<open>a\<close> on.\<close>

fun start_threads :: "nat \<Rightarrow> 'k netops \<Rightarrow> bool \<Rightarrow> nat \<Rightarrow> ('cb, 'f, 'k, 'z) reactor_scheme \<Rightarrow>
    nat list \<times> ('cb, 'f, 'k, 'z) reactor_scheme" where
  "start_threads 0 N uninit a w = ([], w)"
| "start_threads (Suc n) N uninit a w =
     (let (ls, w') = start_threads n N uninit (Suc a) (startLoop N uninit a w) in (a # ls, w'))"

definition pool_start :: "int \<Rightarrow> 'k netops \<Rightarrow> bool \<Rightarrow> nat \<Rightarrow> thread_pool \<Rightarrow>
    ('cb, 'f, 'k, 'z) reactor_scheme \<Rightarrow> (thread_pool \<times> ('cb, 'f, 'k, 'z) reactor_scheme) res" where
  "pool_start tid N uninit a p w =
     check (\<not> pool_started p) (AssertFailed ''event_loop_thread_pool.cpp:17'')
     (bindR (assertInLoopThread tid (base_loop p) w) (\<lambda>_.
      let (ls, w') = start_threads (nat (num_threads p)) N uninit a w in
      Inr (p\<lparr>pool_started := True, pool_loops := pool_loops p @ ls\<rparr>, w')))"

text \<open>The index arithmetic of \<open>getNextLoop\<close>; \<open>loops_[next_]\<close> outside the vector is an error.\<close>

definition next_loop :: "thread_pool \<Rightarrow> (nat \<times> thread_pool) res" where
  "next_loop p =
     (if pool_loops p \<noteq> [] then
        check (0 \<le> next_idx p \<and> nat (next_idx p) < length (pool_loops p)) OutOfBounds
        (let l = pool_loops p ! nat (next_idx p); n = next_idx p + 1 in
         Inr (l, p\<lparr>next_idx := (if nat n \<ge> length (pool_loops p) then 0 else n)\<rparr>))
      else Inr (base_loop p, p))"

definition getNextLoop :: "int \<Rightarrow> thread_pool \<Rightarrow> ('cb, 'f, 'k, 'z) reactor_scheme \<Rightarrow> (nat \<times> thread_pool) res" where
  "getNextLoop tid p w = bindR (assertInLoopThread tid (base_loop p) w) (\<lambda>_. next_loop p)"


section \<open>Round robin\<close>

text \<open>\<open>deal next n s\<close>: the first \<open>n\<close> items a dispenser gives.\<close>

fun deal :: "('s \<Rightarrow> ('a \<times> 's) res) \<Rightarrow> nat \<Rightarrow> 's \<Rightarrow> ('a list \<times> 's) res" where
  "deal nxt 0 s = Inr ([], s)"
| "deal nxt (Suc n) s = bindR (nxt s) (\<lambda>(x, s'). bindR (deal nxt n s') (\<lambda>(xs, s''). Inr (x # xs, s'')))"

locale round_robin =
  fixes nxt :: "'s \<Rightarrow> ('a \<times> 's) res" and items :: "'s \<Rightarrow> 'a list" and pos :: "'s \<Rightarrow> nat"
    and wf :: "'s \<Rightarrow> bool"
  assumes next_ok: "wf s \<Longrightarrow> okR (nxt s) (\<lambda>(x, s'). wf s' \<and> items s' = items s \<and>
      x = items s ! pos s \<and> pos s' = Suc (pos s) mod length (items s))"
    and pos_less: "wf s \<Longrightarrow> pos s < length (items s)"
begin

text \<open>The items come in the order of the list, starting over at its end, for ever.\<close>

theorem deal_ok:
  "wf s \<Longrightarrow> okR (deal nxt n s) (\<lambda>(xs, s'). wf s' \<and> items s' = items s \<and>
     xs = map (\<lambda>i. items s ! ((pos s + i) mod length (items s))) [0..<n] \<and>
     pos s' = (pos s + n) mod length (items s))"
proof (induction n arbitrary: s)
  case 0
  then show ?case using pos_less by simp
next
  case (Suc n)
  obtain x s1 where s1: "nxt s = Inr (x, s1)" "wf s1" "items s1 = items s" "x = items s ! pos s"
    "pos s1 = Suc (pos s) mod length (items s)"
    using next_ok[OF Suc.prems] by (auto simp: okR_iff_ex)
  obtain xs s2 where s2: "deal nxt n s1 = Inr (xs, s2)" "wf s2" "items s2 = items s"
    "xs = map (\<lambda>i. items s ! ((pos s1 + i) mod length (items s))) [0..<n]"
    "pos s2 = (pos s1 + n) mod length (items s)"
    using Suc.IH[OF s1(2)] s1(3) by (auto simp: okR_iff_ex)
  have shift: "(pos s1 + i) mod length (items s) = (pos s + Suc i) mod length (items s)" for i
    by (simp add: s1(5) mod_simps)
  have "x # xs = map (\<lambda>i. items s ! ((pos s + i) mod length (items s))) [0..<Suc n]"
    unfolding s2(4) shift upt_conv_Cons[OF zero_less_Suc] list.map
    using pos_less[OF Suc.prems] by (simp add: s1(4) map_Suc_upt[symmetric] comp_def del: upt_Suc)
  then show ?case
    using s1 s2 shift[of n] by simp
qed

text \<open>Among any \<open>length\<close> consecutive items, every position of the list occurs once.\<close>

lemma deal_fair:
  assumes "wf s" and "deal nxt (length (items s)) s = Inr (xs, s')"
  shows "\<forall>x \<in> set (items s). x \<in> set xs"
proof
  fix x assume "x \<in> set (items s)"
  then obtain j where j: "j < length (items s)" "items s ! j = x" by (auto simp: in_set_conv_nth)
  let ?n = "length (items s)"
  let ?i = "(j + (?n - pos s)) mod ?n"
  have "(pos s + ?i) mod ?n = j"
    using j pos_less[OF assms(1)] by (simp add: mod_simps)
  moreover have "?i < ?n" using j(1) by (intro mod_less_divisor) linarith
  ultimately show "x \<in> set xs"
    using deal_ok[OF assms(1), of ?n] assms(2) j(2) by (auto intro!: rev_image_eqI[of ?i])
qed

end

text \<open>A started pool with at least one thread.\<close>

definition pool_wf :: "thread_pool \<Rightarrow> bool" where
  "pool_wf p \<longleftrightarrow> pool_loops p \<noteq> [] \<and> 0 \<le> next_idx p \<and> nat (next_idx p) < length (pool_loops p)"

interpretation pool: round_robin next_loop pool_loops "\<lambda>p. nat (next_idx p)" pool_wf
proof
  fix p assume wf: "pool_wf p"
  then show "nat (next_idx p) < length (pool_loops p)" by (simp add: pool_wf_def)
  have i: "nat (next_idx p + 1) = Suc (nat (next_idx p))" using wf by (auto simp: pool_wf_def)
  show "okR (next_loop p) (\<lambda>(x, s'). pool_wf s' \<and> pool_loops s' = pool_loops p \<and>
      x = pool_loops p ! nat (next_idx p) \<and> nat (next_idx s') = Suc (nat (next_idx p)) mod length (pool_loops p))"
    using wf by (auto simp: next_loop_def pool_wf_def Let_def wp i not_le le_Suc_eq)
qed


section \<open>Properties\<close>

definition demo_pool :: thread_pool where
  "demo_pool = \<lparr>base_loop = 0, pool_started = True, num_threads = 3, next_idx = 1, pool_loops = [10, 11, 12]\<rparr>"

lemma demo_pool_wf: "pool_wf demo_pool"
  by (simp add: pool_wf_def demo_pool_def)

text \<open>
  C25: connections are assigned round robin: the \<open>n\<close> next calls of \<open>getNextLoop\<close> on a started pool give
  its loops in order, starting over after the last one, for any \<open>n\<close>; the index never leaves the vector.
\<close>

theorem next_loops_round_robin:
  assumes "pool_wf p"
  shows "okR (deal next_loop n p) (\<lambda>(ls, p'). pool_wf p' \<and> pool_loops p' = pool_loops p \<and>
    ls = map (\<lambda>i. pool_loops p ! ((nat (next_idx p) + i) mod length (pool_loops p))) [0..<n])"
  using pool.deal_ok[OF assms, of n] by (auto elim!: okR_mono)

theorem next_loops_round_robin_witness:
  "okR (deal next_loop 4 demo_pool) (\<lambda>(ls, p'). ls = [11, 12, 10, 11])"
  using next_loops_round_robin[OF demo_pool_wf, of 4]
  by (auto simp: demo_pool_def upt_rec elim!: okR_mono)

end
