(* ===== verification/Acceptor.thy ===== *)
theory Acceptor
  imports TcpLifecycle ThreadPool
begin

text \<open>
  \<open>class Acceptor\<close> (\<open>src/src/include/acceptor.h\<close>, \<open>src/src/acceptor.cpp\<close>): the listening socket and
  its channel. The world gains the acceptors and a bump allocator for objects made by \<open>new\<close>. The
  callback for new connections is a function passed in, since the acceptor does not know the server.
\<close>

record acceptor =
  acc_loop :: nat
  acc_socket :: int
  acc_channel :: nat
  has_new_conn_cb :: bool
  acc_listenning :: bool

record 'k acc_world = "'k tcp_world" +
  next_addr :: nat
  acceptors :: "nat \<rightharpoonup> acceptor"

definition put_acceptor :: "nat \<Rightarrow> acceptor \<Rightarrow> ('k, 'z) acc_world_scheme \<Rightarrow> ('k, 'z) acc_world_scheme" where
  "put_acceptor a A w = w\<lparr>acceptors := (acceptors w)(a \<mapsto> A)\<rparr>"

text \<open>The constructor: the acceptor and the channel inside it take two addresses.\<close>

definition Acceptor_ctor :: "'k netops \<Rightarrow> nat \<Rightarrow> sockaddr_in \<Rightarrow> ('k, 'z) acc_world_scheme \<Rightarrow>
    nat \<times> ('k, 'z) acc_world_scheme" where
  "Acceptor_ctor N loop listen_addr w =
     (let a = next_addr w; c = Suc a;
          (sockfd, k1) = createNonblockingOrDie N (kern w);
          k2 = bindAddress N sockfd listen_addr (setReuseAddr N sockfd True k1);
          ch = setReadCallback (AcceptorHandleRead a) (Channel_ctor loop sockfd);
          A = \<lparr>acc_loop = loop, acc_socket = sockfd, acc_channel = c, has_new_conn_cb = False,
               acc_listenning = False\<rparr> in
      (a, put_acceptor a A (put_channel c ch (w\<lparr>kern := k2, next_addr := Suc c\<rparr>))))"

definition setNewConnectionCallback :: "nat \<Rightarrow> ('k, 'z) acc_world_scheme \<Rightarrow> ('k, 'z) acc_world_scheme res" where
  "setNewConnectionCallback a w =
     bindR (deref (acceptors w) a) (\<lambda>A. Inr (put_acceptor a (A\<lparr>has_new_conn_cb := True\<rparr>) w))"

definition Acceptor_listen :: "int \<Rightarrow> 'k netops \<Rightarrow> nat \<Rightarrow> ('k, 'z) acc_world_scheme \<Rightarrow>
    ('k, 'z) acc_world_scheme res" where
  "Acceptor_listen tid N a w =
     bindR (deref (acceptors w) a) (\<lambda>A.
     bindR (assertInLoopThread tid (acc_loop A) w) (\<lambda>_.
     let w1 = put_acceptor a (A\<lparr>acc_listenning := True\<rparr>) w in
     enableReading tid (acc_channel A) (w1\<lparr>kern := Socket_listen N (acc_socket A) (kern w1)\<rparr>)))"

definition Acceptor_handleRead :: "int \<Rightarrow> 'k sysops \<Rightarrow> 'k netops \<Rightarrow>
    (int \<Rightarrow> sockaddr_in \<Rightarrow> ('k, 'z) acc_world_scheme \<Rightarrow> ('k, 'z) acc_world_scheme res) \<Rightarrow> nat \<Rightarrow>
    ('k, 'z) acc_world_scheme \<Rightarrow> ('k, 'z) acc_world_scheme res" where
  "Acceptor_handleRead tid K N new_conn_cb a w =
     bindR (deref (acceptors w) a) (\<lambda>A.
     bindR (assertInLoopThread tid (acc_loop A) w) (\<lambda>_.
     let ((connfd, peer_addr), k') = Socket_accept N (acc_socket A) (InetAddress_port 0) (kern w);
         w1 = w\<lparr>kern := k'\<rparr> in
     if connfd \<ge> 0 then
       if has_new_conn_cb A then new_conn_cb connfd peer_addr w1
       else Inr (w1\<lparr>kern := sockets_close K connfd (kern w1)\<rparr>)
     else Inr w1))"

text \<open>
  A descriptor that \<open>accept\<close> returns is handed to the callback, or closed when there is none: it is
  never leaked; nothing else happens when \<open>accept\<close> fails.
\<close>

lemma Acceptor_handleRead_cases:
  assumes A: "acceptors w a = Some A" and L: "loops w (acc_loop A) = Some L" "thread_id L = tid"
    and acc: "sys_accept4 N (acc_socket A) (kern w) = ((connfd, peer, e), k')"
  shows "Acceptor_handleRead tid K N cb a w =
    (if connfd < 0 then Inr (w\<lparr>kern := k'\<rparr>)
     else if has_new_conn_cb A then cb connfd peer (w\<lparr>kern := k'\<rparr>)
     else Inr (w\<lparr>kern := snd (sys_close K connfd k')\<rparr>))"
  using assms
  by (simp add: Acceptor_handleRead_def assertInLoopThread_def isInLoopThread_def
      Socket_accept_eq[OF acc] sockets_close_def)


section \<open>Properties\<close>

definition demo_acc_world :: "sim acc_world" where
  "demo_acc_world = tcp_world.extend demo_world \<lparr>next_addr = 20,
     acceptors = [5 \<mapsto> \<lparr>acc_loop = 0, acc_socket = 3, acc_channel = 6, has_new_conn_cb = False, acc_listenning = True\<rparr>]\<rparr>"

text \<open>
  The acceptor never leaks a descriptor: on a readable event in its thread, a descriptor that
  \<open>accept\<close> returns is handed to the new-connection callback, with the peer's address, or closed when
  there is no callback; when \<open>accept\<close> fails, nothing else happens.
\<close>

theorem accepted_fd_not_leaked:
  assumes "acceptors w a = Some A" and "loops w (acc_loop A) = Some L" and "thread_id L = tid"
    and "sys_accept4 N (acc_socket A) (kern w) = ((connfd, peer, e), k')"
  shows "Acceptor_handleRead tid K N cb a w =
    (if connfd < 0 then Inr (w\<lparr>kern := k'\<rparr>)
     else if has_new_conn_cb A then cb connfd peer (w\<lparr>kern := k'\<rparr>)
     else Inr (w\<lparr>kern := snd (sys_close K connfd k')\<rparr>))"
  using assms by (rule Acceptor_handleRead_cases)

theorem accepted_fd_not_leaked_witness:
  "Acceptor_handleRead 1 sim_ops sim_net (\<lambda>fd peer. Inr) 5 demo_acc_world =
    Inr (demo_acc_world\<lparr>kern := snd (sys_close sim_ops 7 sim_init)\<rparr>)"
proof -
  have w: "acceptors demo_acc_world 5 = Some \<lparr>acc_loop = 0, acc_socket = 3, acc_channel = 6, has_new_conn_cb = False, acc_listenning = True\<rparr>"
    "loops demo_acc_world 0 = Some demo_loop" "kern demo_acc_world = sim_init" "thread_id demo_loop = 1"
    by (simp_all add: demo_acc_world_def demo_world_def tcp_world.defs demo_loop_def)
  show ?thesis
    using accepted_fd_not_leaked[OF w(1), of demo_loop 1 sim_net 7 "InetAddress_port 5000" 0 sim_init sim_ops "\<lambda>fd peer. Inr"] w
    by (simp add: sim_net_def)
qed

end
