(* ===== verification/TcpServer.thy ===== *)
theory TcpServer
  imports Acceptor
begin

text \<open>
  \<open>class TcpServer\<close> (\<open>src/src/include/tcp_server.h\<close>, \<open>src/src/tcp_server.cpp\<close>): it owns the acceptor,
  the thread pool and the map from names to connections. \<open>newConnection\<close> is split where the code
  calls \<open>establishConnection\<close>: \<open>register_connection\<close> is everything before that call.
\<close>

section \<open>State and operations\<close>

record tcp_server =
  srv_loop :: nat
  srv_name :: string
  srv_acceptor :: nat
  srv_pool :: thread_pool
  srv_has_connection_cb :: bool
  srv_has_message_cb :: bool
  srv_has_write_cmpl_cb :: bool
  srv_started :: bool
  next_conn_id :: int
  connections :: "string \<rightharpoonup> nat"

record 'k server_world = "'k acc_world" +
  servers :: "nat \<rightharpoonup> tcp_server"

definition put_server :: "nat \<Rightarrow> tcp_server \<Rightarrow> ('k, 'z) server_world_scheme \<Rightarrow> ('k, 'z) server_world_scheme" where
  "put_server s S w = w\<lparr>servers := (servers w)(s \<mapsto> S)\<rparr>"

definition TcpServer_ctor :: "'k netops \<Rightarrow> nat \<Rightarrow> sockaddr_in \<Rightarrow> nat \<Rightarrow> ('k, 'z) server_world_scheme \<Rightarrow>
    ('k, 'z) server_world_scheme res" where
  "TcpServer_ctor N loop listen_addr s w =
     (let (a, w1) = Acceptor_ctor N loop listen_addr w;
          S = \<lparr>srv_loop = loop, srv_name = toHostPort listen_addr, srv_acceptor = a,
               srv_pool = EventLoopThreadPool_ctor loop, srv_has_connection_cb = False,
               srv_has_message_cb = False, srv_has_write_cmpl_cb = False, srv_started = False,
               next_conn_id = 1, connections = Map.empty\<rparr> in
      setNewConnectionCallback a (put_server s S w1))"

definition srv_setConnectionCallback :: "bool \<Rightarrow> nat \<Rightarrow> ('k, 'z) server_world_scheme \<Rightarrow>
    ('k, 'z) server_world_scheme res" where
  "srv_setConnectionCallback cb s w =
     bindR (deref (servers w) s) (\<lambda>S. Inr (put_server s (S\<lparr>srv_has_connection_cb := cb\<rparr>) w))"

definition srv_setMessageCallback :: "bool \<Rightarrow> nat \<Rightarrow> ('k, 'z) server_world_scheme \<Rightarrow>
    ('k, 'z) server_world_scheme res" where
  "srv_setMessageCallback cb s w =
     bindR (deref (servers w) s) (\<lambda>S. Inr (put_server s (S\<lparr>srv_has_message_cb := cb\<rparr>) w))"

definition srv_setWriteCallback :: "bool \<Rightarrow> nat \<Rightarrow> ('k, 'z) server_world_scheme \<Rightarrow>
    ('k, 'z) server_world_scheme res" where
  "srv_setWriteCallback cb s w =
     bindR (deref (servers w) s) (\<lambda>S. Inr (put_server s (S\<lparr>srv_has_write_cmpl_cb := cb\<rparr>) w))"

definition setThreadNum :: "int \<Rightarrow> nat \<Rightarrow> ('k, 'z) server_world_scheme \<Rightarrow> ('k, 'z) server_world_scheme res" where
  "setThreadNum n s w =
     bindR (deref (servers w) s) (\<lambda>S.
     check (0 \<le> n) (AssertFailed ''tcp_server.cpp:35'')
     (Inr (put_server s (S\<lparr>srv_pool := pool_setThreadNum n (srv_pool S)\<rparr>) w)))"

definition TcpServer_start :: "int \<Rightarrow> 'k sysops \<Rightarrow> 'k netops \<Rightarrow>
    (closure \<Rightarrow> ('k, 'z) server_world_scheme \<Rightarrow> ('k, 'z) server_world_scheme res) \<Rightarrow> bool \<Rightarrow> nat \<Rightarrow>
    ('k, 'z) server_world_scheme \<Rightarrow> ('k, 'z) server_world_scheme res" where
  "TcpServer_start tid K N run uninit s w =
     bindR (deref (servers w) s) (\<lambda>S.
     bindR (if \<not> srv_started S then
              (let S1 = S\<lparr>srv_started := True\<rparr> in
               bindR (pool_start tid N uninit (next_addr w) (srv_pool S) w) (\<lambda>(p, w1).
               Inr (put_server s (S1\<lparr>srv_pool := p\<rparr>)
                      (w1\<lparr>next_addr := next_addr w + nat (num_threads (srv_pool S))\<rparr>))))
            else Inr w) (\<lambda>w2.
     bindR (deref (servers w2) s) (\<lambda>S2.
     bindR (deref (acceptors w2) (srv_acceptor S2)) (\<lambda>A.
     if \<not> acc_listenning A then runInLoop tid K run (srv_loop S2) (AcceptorListen (srv_acceptor S2)) w2
     else Inr w2))))"

text \<open>\<open>snprintf(buf, 32, "#%d", next_conn_id_)\<close>.\<close>

definition conn_suffix :: "int \<Rightarrow> string" where
  "conn_suffix i = snprintf 32 (CHR ''#'' # show_int i)"

definition INT_MAX :: int where
  "INT_MAX = 2 ^ 31 - 1"

definition register_connection :: "int \<Rightarrow> 'k netops \<Rightarrow> nat \<Rightarrow> int \<Rightarrow> sockaddr_in \<Rightarrow>
    ('k, 'z) server_world_scheme \<Rightarrow> (nat \<times> ('k, 'z) server_world_scheme) res" where
  "register_connection tid N s sockfd peerAddr w =
     bindR (deref (servers w) s) (\<lambda>S.
     bindR (assertInLoopThread tid (srv_loop S) w) (\<lambda>_.
     let buf = conn_suffix (next_conn_id S) in
     check (next_conn_id S < INT_MAX) SignedOverflow
     (let connName = srv_name S @ buf;
          (localAddr, k1) = getLocalAddr N sockfd (kern w);
          w1 = w\<lparr>kern := k1\<rparr> in
      bindR (getNextLoop tid (srv_pool S) w1) (\<lambda>(io_loop, p).
      let conn = next_addr w1; c = Suc conn; w2 = w1\<lparr>next_addr := Suc c\<rparr> in
      bindR (TcpConnection_ctor io_loop connName sockfd localAddr peerAddr c conn w2) (\<lambda>w3.
      let S1 = S\<lparr>next_conn_id := next_conn_id S + 1, srv_pool := p,
                 connections := (connections S)(connName \<mapsto> conn)\<rparr> in
      bindR (deref (conns w3) conn) (\<lambda>C.
      let C1 = conn_setCloseCallback True
                 (conn_setWriteCallback (srv_has_write_cmpl_cb S)
                 (setMessageCallback (srv_has_message_cb S)
                 (setConnectionCallback (srv_has_connection_cb S) C))) in
      Inr (conn, put_server s S1 (put_conn conn C1 w3))))))))"

definition newConnection :: "int \<Rightarrow> 'k netops \<Rightarrow> ('k, 'z) server_world_scheme conn_cbs \<Rightarrow> nat \<Rightarrow> int \<Rightarrow>
    sockaddr_in \<Rightarrow> ('k, 'z) server_world_scheme \<Rightarrow> ('k, 'z) server_world_scheme res" where
  "newConnection tid N CB s sockfd peerAddr w =
     bindR (register_connection tid N s sockfd peerAddr w) (\<lambda>(conn, w1).
     establishConnection tid CB conn w1)"

definition removeConnection :: "int \<Rightarrow> 'k sysops \<Rightarrow> nat \<Rightarrow> nat \<Rightarrow> ('k, 'z) server_world_scheme \<Rightarrow>
    ('k, 'z) server_world_scheme res" where
  "removeConnection tid K s conn w =
     bindR (deref (servers w) s) (\<lambda>S.
     bindR (assertInLoopThread tid (srv_loop S) w) (\<lambda>_.
     bindR (deref (conns w) conn) (\<lambda>C.
     let n = (if connections S (conn_name C) = None then 0 else 1 :: nat);
         w1 = put_server s (S\<lparr>connections := (connections S)(conn_name C := None)\<rparr>) w in
     check (n = 1) (AssertFailed ''tcp_server.cpp:86'')
     (queueInLoop tid K (srv_loop S) (DestroyConnection conn) w1))))"

text \<open>The close callback of every connection of the server is \<open>removeConnection\<close>.\<close>

definition server_cbs :: "int \<Rightarrow> 'k sysops \<Rightarrow> nat \<Rightarrow> ('k, 'z) server_world_scheme conn_cbs \<Rightarrow>
    ('k, 'z) server_world_scheme conn_cbs" where
  "server_cbs tid K s CB = CB\<lparr>close_cb := removeConnection tid K s\<rparr>"


section \<open>Names\<close>

lemma show_int_inj: "0 \<le> i \<Longrightarrow> 0 \<le> j \<Longrightarrow> show_int i = show_int j \<longleftrightarrow> i = j"
  by (simp add: show_int_def show_nat_inj eq_nat_nat_iff)

text \<open>An \<open>int\<close> has at most ten digits, so the 32-byte buffer never truncates the suffix.\<close>

lemma conn_suffix_fits:
  assumes "0 \<le> i" and "i \<le> INT_MAX"
  shows "conn_suffix i = CHR ''#'' # show_int i"
proof -
  have "length (show_nat (nat i)) \<le> 10"
    using length_show_nat[of "nat i" 9] assms by (simp add: INT_MAX_def)
  then show ?thesis using assms by (simp add: conn_suffix_def snprintf_def show_int_def)
qed

lemma conn_suffix_inj:
  "0 \<le> i \<Longrightarrow> i \<le> INT_MAX \<Longrightarrow> 0 \<le> j \<Longrightarrow> j \<le> INT_MAX \<Longrightarrow> conn_suffix i = conn_suffix j \<longleftrightarrow> i = j"
  by (simp add: conn_suffix_fits show_int_inj)


section \<open>The connection map\<close>

lemma put_server_frame [simp]:
  "servers (put_server s S w) = (servers w)(s \<mapsto> S)"
  "conns (put_server s S w) = conns w" "channels (put_server s S w) = channels w"
  "loops (put_server s S w) = loops w" "kern (put_server s S w) = kern w"
  "next_addr (put_server s S w) = next_addr w" "acceptors (put_server s S w) = acceptors w"
  by (simp_all add: put_server_def)

lemma server_frame [simp]:
  "servers (put_loop l L w) = servers w" "servers (put_channel c ch w) = servers w"
  "servers (put_conn conn C w) = servers w"
  "next_addr (put_loop l L v) = next_addr v" "next_addr (put_channel c ch v) = next_addr v"
  "next_addr (put_conn conn C v) = next_addr v"
  by (simp_all add: put_loop_def put_channel_def put_conn_def)

text \<open>
  Every entry of the map names a live connection object by a name made from an earlier id; the
  addresses from \<open>next_addr\<close> on are unused.
\<close>

definition server_inv :: "nat \<Rightarrow> ('k, 'z) server_world_scheme \<Rightarrow> bool" where
  "server_inv s w \<longleftrightarrow> (\<exists>S. servers w s = Some S \<and> 1 \<le> next_conn_id S \<and> next_conn_id S \<le> INT_MAX \<and>
     (\<forall>nm conn. connections S nm = Some conn \<longrightarrow> (\<exists>i. 1 \<le> i \<and> i < next_conn_id S \<and>
        nm = srv_name S @ conn_suffix i \<and> conn < next_addr w \<and>
        (\<exists>C. conns w conn = Some C \<and> conn_name C = nm))) \<and>
     (\<forall>a \<ge> next_addr w. conns w a = None \<and> channels w a = None))"

lemma server_invD:
  assumes "server_inv s w" and "servers w s = Some S"
  shows "1 \<le> next_conn_id S" and "next_conn_id S \<le> INT_MAX"
    and "\<And>nm conn. connections S nm = Some conn \<Longrightarrow> \<exists>i C. 1 \<le> i \<and> i < next_conn_id S \<and>
        nm = srv_name S @ conn_suffix i \<and> conn < next_addr w \<and> conns w conn = Some C \<and> conn_name C = nm"
    and "\<And>a. next_addr w \<le> a \<Longrightarrow> conns w a = None \<and> channels w a = None"
  using assms by (auto simp: server_inv_def)

text \<open>The name of the next connection is new.\<close>

lemma next_name_fresh:
  assumes "server_inv s w" and "servers w s = Some S"
  shows "connections S (srv_name S @ conn_suffix (next_conn_id S)) = None"
proof (rule ccontr)
  assume "connections S (srv_name S @ conn_suffix (next_conn_id S)) \<noteq> None"
  then obtain conn where conn: "connections S (srv_name S @ conn_suffix (next_conn_id S)) = Some conn" by blast
  obtain i where "1 \<le> i" "i < next_conn_id S" "conn_suffix (next_conn_id S) = conn_suffix i"
    using server_invD(3)[OF assms conn] by auto
  moreover have "next_conn_id S \<le> INT_MAX" using assms by (rule server_invD)
  ultimately show False using conn_suffix_inj[of "next_conn_id S" i] by simp
qed

text \<open>\<open>TcpConnection\<close>'s constructor cannot fail.\<close>

lemma TcpConnection_ctor_ok:
  "\<exists>inb outb. TcpConnection_ctor l nm fd la pa c conn w = Inr (put_conn conn
     \<lparr>conn_loop = l, conn_name = nm, conn_state = Connecting, conn_socket = fd, conn_channel = c,
      conn_local_addr = la, conn_peer_addr = pa, has_connection_cb = False, has_write_cmpl_cb = False,
      has_message_cb = False, has_close_cb = False, input_buffer = inb, output_buffer = outb\<rparr>
     (put_channel c (setCloseCallback (ConnHandleClose conn) (setErrorCallback (ConnHandleError conn)
        (setWriteCallback (ConnHandleWrite conn) (setReadCallback (ConnHandleRead conn)
          (Channel_ctor l fd))))) w)) \<and>
     buf_inv inb \<and> contents inb = [] \<and> buf_inv outb \<and> contents outb = []"
proof -
  obtain b where b: "Buffer_ctor = Inr b" "buf_inv b" "contents b = []"
    using Buffer_ctor_ok by (auto simp: okR_iff_ex)
  show ?thesis
    unfolding TcpConnection_ctor_def b(1) bindR_Inr Let_def
    using b(2,3) by (intro exI[of _ b] conjI refl)
qed

lemma next_loop_exists:
  assumes "pool_loops p = [] \<or> pool_wf p"
  shows "\<exists>l p'. next_loop p = Inr (l, p') \<and> base_loop p' = base_loop p \<and> pool_loops p' = pool_loops p \<and>
    l \<in> set (base_loop p # pool_loops p) \<and> (pool_loops p = [] \<or> pool_wf p')"
  using assms by (auto simp: next_loop_def pool_wf_def Let_def)


definition fresh_channel :: "nat \<Rightarrow> nat \<Rightarrow> int \<Rightarrow> chan_cb channel" where
  "fresh_channel conn l fd = setCloseCallback (ConnHandleClose conn) (setErrorCallback (ConnHandleError conn)
     (setWriteCallback (ConnHandleWrite conn) (setReadCallback (ConnHandleRead conn) (Channel_ctor l fd))))"

text \<open>What \<open>register_connection\<close> does when it may run.\<close>

lemma register_connection_eq:
  assumes S: "servers w s = Some S" and L: "loops w (srv_loop S) = Some L" "thread_id L = tid"
    and base: "base_loop (srv_pool S) = srv_loop S" and id: "next_conn_id S < INT_MAX"
    and nl: "next_loop (srv_pool S) = Inr (io, p)"
  shows "\<exists>C la k1. register_connection tid N s fd peer w = Inr (next_addr w,
    put_server s (S\<lparr>next_conn_id := next_conn_id S + 1, srv_pool := p,
        connections := (connections S)(srv_name S @ conn_suffix (next_conn_id S) \<mapsto> next_addr w)\<rparr>)
      (put_conn (next_addr w) C (put_channel (Suc (next_addr w)) (fresh_channel (next_addr w) io fd)
        (w\<lparr>kern := k1, next_addr := Suc (Suc (next_addr w))\<rparr>)))) \<and>
    (la, k1) = getLocalAddr N fd (kern w) \<and>
    C = \<lparr>conn_loop = io, conn_name = srv_name S @ conn_suffix (next_conn_id S), conn_state = Connecting,
      conn_socket = fd, conn_channel = Suc (next_addr w), conn_local_addr = la, conn_peer_addr = peer,
      has_connection_cb = srv_has_connection_cb S, has_write_cmpl_cb = srv_has_write_cmpl_cb S,
      has_message_cb = srv_has_message_cb S, has_close_cb = True,
      input_buffer = input_buffer C, output_buffer = output_buffer C\<rparr> \<and>
    buf_inv (input_buffer C) \<and> contents (input_buffer C) = [] \<and>
    buf_inv (output_buffer C) \<and> contents (output_buffer C) = []"
proof -
  obtain la k1 where la: "getLocalAddr N fd (kern w) = (la, k1)" by (metis surj_pair)
  let ?nm = "srv_name S @ conn_suffix (next_conn_id S)"
  obtain inb outb where ctor: "TcpConnection_ctor io ?nm fd la peer (Suc (next_addr w)) (next_addr w)
      (w\<lparr>kern := k1, next_addr := Suc (Suc (next_addr w))\<rparr>) = Inr (put_conn (next_addr w)
     \<lparr>conn_loop = io, conn_name = ?nm, conn_state = Connecting, conn_socket = fd, conn_channel = Suc (next_addr w),
      conn_local_addr = la, conn_peer_addr = peer, has_connection_cb = False, has_write_cmpl_cb = False,
      has_message_cb = False, has_close_cb = False, input_buffer = inb, output_buffer = outb\<rparr>
     (put_channel (Suc (next_addr w)) (fresh_channel (next_addr w) io fd)
       (w\<lparr>kern := k1, next_addr := Suc (Suc (next_addr w))\<rparr>)))"
    and bufs: "buf_inv inb" "contents inb = []" "buf_inv outb" "contents outb = []"
    unfolding fresh_channel_def using TcpConnection_ctor_ok by blast
  have "getNextLoop tid (srv_pool S) (w\<lparr>kern := k1\<rparr>) = Inr (io, p)"
    using L base nl by (simp add: getNextLoop_def assertInLoopThread_def isInLoopThread_def)
  moreover have "assertInLoopThread tid (srv_loop S) w = Inr ()"
    using L by (simp add: assertInLoopThread_def isInLoopThread_def)
  ultimately show ?thesis
    using S id la bufs
    by (simp add: register_connection_def ctor Let_def conn_setters)
      (intro exI[of _ "\<lparr>conn_loop = io, conn_name = ?nm, conn_state = Connecting,
      conn_socket = fd, conn_channel = Suc (next_addr w), conn_local_addr = la, conn_peer_addr = peer,
      has_connection_cb = srv_has_connection_cb S, has_write_cmpl_cb = srv_has_write_cmpl_cb S,
      has_message_cb = srv_has_message_cb S, has_close_cb = True, input_buffer = inb, output_buffer = outb\<rparr>"],
      simp add: put_conn_def)
qed


lemma server_inv_register:
  assumes inv: "server_inv s w" and S: "servers w s = Some S" and id: "next_conn_id S < INT_MAX"
    and C: "conn_name C = srv_name S @ conn_suffix (next_conn_id S)"
  shows "server_inv s (put_server s (S\<lparr>next_conn_id := next_conn_id S + 1, srv_pool := p,
        connections := (connections S)(srv_name S @ conn_suffix (next_conn_id S) \<mapsto> next_addr w)\<rparr>)
      (put_conn (next_addr w) C (put_channel (Suc (next_addr w)) ch
        (w\<lparr>kern := k1, next_addr := Suc (Suc (next_addr w))\<rparr>))))"
proof -
  note D = server_invD[OF inv S]
  have old: "\<exists>i C'. 1 \<le> i \<and> i < next_conn_id S + 1 \<and> nm = srv_name S @ conn_suffix i \<and>
      conn < Suc (Suc (next_addr w)) \<and> ((conns w)(next_addr w \<mapsto> C)) conn = Some C' \<and> conn_name C' = nm"
    if entry: "connections S nm = Some conn" for nm conn
  proof -
    obtain i C' where "1 \<le> i" "i < next_conn_id S" "nm = srv_name S @ conn_suffix i" "conn < next_addr w"
      "conns w conn = Some C'" "conn_name C' = nm"
      using D(3)[OF entry] by blast
    then show ?thesis by (intro exI[of _ i] exI[of _ C']) simp
  qed
  have "connections S nm = Some conn \<or> nm = srv_name S @ conn_suffix (next_conn_id S) \<and> conn = next_addr w"
    if "((connections S)(srv_name S @ conn_suffix (next_conn_id S) \<mapsto> next_addr w)) nm = Some conn" for nm conn
    using that by (auto split: if_splits)
  moreover have "\<exists>i C'. 1 \<le> i \<and> i < next_conn_id S + 1 \<and>
      srv_name S @ conn_suffix (next_conn_id S) = srv_name S @ conn_suffix i \<and>
      next_addr w < Suc (Suc (next_addr w)) \<and> ((conns w)(next_addr w \<mapsto> C)) (next_addr w) = Some C' \<and>
      conn_name C' = srv_name S @ conn_suffix (next_conn_id S)"
    using D(1) C by (intro exI[of _ "next_conn_id S"] exI[of _ C]) simp
  ultimately have "\<exists>i C'. 1 \<le> i \<and> i < next_conn_id S + 1 \<and> nm = srv_name S @ conn_suffix i \<and>
      conn < Suc (Suc (next_addr w)) \<and> ((conns w)(next_addr w \<mapsto> C)) conn = Some C' \<and> conn_name C' = nm"
    if "((connections S)(srv_name S @ conn_suffix (next_conn_id S) \<mapsto> next_addr w)) nm = Some conn" for nm conn
    using that old by blast
  then show ?thesis
    unfolding server_inv_def using D(1,4) id by (simp del: fun_upd_apply) (auto simp: fun_upd_apply)
qed

text \<open>Removing a connection erases its name and queues its destruction, once.\<close>

lemma removeConnection_ok:
  assumes S: "servers w s = Some S" and idle: "idle tid (srv_loop S) w"
    and C: "conns w conn = Some C" and name: "connections S (conn_name C) = Some conn"
  shows "\<exists>L. loops w (srv_loop S) = Some L \<and> removeConnection tid K s conn w = Inr (put_loop (srv_loop S)
      (L\<lparr>pending_functors := pending_functors L @ [DestroyConnection conn]\<rparr>)
      (put_server s (S\<lparr>connections := (connections S)(conn_name C := None)\<rparr>) w))"
proof -
  obtain L where L: "loops w (srv_loop S) = Some L" "thread_id L = tid" "mutex_holder L = None"
    "\<not> calling_pending_functors L"
    using idle by (auto simp: idle_def loop_ctl_def)
  then show ?thesis
    using S C name queueInLoop_quiet[of "put_server s (S\<lparr>connections := (connections S)(conn_name C := None)\<rparr>) w"
      "srv_loop S" L tid K "DestroyConnection conn"]
    by (simp add: removeConnection_def assertInLoopThread_def isInLoopThread_def Let_def)
qed

lemma removeConnection_twice:
  assumes S: "servers w s = Some S" and tid: "assertInLoopThread tid (srv_loop S) w = Inr ()"
    and C: "conns w conn = Some C" and name: "connections S (conn_name C) = None"
  shows "removeConnection tid K s conn w = Inl (AssertFailed ''tcp_server.cpp:86'')"
  using assms by (simp add: removeConnection_def Let_def)


section \<open>Closing a connection\<close>

lemma servers_more: "tcp_world.more w' = tcp_world.more w \<Longrightarrow> servers w' = servers w"
  by (cases w; cases w') simp

lemma more_frame [simp]:
  "tcp_world.more (put_loop l L w) = tcp_world.more w"
  by (simp add: put_loop_def)

lemma conn_at_server [simp]: "conn_at (put_server s S w) conn C ch \<longleftrightarrow> conn_at w conn C ch"
  by (simp add: conn_at_def loop_ready_def the_poller_def)

text \<open>
  With one thread: the peer's close disables the channel, takes the name out of the map and queues
  the destruction.
\<close>

lemma close_removes:
  assumes at: "conn_at w conn C ch" and idle: "idle tid (conn_loop C) w"
    and st: "conn_state C \<in> {Connected, Disconnecting}" and cb: "has_close_cb C"
    and S: "servers w s = Some S" "srv_loop S = conn_loop C" "connections S (conn_name C) = Some conn"
  shows "okR (handleClose tid (server_cbs tid K s CB) conn w) (\<lambda>w'. \<exists>i.
    conn_at w' conn C (ch\<lparr>ch_events := NoneEvent, ch_index := i\<rparr>) \<and> kern w' = kern w \<and>
    idle tid (conn_loop C) w' \<and> queue_of w' (conn_loop C) = queue_of w (conn_loop C) @ [DestroyConnection conn] \<and>
    conns w' = conns w \<and>
    servers w' = (servers w)(s \<mapsto> S\<lparr>connections := (connections S)(conn_name C := None)\<rparr>))"
proof -
  obtain w1 i where w1: "handleClose tid (server_cbs tid K s CB) conn w = removeConnection tid K s conn w1"
    and at1: "conn_at w1 conn C (ch\<lparr>ch_events := NoneEvent, ch_index := i\<rparr>)"
    and rest: "kern w1 = kern w" "loop_ctl w1 = loop_ctl w" "conns w1 = conns w" "tcp_world.more w1 = tcp_world.more w"
    using handleClose_eq[OF at idle st cb, of "server_cbs tid K s CB"] by (auto simp: server_cbs_def)
  have S1: "servers w1 s = Some S" using S(1) servers_more[OF rest(4)] by simp
  have idle1: "idle tid (srv_loop S) w1" using idle S(2) by (simp add: idle_ctl[OF rest(2)])
  have C1: "conns w1 conn = Some C" using at1 by (simp add: conn_at_def)
  let ?S = "S\<lparr>connections := (connections S)(conn_name C := None)\<rparr>"
  obtain L where L: "loops w1 (srv_loop S) = Some L"
    and eq: "removeConnection tid K s conn w1 = Inr (put_loop (srv_loop S)
      (L\<lparr>pending_functors := pending_functors L @ [DestroyConnection conn]\<rparr>) (put_server s ?S w1))"
    using removeConnection_ok[OF S1 idle1 C1 S(3), of K] by blast
  have "conn_at (put_loop (srv_loop S) (L\<lparr>pending_functors := pending_functors L @ [DestroyConnection conn]\<rparr>)
      (put_server s ?S w1)) conn C (ch\<lparr>ch_events := NoneEvent, ch_index := i\<rparr>)"
    using at1 L by (intro conn_at_queue) simp_all
  moreover have "idle tid (conn_loop C) (put_loop (srv_loop S)
      (L\<lparr>pending_functors := pending_functors L @ [DestroyConnection conn]\<rparr>) (put_server s ?S w1))"
    using idle1 L S(2) by (auto simp: idle_def loop_ctl_def)
  moreover have "pending_functors L = queue_of w (conn_loop C)"
    using L S(2) queue_of_ctl[OF rest(2), of "conn_loop C"] by (simp add: queue_of_def)
  ultimately show ?thesis
    unfolding w1 eq using rest servers_more[OF rest(4)] S(2)
    by (auto simp: queue_of_def intro!: exI[of _ i])
qed


lemma conn_at_ctl:
  assumes "conn_at w conn C ch" and "loops w l = Some L" and "loop_poller L' = loop_poller L"
  shows "conn_at (put_loop l L' w) conn C ch"
  using assms by (auto simp: conn_at_def loop_ready_def the_poller_def)

text \<open>The next batch of the loop destroys the connection and takes its descriptor off the poller.\<close>

lemma batch_destroys:
  assumes at: "conn_at w conn C ch" and idle: "idle tid (conn_loop C) w"
    and q: "queue_of w (conn_loop C) = [DestroyConnection conn]"
    and st: "conn_state C \<in> {Connected, Disconnecting}" and cb: "has_connection_cb C" "cb_observes CB conn"
  shows "okR (doPendingFunctors tid (run_closure tid K CB listen) (conn_loop C) w) (\<lambda>w'.
    conns w' conn = Some (setState Disconnected C) \<and>
    interest (the_poller w' (conn_loop C)) (channels w') =
      (interest (the_poller w (conn_loop C)) (channels w))(conn_socket C := None) \<and>
    loop_ready w' (conn_loop C) \<and> idle tid (conn_loop C) w' \<and> queue_of w' (conn_loop C) = [] \<and>
    tcp_world.more w' = tcp_world.more w \<and> kern w' = kern w)"
proof -
  let ?l = "conn_loop C"
  obtain L where L: "loops w ?l = Some L" "thread_id L = tid" "mutex_holder L = None" "pending_functors L = [DestroyConnection conn]"
    using idle q by (auto simp: idle_def loop_ctl_def queue_of_def)
  let ?b = "batch_start tid ?l L w"
  have atb: "conn_at ?b conn C ch" unfolding batch_start_def using at L(1) by (rule conn_at_ctl) simp
  have tb: "loop_tid ?b ?l = Some tid" using L(2) by (simp add: batch_start_def loop_tid_def)
  have pb: "the_poller ?b ?l = the_poller w ?l" "channels ?b = channels w" "kern ?b = kern w"
    "tcp_world.more ?b = tcp_world.more w"
    using L(1) by (simp_all add: batch_start_def the_poller_def)
  obtain w2 where w2: "destroyConnection tid CB conn ?b = Inr w2"
    and post: "conns w2 = (conns ?b)(conn \<mapsto> setState Disconnected C)" "loop_ready w2 ?l"
      "interest (the_poller w2 ?l) (channels w2) = (interest (the_poller ?b ?l) (channels ?b))(conn_socket C := None)"
      "kern w2 = kern ?b" "loop_ctl w2 = loop_ctl ?b" "tcp_world.more w2 = tcp_world.more ?b"
    using destroy_ok[OF atb tb st cb] unfolding okR_iff_ex by blast
  obtain L2 where L2: "loops w2 ?l = Some L2" "thread_id L2 = tid" "pending_functors L2 = []"
    using fun_cong[OF post(5), of ?l] L(2) by (auto simp: loop_ctl_def batch_start_def)
  let ?w = "put_loop ?l (L2\<lparr>calling_pending_functors := False, mutex_holder := None\<rparr>) w2"
  have "doPendingFunctors tid (run_closure tid K CB listen) ?l w = Inr ?w"
    using doPendingFunctors_eq[OF L(1,3), of tid "run_closure tid K CB listen"] L(4) w2 L2(1) by simp
  moreover have "the_poller ?w ?l = the_poller w2 ?l" "loop_ready ?w ?l" "idle tid ?l ?w" "queue_of ?w ?l = []"
    using L2 post(2) by (auto simp: the_poller_def loop_ready_def idle_def loop_ctl_def)
  ultimately show ?thesis
    using post pb by simp
qed

section \<open>Setting up connections\<close>

text \<open>
  \<open>establishConnection\<close> is called in the acceptor's thread: for a loop of another thread it aborts.
\<close>

lemma establish_other_thread:
  assumes "conns w conn = Some C" and "loops w (conn_loop C) = Some L" and "thread_id L \<noteq> tid"
  shows "establishConnection tid CB conn w = Inl NotInLoopThread"
  using assms by (simp add: establishConnection_def assertInLoopThread_def isInLoopThread_def)

text \<open>\<open>owner_loop_\<close> of a channel is never initialised, but registering reads it.\<close>

lemma establish_indeterminate:
  assumes "conns w conn = Some C" and "conn_state C = Connecting" and "loops w (conn_loop C) = Some L"
    and "thread_id L = tid" and "channels w (conn_channel C) = Some ch" and "ch_loop ch = conn_loop C"
    and "ch_owner_loop ch = None"
  shows "establishConnection tid CB conn w = Inl Indeterminate"
  using assms
  by (simp add: establishConnection_def assertInLoopThread_def isInLoopThread_def mask_ops set_mask_def
      Channel_update_def EventLoop_updateChannel_def getOwnerLoop_def)


section \<open>Properties\<close>

text \<open>The open connection of \<open>demo_world\<close> as the first connection of a server without I/O threads.\<close>

definition demo_server :: tcp_server where
  "demo_server = \<lparr>srv_loop = 0, srv_name = ''0.0.0.0:2007'', srv_acceptor = 5, srv_pool = EventLoopThreadPool_ctor 0,
     srv_has_connection_cb = True, srv_has_message_cb = True, srv_has_write_cmpl_cb = False, srv_started = True,
     next_conn_id = 2, connections = [''0.0.0.0:2007#1'' \<mapsto> 3]\<rparr>"

definition demo_server_world :: "sim server_world" where
  "demo_server_world = acc_world.extend demo_acc_world \<lparr>servers = [9 \<mapsto> demo_server]\<rparr>"

definition demo_server_cbs :: "sim server_world conn_cbs" where
  "demo_server_cbs = \<lparr>connection_cb = (\<lambda>conn. Inr), message_cb = (\<lambda>conn t. Inr), write_cmpl_cb = (\<lambda>conn. Inr), close_cb = (\<lambda>conn. Inr)\<rparr>"

lemma demo_server_world_fields:
  "channels demo_server_world = [2 \<mapsto> demo_channel]" "loops demo_server_world = [0 \<mapsto> demo_loop]"
  "conns demo_server_world = [3 \<mapsto> demo_conn]" "servers demo_server_world = [9 \<mapsto> demo_server]"
  "next_addr demo_server_world = 20" "kern demo_server_world = sim_init"
  by (simp_all add: demo_server_world_def demo_acc_world_def demo_world_def acc_world.defs tcp_world.defs)

lemma demo_server_fields:
  "srv_loop demo_server = 0" "srv_name demo_server = ''0.0.0.0:2007''" "next_conn_id demo_server = 2"
  "connections demo_server = [''0.0.0.0:2007#1'' \<mapsto> 3]" "srv_pool demo_server = EventLoopThreadPool_ctor 0"
  by (simp_all add: demo_server_def)

lemma demo_name: "''0.0.0.0:2007'' @ conn_suffix 1 = ''0.0.0.0:2007#1''"
  by (simp add: conn_suffix_def snprintf_def show_int_def show_nat.simps digit_def char_of_def bit_0)

lemma demo_server_inv: "server_inv 9 demo_server_world"
proof -
  have "conn_name demo_conn = ''0.0.0.0:2007#1''" by (simp add: demo_conn_def)
  then show ?thesis
    unfolding server_inv_def demo_server_world_fields
    by (auto simp: demo_server_fields INT_MAX_def demo_name[symmetric] intro!: exI[of _ 1] split: if_splits)
qed

text \<open>
  C24: accepting a connection gives it a name no open connection of the server has, \<open>name#id\<close>, enters it
  into the map under that name and leaves every other entry alone; the new object is in state Connecting
  with the accepted descriptor, and the invariant of the connection map is kept.
\<close>

theorem new_connection_gets_fresh_name:
  assumes "server_inv s w" and "servers w s = Some S" and "loops w (srv_loop S) = Some L" and "thread_id L = tid"
    and "base_loop (srv_pool S) = srv_loop S" and "next_conn_id S < INT_MAX"
    and "pool_loops (srv_pool S) = [] \<or> pool_wf (srv_pool S)"
  shows "okR (register_connection tid N s fd peer w) (\<lambda>(conn, w'). \<exists>S' C.
    let nm = srv_name S @ conn_suffix (next_conn_id S) in
    connections S nm = None \<and> conns w conn = None \<and> server_inv s w' \<and> servers w' s = Some S' \<and>
    connections S' = (connections S)(nm \<mapsto> conn) \<and> next_conn_id S' = next_conn_id S + 1 \<and>
    conns w' conn = Some C \<and> conn_name C = nm \<and> conn_socket C = fd \<and> conn_peer_addr C = peer \<and>
    conn_state C = Connecting \<and> conn_loop C \<in> set (srv_loop S # pool_loops (srv_pool S)))"
proof -
  obtain io p where nl: "next_loop (srv_pool S) = Inr (io, p)" "io \<in> set (srv_loop S # pool_loops (srv_pool S))"
    using next_loop_exists[OF assms(7)] assms(5) by auto
  let ?nm = "srv_name S @ conn_suffix (next_conn_id S)"
  let ?S = "S\<lparr>next_conn_id := next_conn_id S + 1, srv_pool := p, connections := (connections S)(?nm \<mapsto> next_addr w)\<rparr>"
  obtain C la k1 where eq: "register_connection tid N s fd peer w = Inr (next_addr w,
      put_server s ?S (put_conn (next_addr w) C (put_channel (Suc (next_addr w)) (fresh_channel (next_addr w) io fd)
        (w\<lparr>kern := k1, next_addr := Suc (Suc (next_addr w))\<rparr>))))"
    and C: "C = \<lparr>conn_loop = io, conn_name = ?nm, conn_state = Connecting,
      conn_socket = fd, conn_channel = Suc (next_addr w), conn_local_addr = la, conn_peer_addr = peer,
      has_connection_cb = srv_has_connection_cb S, has_write_cmpl_cb = srv_has_write_cmpl_cb S,
      has_message_cb = srv_has_message_cb S, has_close_cb = True,
      input_buffer = input_buffer C, output_buffer = output_buffer C\<rparr>"
    using register_connection_eq[OF assms(2,3,4,5,6) nl(1), of N fd peer] by blast
  have f: "conn_loop C = io" "conn_name C = ?nm" "conn_state C = Connecting" "conn_socket C = fd" "conn_peer_addr C = peer"
    by (subst C, simp)+
  have "server_inv s (put_server s ?S (put_conn (next_addr w) C (put_channel (Suc (next_addr w))
      (fresh_channel (next_addr w) io fd) (w\<lparr>kern := k1, next_addr := Suc (Suc (next_addr w))\<rparr>))))"
    using assms(1,2,6) f(2) by (rule server_inv_register)
  then show ?thesis
    unfolding eq using next_name_fresh[OF assms(1,2)] server_invD(4)[OF assms(1,2), of "next_addr w"] f nl(2)
    by (simp add: Let_def)
qed

theorem new_connection_gets_fresh_name_witness:
  "okR (register_connection 1 sim_net 9 7 (InetAddress_port 5000) demo_server_world) (\<lambda>(conn, w').
    server_inv 9 w' \<and> (\<exists>C. conns w' conn = Some C \<and> conn_socket C = 7 \<and> conn_state C = Connecting))"
proof -
  have pre: "servers demo_server_world 9 = Some demo_server" "loops demo_server_world (srv_loop demo_server) = Some demo_loop"
    "thread_id demo_loop = 1" "base_loop (srv_pool demo_server) = srv_loop demo_server" "next_conn_id demo_server < INT_MAX"
    "pool_loops (srv_pool demo_server) = [] \<or> pool_wf (srv_pool demo_server)"
    by (simp_all add: demo_server_world_fields demo_server_fields demo_loop_def EventLoopThreadPool_ctor_def INT_MAX_def)
  show ?thesis
    using new_connection_gets_fresh_name[OF demo_server_inv pre, of sim_net 7 "InetAddress_port 5000"]
    by (rule okR_mono) (auto simp: Let_def)
qed

text \<open>
  The whole way down of a connection in a server without I/O threads: after the peer closed,
  \<open>handleClose\<close>, \<open>removeConnection\<close> and the next \<open>doPendingFunctors\<close> (with \<open>destroyConnection\<close>) all return;
  the name is out of the map, the connection is Disconnected, its descriptor is off the poller, other
  descriptors are not affected, and the loop is idle with an empty queue.
\<close>

theorem closed_connection_is_removed:
  assumes "conn_at w conn C ch" and "idle tid (conn_loop C) w" and "queue_of w (conn_loop C) = []"
    and "conn_state C \<in> {Connected, Disconnecting}" and "has_close_cb C" and "has_connection_cb C"
    and "cb_observes (server_cbs tid K s CB) conn"
    and "servers w s = Some S" and "srv_loop S = conn_loop C" and "connections S (conn_name C) = Some conn"
  shows "okR (bindR (handleClose tid (server_cbs tid K s CB) conn w)
      (doPendingFunctors tid (run_closure tid K (server_cbs tid K s CB) listen) (conn_loop C))) (\<lambda>w'.
    conns w' conn = Some (setState Disconnected C) \<and>
    servers w' s = Some (S\<lparr>connections := (connections S)(conn_name C := None)\<rparr>) \<and>
    interest (the_poller w' (conn_loop C)) (channels w') (conn_socket C) = None \<and>
    idle tid (conn_loop C) w' \<and> queue_of w' (conn_loop C) = [] \<and> kern w' = kern w)"
proof -
  obtain w1 i where w1: "handleClose tid (server_cbs tid K s CB) conn w = Inr w1"
    and at1: "conn_at w1 conn C (ch\<lparr>ch_events := NoneEvent, ch_index := i\<rparr>)"
    and rest: "kern w1 = kern w" "idle tid (conn_loop C) w1" "queue_of w1 (conn_loop C) = [DestroyConnection conn]"
      "servers w1 = (servers w)(s \<mapsto> S\<lparr>connections := (connections S)(conn_name C := None)\<rparr>)"
    using close_removes[OF assms(1,2,4,5,8,9,10), of K CB] assms(3) unfolding okR_iff_ex by auto
  have "okR (doPendingFunctors tid (run_closure tid K (server_cbs tid K s CB) listen) (conn_loop C) w1) (\<lambda>w'.
      conns w' conn = Some (setState Disconnected C) \<and>
      interest (the_poller w' (conn_loop C)) (channels w') =
        (interest (the_poller w1 (conn_loop C)) (channels w1))(conn_socket C := None) \<and>
      loop_ready w' (conn_loop C) \<and> idle tid (conn_loop C) w' \<and> queue_of w' (conn_loop C) = [] \<and>
      tcp_world.more w' = tcp_world.more w1 \<and> kern w' = kern w1)"
    using at1 rest(2,3) assms(4,6,7) by (rule batch_destroys)
  then show ?thesis
    unfolding w1 bindR_Inr by (rule okR_mono) (use rest in \<open>auto dest!: servers_more\<close>)
qed

theorem closed_connection_is_removed_witness:
  "okR (bindR (handleClose 1 (server_cbs 1 sim_ops 9 demo_server_cbs) 3 demo_server_world)
      (doPendingFunctors 1 (run_closure 1 sim_ops (server_cbs 1 sim_ops 9 demo_server_cbs) (\<lambda>a. Inr)) 0)) (\<lambda>w'.
    conns w' 3 = Some (setState Disconnected demo_conn) \<and> interest (the_poller w' 0) (channels w') 7 = None)"
proof -
  have at: "conn_at demo_server_world 3 demo_conn demo_channel"
    by (rule demo_at) (simp_all add: demo_server_world_fields)
  have idle: "idle 1 (conn_loop demo_conn) demo_server_world" "queue_of demo_server_world (conn_loop demo_conn) = []"
    using demo_idle[of demo_server_world] by (simp_all add: demo_server_world_fields demo_conn_fields queue_of_def demo_loop_def)
  have c: "conn_state demo_conn \<in> {Connected, Disconnecting}" "has_close_cb demo_conn" "has_connection_cb demo_conn"
    "cb_observes (server_cbs 1 sim_ops 9 demo_server_cbs) 3" "servers demo_server_world 9 = Some demo_server"
    "srv_loop demo_server = conn_loop demo_conn" "connections demo_server (conn_name demo_conn) = Some 3"
    by (simp_all add: demo_conn_def cb_observes_def server_cbs_def demo_server_cbs_def demo_server_world_fields demo_server_fields)
  show ?thesis
    using closed_connection_is_removed[OF at idle c, of "\<lambda>a. Inr"]
    by (auto simp: demo_conn_fields elim!: okR_mono)
qed

text \<open>
  C38: with I/O threads no connection can be accepted: \<open>newConnection\<close> calls \<open>establishConnection\<close> in the
  acceptor's thread, which aborts because the connection belongs to the loop of another thread.
\<close>

theorem io_threads_abort_new_connection:
  assumes "servers w s = Some S" and "loops w (srv_loop S) = Some L" and "thread_id L = tid"
    and "base_loop (srv_pool S) = srv_loop S" and "next_conn_id S < INT_MAX" and "pool_wf (srv_pool S)"
    and "\<forall>l \<in> set (pool_loops (srv_pool S)). \<exists>M. loops w l = Some M \<and> thread_id M \<noteq> tid"
  shows "newConnection tid N CB s fd peer w = Inl NotInLoopThread"
proof -
  obtain p where nl: "next_loop (srv_pool S) = Inr (pool_loops (srv_pool S) ! nat (next_idx (srv_pool S)), p)"
    using pool.next_ok[OF assms(6)] by (auto simp: okR_iff_ex)
  let ?io = "pool_loops (srv_pool S) ! nat (next_idx (srv_pool S))"
  have "?io \<in> set (pool_loops (srv_pool S))" using assms(6) by (simp add: pool_wf_def)
  then obtain M where M: "loops w ?io = Some M" "thread_id M \<noteq> tid" using assms(7) by blast
  obtain C la k1 where eq: "register_connection tid N s fd peer w = Inr (next_addr w,
      put_server s (S\<lparr>next_conn_id := next_conn_id S + 1, srv_pool := p,
        connections := (connections S)(srv_name S @ conn_suffix (next_conn_id S) \<mapsto> next_addr w)\<rparr>)
      (put_conn (next_addr w) C (put_channel (Suc (next_addr w)) (fresh_channel (next_addr w) ?io fd)
        (w\<lparr>kern := k1, next_addr := Suc (Suc (next_addr w))\<rparr>))))" and C: "conn_loop C = ?io"
    using register_connection_eq[OF assms(1-5) nl, of N fd peer] by (metis tcp_connection.select_convs(1))
  show ?thesis
    unfolding newConnection_def eq bindR_Inr prod.case
    by (rule establish_other_thread[of _ _ C M]) (use M C in simp_all)
qed

theorem io_threads_abort_new_connection_witness:
  "newConnection 1 sim_net demo_server_cbs 9 7 (InetAddress_port 5000)
     (demo_server_world\<lparr>servers := [9 \<mapsto> demo_server\<lparr>srv_pool := (EventLoopThreadPool_ctor 0)\<lparr>pool_loops := [10]\<rparr>\<rparr>],
       loops := [0 \<mapsto> demo_loop, 10 \<mapsto> demo_loop\<lparr>thread_id := 2\<rparr>]\<rparr>) = Inl NotInLoopThread"
  by (rule io_threads_abort_new_connection[where S = "demo_server\<lparr>srv_pool := (EventLoopThreadPool_ctor 0)\<lparr>pool_loops := [10]\<rparr>\<rparr>"
        and L = demo_loop])
    (simp_all add: demo_server_fields demo_loop_def EventLoopThreadPool_ctor_def INT_MAX_def pool_wf_def)

text \<open>
  Without I/O threads a new connection is registered and then registering its channel reads
  \<open>owner_loop_\<close>, which no code ever sets: the outcome is undefined.
\<close>

theorem new_connection_reads_uninitialised:
  assumes "servers w s = Some S" and "loops w (srv_loop S) = Some L" and "thread_id L = tid"
    and "base_loop (srv_pool S) = srv_loop S" and "next_conn_id S < INT_MAX" and "pool_loops (srv_pool S) = []"
  shows "newConnection tid N CB s fd peer w = Inl Indeterminate"
proof -
  have nl: "next_loop (srv_pool S) = Inr (srv_loop S, srv_pool S)" using assms(4,6) by (simp add: next_loop_def)
  obtain C la k1 where eq: "register_connection tid N s fd peer w = Inr (next_addr w,
      put_server s (S\<lparr>next_conn_id := next_conn_id S + 1, srv_pool := srv_pool S,
        connections := (connections S)(srv_name S @ conn_suffix (next_conn_id S) \<mapsto> next_addr w)\<rparr>)
      (put_conn (next_addr w) C (put_channel (Suc (next_addr w)) (fresh_channel (next_addr w) (srv_loop S) fd)
        (w\<lparr>kern := k1, next_addr := Suc (Suc (next_addr w))\<rparr>))))"
    and C: "conn_loop C = srv_loop S" "conn_state C = Connecting" "conn_channel C = Suc (next_addr w)"
    using register_connection_eq[OF assms(1-5) nl, of N fd peer]
    by (metis tcp_connection.select_convs(1) tcp_connection.select_convs(3) tcp_connection.select_convs(5))
  show ?thesis
    unfolding newConnection_def eq bindR_Inr prod.case
    by (rule establish_indeterminate[of _ _ C L _ "fresh_channel (next_addr w) (srv_loop S) fd"])
      (use assms(2,3) C in \<open>simp_all add: fresh_channel_def channel_access Channel_ctor_def\<close>)
qed

theorem new_connection_reads_uninitialised_witness:
  "newConnection 1 sim_net demo_server_cbs 9 7 (InetAddress_port 5000) demo_server_world = Inl Indeterminate"
  by (rule new_connection_reads_uninitialised[where S = demo_server and L = demo_loop])
    (simp_all add: demo_server_world_fields demo_server_fields demo_loop_def EventLoopThreadPool_ctor_def INT_MAX_def)


text \<open>
  A connection is closed once: if \<open>handleClose\<close> runs a second time before the loop has destroyed the
  connection, \<open>removeConnection\<close> finds no entry for its name and its assertion fails.
\<close>

theorem second_close_aborts:
  assumes "conn_at w conn C ch" and "idle tid (conn_loop C) w"
    and "conn_state C \<in> {Connected, Disconnecting}" and "has_close_cb C"
    and "servers w s = Some S" and "srv_loop S = conn_loop C" and "connections S (conn_name C) = Some conn"
  shows "bindR (handleClose tid (server_cbs tid K s CB) conn w) (handleClose tid (server_cbs tid K s CB) conn) =
    Inl (AssertFailed ''tcp_server.cpp:86'')"
proof -
  obtain w1 i where w1: "handleClose tid (server_cbs tid K s CB) conn w = Inr w1"
    and at1: "conn_at w1 conn C (ch\<lparr>ch_events := NoneEvent, ch_index := i\<rparr>)" and idle1: "idle tid (conn_loop C) w1"
    and srv1: "servers w1 = (servers w)(s \<mapsto> S\<lparr>connections := (connections S)(conn_name C := None)\<rparr>)"
    using close_removes[OF assms(1-7), of K CB] unfolding okR_iff_ex by blast
  obtain w2 where w2: "handleClose tid (server_cbs tid K s CB) conn w1 = removeConnection tid K s conn w2"
    and rest: "loop_ctl w2 = loop_ctl w1" "conns w2 = conns w1" "tcp_world.more w2 = tcp_world.more w1"
    using handleClose_eq[OF at1 idle1 assms(3,4), of "server_cbs tid K s CB"] by (auto simp: server_cbs_def)
  let ?S = "S\<lparr>connections := (connections S)(conn_name C := None)\<rparr>"
  have "idle tid (srv_loop ?S) w2" using idle1 assms(6) by (simp add: idle_ctl[OF rest(1)])
  then have t: "assertInLoopThread tid (srv_loop ?S) w2 = Inr ()"
    by (auto simp: idle_def loop_ctl_def assertInLoopThread_def isInLoopThread_def)
  have "servers w2 s = Some ?S" using servers_more[OF rest(3)] srv1 by simp
  moreover have "conns w2 conn = Some C" using at1 rest(2) by (simp add: conn_at_def)
  ultimately have "removeConnection tid K s conn w2 = Inl (AssertFailed ''tcp_server.cpp:86'')"
    using t by (intro removeConnection_twice[of w2 s ?S tid conn C]) simp_all
  then show ?thesis using w1 w2 by simp
qed

theorem second_close_aborts_witness:
  "bindR (handleClose 1 (server_cbs 1 sim_ops 9 demo_server_cbs) 3 demo_server_world)
     (handleClose 1 (server_cbs 1 sim_ops 9 demo_server_cbs) 3) = Inl (AssertFailed ''tcp_server.cpp:86'')"
proof -
  have at: "conn_at demo_server_world 3 demo_conn demo_channel"
    by (rule demo_at) (simp_all add: demo_server_world_fields)
  have idle: "idle 1 (conn_loop demo_conn) demo_server_world"
    using demo_idle[of demo_server_world] by (simp add: demo_server_world_fields demo_conn_fields)
  show ?thesis
    by (rule second_close_aborts[OF at idle, of _ demo_server])
      (simp_all add: demo_conn_def demo_server_world_fields demo_server_fields)
qed

text \<open>
  \<open>TcpServer::start\<close>, documented as thread safe, aborts when the first call is made in a thread other
  than that of the server's loop.
\<close>

theorem start_in_other_thread_aborts:
  assumes "servers w s = Some S" and "\<not> srv_started S" and "\<not> pool_started (srv_pool S)"
    and "loops w (base_loop (srv_pool S)) = Some L" and "thread_id L \<noteq> tid"
  shows "TcpServer_start tid K N run uninit s w = Inl NotInLoopThread"
  using assms
  by (simp add: TcpServer_start_def pool_start_def assertInLoopThread_def isInLoopThread_def Let_def)

theorem start_in_other_thread_aborts_witness:
  "TcpServer_start 8 sim_ops sim_net (\<lambda>f. Inr) False 9
     (demo_server_world\<lparr>servers := [9 \<mapsto> demo_server\<lparr>srv_started := False\<rparr>]\<rparr>) = Inl NotInLoopThread"
  by (rule start_in_other_thread_aborts[where S = "demo_server\<lparr>srv_started := False\<rparr>" and L = demo_loop])
    (simp_all add: demo_server_fields demo_server_world_fields EventLoopThreadPool_ctor_def demo_loop_def)

end
