(* ===== verification/Echo.thy ===== *)
theory Echo
  imports TcpServer
begin

text \<open>
  \<open>class EchoServer\<close> (\<open>src/example/echo.h\<close>, \<open>src/example/echo.cpp\<close>), the application shipped with the
  library: what a connection receives is sent back. Printing is not modelled. What the callbacks do
  within an iteration of the loop is shown in \<open>EchoMain\<close> and \<open>EchoAll\<close>.
\<close>

definition onConnection :: "nat \<Rightarrow> ('k, 'z) server_world_scheme \<Rightarrow> ('k, 'z) server_world_scheme res" where
  "onConnection conn w = bindR (deref (conns w) conn) (\<lambda>C. if connected C then Inr w else Inr w)"

definition onMessage :: "int \<Rightarrow> 'k sysops \<Rightarrow>
    (closure \<Rightarrow> ('k, 'z) server_world_scheme \<Rightarrow> ('k, 'z) server_world_scheme res) \<Rightarrow> nat \<Rightarrow> int \<Rightarrow>
    ('k, 'z) server_world_scheme \<Rightarrow> ('k, 'z) server_world_scheme res" where
  "onMessage tid K run conn recv_time w =
     bindR (deref (conns w) conn) (\<lambda>C.
     bindR (retrieveAsString (input_buffer C)) (\<lambda>(message, buf).
     send tid K run conn message (put_conn conn (C\<lparr>input_buffer := buf\<rparr>) w)))"

text \<open>The callbacks the constructor passes to the server; there is no write-complete callback.\<close>

definition EchoServer_ctor :: "'k netops \<Rightarrow> nat \<Rightarrow> sockaddr_in \<Rightarrow> nat \<Rightarrow> ('k, 'z) server_world_scheme \<Rightarrow>
    ('k, 'z) server_world_scheme res" where
  "EchoServer_ctor N loop listenAddr s w =
     bindR (TcpServer_ctor N loop listenAddr s w) (\<lambda>w1.
     bindR (srv_setConnectionCallback True s w1) (srv_setMessageCallback True s))"

definition EchoServer_start :: "int \<Rightarrow> 'k sysops \<Rightarrow> 'k netops \<Rightarrow>
    (closure \<Rightarrow> ('k, 'z) server_world_scheme \<Rightarrow> ('k, 'z) server_world_scheme res) \<Rightarrow> bool \<Rightarrow> nat \<Rightarrow>
    ('k, 'z) server_world_scheme \<Rightarrow> ('k, 'z) server_world_scheme res" where
  "EchoServer_start tid K N run uninit s w = TcpServer_start tid K N run uninit s w"

definition echo_cbs :: "int \<Rightarrow> 'k sysops \<Rightarrow>
    (closure \<Rightarrow> ('k, 'z) server_world_scheme \<Rightarrow> ('k, 'z) server_world_scheme res) \<Rightarrow> nat \<Rightarrow>
    ('k, 'z) server_world_scheme conn_cbs" where
  "echo_cbs tid K run s =
     \<lparr>connection_cb = onConnection, message_cb = onMessage tid K run,
      write_cmpl_cb = (\<lambda>conn w. Inl BadFunctionCall), close_cb = removeConnection tid K s\<rparr>"

text \<open>Taking all unread bytes leaves an open connection with an empty input buffer.\<close>

lemma retrieve_input:
  assumes "conn_ok tid conn w C"
  shows "\<exists>b. retrieveAsString (input_buffer C) = Inr (contents (input_buffer C), b) \<and> contents b = [] \<and>
    conn_ok tid conn (put_conn conn (C\<lparr>input_buffer := b\<rparr>) w) (C\<lparr>input_buffer := b\<rparr>)"
proof -
  obtain ch L where at: "conn_at w conn C ch" "isWriting ch \<longleftrightarrow> contents (output_buffer C) \<noteq> []"
    "buf_inv (input_buffer C)" "buf_inv (output_buffer C)" "idle tid (conn_loop C) w"
    using assms by (rule conn_okE)
  obtain b where b: "retrieveAsString (input_buffer C) = Inr (contents (input_buffer C), b)" "buf_inv b" "contents b = []"
    using retrieveAsString_ok[OF at(3)] by (auto simp: okR_iff_ex)
  have "conn_at (put_conn conn (C\<lparr>input_buffer := b\<rparr>) w) conn (C\<lparr>input_buffer := b\<rparr>) ch"
    using at(1) by (rule conn_at_put_conn) simp_all
  then have "conn_ok tid conn (put_conn conn (C\<lparr>input_buffer := b\<rparr>) w) (C\<lparr>input_buffer := b\<rparr>)"
    using at(2,4,5) b(2) by (intro conn_okI) simp_all
  then show ?thesis using b by blast
qed

end
