(* ===== verification/Frame.thy ===== *)
theory Frame
  imports Echo
begin

text \<open>
  What an operation on one connection leaves alone: the other channels, the other connections and the
  entries of the pollers. The relation \<open>apart\<close> is shown for the operations of \<open>src/src/tcp_connection.cpp\<close>
  that the events of an open connection run, whatever the system calls answer and whether or not
  anything is consistent; it is what lets an iteration of the loop handle one connection after another.
\<close>

section \<open>The relation\<close>

text \<open>
  Only channel \<open>c\<close> and connection \<open>conn\<close> change; the channel keeps its received events and its
  callbacks; the pollers lose no entry.
\<close>

definition apart :: "nat \<Rightarrow> nat \<Rightarrow> ('k, 'z) tcp_world_scheme \<Rightarrow> ('k, 'z) tcp_world_scheme \<Rightarrow> bool" where
  "apart conn c w w' \<longleftrightarrow>
     (\<forall>d. d \<noteq> c \<longrightarrow> channels w' d = channels w d) \<and>
     (\<forall>ch. channels w c = Some ch \<longrightarrow> (\<exists>ch'. channels w' c = Some ch' \<and> same_wiring ch ch')) \<and>
     (\<forall>d. d \<noteq> conn \<longrightarrow> conns w' d = conns w d) \<and>
     (\<forall>l. channel_map (the_poller w l) \<subseteq>\<^sub>m channel_map (the_poller w' l))"

lemma same_wiring_refl [simp]: "same_wiring ch ch"
  by (simp add: same_wiring_def)

lemma same_wiring_trans: "same_wiring ch ch1 \<Longrightarrow> same_wiring ch1 ch2 \<Longrightarrow> same_wiring ch ch2"
  by (simp add: same_wiring_def)

lemma apart_refl [simp]: "apart conn c w w"
  by (simp add: apart_def)

lemma apart_trans: "apart conn c w w1 \<Longrightarrow> apart conn c w1 w2 \<Longrightarrow> apart conn c w w2"
  unfolding apart_def by (auto intro: same_wiring_trans map_le_trans) (metis same_wiring_trans)

lemma the_poller_frame:
  "the_poller (w\<lparr>kern := k\<rparr>) = the_poller w" "the_poller (put_channel c ch w) = the_poller w"
  "the_poller (put_conn conn C v) = the_poller v"
  by (simp_all add: the_poller_def fun_eq_iff)

lemma apart_kern [simp]: "apart conn c (w\<lparr>kern := k\<rparr>) w' = apart conn c w w'"
  "apart conn c w (w'\<lparr>kern := k\<rparr>) = apart conn c w w'"
  by (simp_all add: apart_def the_poller_frame)

lemma apart_put_conn: "apart conn c w w' \<Longrightarrow> apart conn c w (put_conn conn C w')"
  by (simp add: apart_def the_poller_frame)

lemma apart_put_channel:
  "channels w c = Some ch \<Longrightarrow> same_wiring ch ch' \<Longrightarrow> apart conn c w (put_channel c ch' w)"
  by (simp add: apart_def the_poller_frame)

text \<open>A change of a loop that keeps its poller.\<close>

lemma apart_put_loop:
  "loops w l = Some L \<Longrightarrow> loop_poller L' = loop_poller L \<Longrightarrow> apart conn c w (put_loop l L' w)"
  by (auto simp: apart_def the_poller_def)


section \<open>The operations\<close>

lemma Poller_updateChannel_apart:
  "safeR (Poller_updateChannel b c (p, h)) (\<lambda>(p', h'). (\<forall>d. d \<noteq> c \<longrightarrow> h' d = h d) \<and>
     (\<forall>ch. h c = Some ch \<longrightarrow> (\<exists>ch'. h' c = Some ch' \<and> same_wiring ch ch')) \<and> channel_map p \<subseteq>\<^sub>m channel_map p')"
  by (auto simp: Poller_updateChannel_def Let_def setIndex_def wp same_wiring_def map_le_def)

lemma safeR_bind_optR: "(\<And>x. v = Some x \<Longrightarrow> safeR (f x) P) \<Longrightarrow> safeR (bindR (optR e v) f) P"
  by (auto simp: wp)

lemma EventLoop_updateChannel_apart: "safeR (EventLoop_updateChannel tid l c w) (apart conn c w)"
proof -
  have "safeR (bindR (Poller_updateChannel b c (p, channels w)) (\<lambda>(p', h').
      Inr (put_loop l (L\<lparr>loop_poller := Some p'\<rparr>) (w\<lparr>channels := h'\<rparr>)))) (apart conn c w)"
    if "loops w l = Some L" "loop_poller L = Some p" for b p L
    by (rule safeR_bindI[OF Poller_updateChannel_apart]) (use that in \<open>auto simp: apart_def the_poller_def put_loop_def\<close>)
  note last_step = this
  show ?thesis
    unfolding EventLoop_updateChannel_def
    by (rule safeR_bind_deref, rule safeR_bind_any, rule safeR_bind_any, rule safeR_checkI, rule safeR_checkI,
        rule safeR_bind_optR, rule last_step)
qed

lemma set_mask_apart: "safeR (set_mask f tid c w) (apart conn c w)"
  unfolding set_mask_def Channel_update_def
proof (intro safeR_bind_deref safeR_bind_any)
  fix ch ch'
  assume ch: "channels w c = Some ch"
  let ?w = "put_channel c (ch\<lparr>ch_events := f (ch_events ch)\<rparr>) w"
  have "apart conn c w ?w" using ch by (rule apart_put_channel) (simp add: same_wiring_def)
  then show "safeR (EventLoop_updateChannel tid (ch_loop ch') c ?w) (apart conn c w)"
    by (intro safeR_mono[OF EventLoop_updateChannel_apart]) (rule apart_trans)
qed

lemma mask_apart:
  assumes "apart conn c w v"
  shows "safeR (set_mask f tid c v) (apart conn c w)"
  by (rule safeR_mono[OF set_mask_apart]) (rule apart_trans[OF assms])

lemma queueInLoop_apart:
  assumes "apart conn c w v"
  shows "safeR (queueInLoop tid K l f v) (apart conn c w)"
proof -
  have "safeR (queueInLoop tid K l f v) (apart conn c v)"
    by (auto simp: queueInLoop_def lock_mutex_def unlock_mutex_def wakeup_def wp Let_def case_prod_beta
        apart_def the_poller_def put_loop_def)
  then show ?thesis by (rule safeR_mono) (rule apart_trans[OF assms])
qed

lemma sendInLoop_apart:
  assumes "conns w conn = Some C"
  shows "safeR (sendInLoop tid K conn m w) (apart conn (conn_channel C) w)"
proof -
  let ?P = "\<lambda>x. apart conn (conn_channel C) w (snd x)"
  have queue: "safeR (bindR (queueInLoop tid K l f (w\<lparr>kern := k\<rparr>)) (\<lambda>w2. Inr (n, w2))) ?P" for l f k and n :: int
    by (rule safeR_bindI[OF queueInLoop_apart[of conn "conn_channel C" w]]) simp_all
  have rest: "safeR (bindR (Buffer_append b data) (\<lambda>outbuf.
      let w4 = put_conn conn (C\<lparr>output_buffer := outbuf\<rparr>) v in
      if \<not> isWriting ch then enableWriting tid (conn_channel C) w4 else Inr w4)) (apart conn (conn_channel C) w)"
    if "apart conn (conn_channel C) w v" for b data ch v
    unfolding mask_ops Let_def using that by (intro safeR_bind_any) (auto intro!: mask_apart apart_put_conn)
  show ?thesis
    unfolding sendInLoop_def deref_Some[of "conns w" conn, OF assms] bindR_Inr
  proof (rule safeR_bind_any, rule safeR_bind_any, rule safeR_bindI)
    fix ch
    show "safeR (if \<not> isWriting ch \<and> readableBytes (output_buffer C) = 0 then
        (let ((n, errno), k') = sys_write K (getFd ch) m (kern w); w1 = w\<lparr>kern := k'\<rparr> in
         if n \<ge> 0 then
           if nat n < length m then Inr (n, w1)
           else if has_write_cmpl_cb C then
             bindR (queueInLoop tid K (conn_loop C) (WriteComplete conn) w1) (\<lambda>w2. Inr (n, w2))
           else Inr (n, w1)
         else Inr (0, w1))
      else Inr (0, w)) ?P"
      by (auto simp: Let_def case_prod_beta intro!: queue)
  qed (auto intro!: safeR_checkI rest)
qed

text \<open>A writable event, the half-close after the last byte included.\<close>

lemma shutdownInLoop_apart:
  assumes "apart conn c w v"
  shows "safeR (shutdownInLoop tid K conn v) (apart conn c w)"
  unfolding shutdownInLoop_def using assms by (intro safeR_bind_any) simp

lemma drained_apart:
  assumes "apart conn (conn_channel C) w v"
  shows "safeR (drained tid K conn C v) (apart conn (conn_channel C) w)"
  unfolding drained_def mask_ops
proof (rule safeR_bindI[OF mask_apart[OF assms]], rule safeR_bindI)
  fix v1
  assume "apart conn (conn_channel C) w v1"
  then show "safeR (if has_write_cmpl_cb C then queueInLoop tid K (conn_loop C) (WriteComplete conn) v1 else Inr v1)
      (apart conn (conn_channel C) w)" by (simp add: queueInLoop_apart)
qed (auto intro: shutdownInLoop_apart)

lemma handleWrite_apart:
  assumes ok: "conn_ok tid conn w C"
  shows "safeR (handleWrite tid K conn w) (apart conn (conn_channel C) w)"
proof (cases "contents (output_buffer C) = []")
  case True
  then show ?thesis using handleWrite_nothing[OF ok] by simp
next
  case False
  obtain n e k' where sys: "sys_write K (conn_socket C) (contents (output_buffer C)) (kern w) = ((n, e), k')"
    by (metis surj_pair)
  have dr: "safeR (drained tid K conn (C\<lparr>output_buffer := b\<rparr>) v) (apart conn (conn_channel C) w)"
    if "apart conn (conn_channel C) w v" for b v
    using drained_apart[of conn "C\<lparr>output_buffer := b\<rparr>" w v] that by simp
  have "safeR (bindR (retrieve (output_buffer C) (nat n)) (\<lambda>outbuf.
      let C' = C\<lparr>output_buffer := outbuf\<rparr>; w2 = put_conn conn C' (w\<lparr>kern := k'\<rparr>) in
      if readableBytes outbuf = 0 then drained tid K conn C' w2 else Inr w2)) (apart conn (conn_channel C) w)"
    by (intro safeR_bind_any) (auto simp: Let_def intro!: dr apart_put_conn)
  then show ?thesis unfolding handleWrite_eq[OF ok False sys] by simp
qed

end
