(* ===== verification/EchoMain.thy ===== *)
theory EchoMain
  imports Frame
begin

text \<open>
  The whole program (\<open>src/example/main.cpp\<close>): the loop, the server and the callbacks composed. The
  channel callbacks and queued closures of the library are executed by the functions they are bound
  to. The theory prepares the theorems on whole iterations of the loop (\<open>EchoAll\<close>, \<open>Lifetime\<close>): a
  readable event from \<open>TcpConnection::handleRead\<close> through \<open>EchoServer::onMessage\<close> to
  \<open>TcpConnection::send\<close>, and what \<open>poll\<close> and an empty queue do to an open connection. Its own
  theorem says what \<open>main\<close> does.
\<close>

section \<open>The program\<close>

text \<open>
  The closures; the message callback, the only one that needs them in turn, is never called from one.
\<close>

definition echo_run :: "int \<Rightarrow> 'k sysops \<Rightarrow> 'k netops \<Rightarrow> nat \<Rightarrow> closure \<Rightarrow>
    ('k, 'z) server_world_scheme \<Rightarrow> ('k, 'z) server_world_scheme res" where
  "echo_run tid K N s = run_closure tid K (echo_cbs tid K (\<lambda>f. Inr) s) (Acceptor_listen tid N)"

fun echo_call :: "int \<Rightarrow> 'k sysops \<Rightarrow> 'k netops \<Rightarrow> nat \<Rightarrow> chan_cb \<Rightarrow> int \<Rightarrow>
    ('k, 'z) server_world_scheme \<Rightarrow> ('k, 'z) server_world_scheme res" where
  "echo_call tid K N s (ConnHandleRead conn) t = handleRead tid K (echo_cbs tid K (echo_run tid K N s) s) conn t"
| "echo_call tid K N s (ConnHandleWrite conn) t = handleWrite tid K conn"
| "echo_call tid K N s (ConnHandleError conn) t = handleError K conn"
| "echo_call tid K N s (ConnHandleClose conn) t = handleClose tid (echo_cbs tid K (echo_run tid K N s) s) conn"
| "echo_call tid K N s (AcceptorHandleRead a) t =
     Acceptor_handleRead tid K N (newConnection tid N (echo_cbs tid K (echo_run tid K N s) s) s) a"
| "echo_call tid K N s (WakeupHandleRead l) t = EventLoop_handleRead K l"

text \<open>
  \<open>main\<close>: the loop has address \<open>l\<close>, the server address \<open>s\<close>; \<open>uninit\<close> is the indeterminate flag of a
  fresh loop. \<open>None\<close> is a run that does not end.
\<close>

definition echo_main :: "int \<Rightarrow> 'k sysops \<Rightarrow> 'k netops \<Rightarrow> bool \<Rightarrow> nat \<Rightarrow> nat \<Rightarrow>
    ('k, 'z) server_world_scheme \<Rightarrow> ('k, 'z) server_world_scheme res option" where
  "echo_main tid K N uninit l s w =
     (let w1 = EventLoop_ctor tid l uninit w; listenAddr = InetAddress_port 2007 in
      case bindR (EchoServer_ctor N l listenAddr s w1) (EchoServer_start tid K N (echo_run tid K N s) uninit s) of
        Inl e \<Rightarrow> Some (Inl e)
      | Inr w2 \<Rightarrow> EventLoop_loop tid K (echo_call tid K N s) (echo_run tid K N s) l w2)"


section \<open>An open connection through one iteration\<close>

text \<open>
  The poller's tables depend on the descriptor, the index and the wanted events of the channels only;
  received events and the handling flag may change.
\<close>

definition same_core :: "'cb channel \<Rightarrow> 'cb channel \<Rightarrow> bool" where
  "same_core ch ch' \<longleftrightarrow> ch_fd ch' = ch_fd ch \<and> ch_index ch' = ch_index ch \<and> ch_events ch' = ch_events ch \<and>
     ch_loop ch' = ch_loop ch \<and> ch_owner_loop ch' = ch_owner_loop ch"

definition cores_alike :: "'cb heap \<Rightarrow> 'cb heap \<Rightarrow> bool" where
  "cores_alike h h' \<longleftrightarrow> (\<forall>d. rel_option same_core (h d) (h' d))"

lemma cores_alike_Some:
  assumes "cores_alike h h'"
  shows "h d = Some ch \<Longrightarrow> \<exists>ch'. h' d = Some ch' \<and> same_core ch ch'"
    and "h' d = Some ch' \<Longrightarrow> \<exists>ch. h d = Some ch \<and> same_core ch ch'"
  using assms unfolding cores_alike_def by (metis option_rel_Some1, metis option_rel_Some2)

lemma at_slot_alike:
  assumes "cores_alike h h'"
  shows "at_slot p h' fd c i \<longleftrightarrow> at_slot p h fd c i"
  using assms[unfolded cores_alike_def, rule_format, of c]
  by (cases "h c"; cases "h' c") (auto simp: at_slot_def same_core_def)

lemma table_inv_alike:
  assumes "cores_alike h h'" and "table_inv (p, h)"
  shows "table_inv (p, h')"
proof -
  have "poller_inv p h'" using assms by (simp add: table_inv_def poller_inv_def at_slot_alike)
  moreover have "events_synced p h'"
    unfolding events_synced_def
  proof (intro allI impI)
    fix fd c i ch'
    assume slot: "at_slot p h' fd c i" and ch': "h' c = Some ch'"
    obtain ch where ch: "h c = Some ch" "same_core ch ch'" using cores_alike_Some(2)[OF assms(1) ch'] by blast
    have "pfd_events (poll_fds p ! i) = ucast (ch_events ch)"
      using assms(2) slot ch(1) by (simp add: table_inv_def events_synced_def at_slot_alike[OF assms(1)])
    then show "pfd_events (poll_fds p ! i) = ucast (ch_events ch')" using ch(2) by (simp add: same_core_def)
  qed
  ultimately show ?thesis by (simp add: table_inv_def)
qed

lemma registered_alike: "cores_alike h h' \<Longrightarrow> registered p h c \<Longrightarrow> registered p h' c"
  unfolding registered_def by (metis cores_alike_Some(1) same_core_def)

text \<open>An open connection stays open when the loop's bookkeeping and the flags of the channels change.\<close>

lemma conn_ok_step:
  assumes ok: "conn_ok tid conn w C" and conns: "conns w' = conns w"
    and alike: "cores_alike (channels w) (channels w')"
    and loop: "loop_ready w' (conn_loop C)" "loop_ctl w' (conn_loop C) = loop_ctl w (conn_loop C)"
      "channel_map (the_poller w' (conn_loop C)) = channel_map (the_poller w (conn_loop C))"
  shows "conn_ok tid conn w' C"
proof -
  obtain ch L where at: "conn_at w conn C ch" "isWriting ch \<longleftrightarrow> contents (output_buffer C) \<noteq> []"
    "buf_inv (input_buffer C)" "buf_inv (output_buffer C)" "idle tid (conn_loop C) w"
    using ok by (rule conn_okE)
  obtain ch' where ch': "channels w' (conn_channel C) = Some ch'" "same_core ch ch'"
    using at(1) cores_alike_Some(1)[OF alike] by (auto simp: conn_at_def)
  have "registered (the_poller w' (conn_loop C)) (channels w') (conn_channel C)"
    using at(1) registered_alike[OF alike] loop(3) by (auto simp: conn_at_def registered_def)
  then have "conn_at w' conn C ch'"
    using at(1) ch' conns loop(1) by (simp add: conn_at_def same_core_def)
  moreover have "isWriting ch' = isWriting ch" using ch'(2) by (simp add: same_core_def isWriting_def)
  moreover have "idle tid (conn_loop C) w'" using at(5) loop(2) by (simp add: idle_def)
  ultimately show ?thesis using at by (intro conn_okI) simp_all
qed


lemma okR_and_safeR: "okR m P \<Longrightarrow> safeR m Q \<Longrightarrow> okR m (\<lambda>x. P x \<and> Q x)"
  by (cases m) simp_all

text \<open>A readable event on an echo connection, with what it leaves of the queue and the channels.\<close>

lemma echo_read:
  assumes K: "write_ok K sent" "others_silent K sent" "readv_contract K"
    and ok: "conn_ok tid conn w C" and st: "conn_state C = Connected" and cb: "has_message_cb C" "\<not> has_write_cmpl_cb C"
    and room: "length (buffer_vec (input_buffer C)) + extrabuf_size \<le> max_size"
      "buf_room (output_buffer C) (length (contents (input_buffer C) @ data))"
    and sys: "sys_readv K (conn_socket C) [writableBytes (input_buffer C), extrabuf_size] (kern w) = ((n, data, e), k')" "0 < n"
  shows "okR (handleRead tid K (echo_cbs tid K run s) conn t w) (\<lambda>w'. \<exists>b out'.
    conn_ok tid conn w' (C\<lparr>input_buffer := b, output_buffer := out'\<rparr>) \<and> contents b = [] \<and>
    sent (kern w') (conn_socket C) @ contents out' = stream sent w C @ contents (input_buffer C) @ data \<and>
    queue_of w' (conn_loop C) = queue_of w (conn_loop C) \<and> apart conn (conn_channel C) w w' \<and>
    (kern w' = k' \<or> (\<exists>m. kern w' = snd (sys_write K (conn_socket C) m k'))))"
proof -
  obtain b1 where b1: "contents b1 = contents (input_buffer C) @ data"
    "conn_ok tid conn (with_input conn C b1 k' w) (C\<lparr>input_buffer := b1\<rparr>)"
    and eq: "handleRead tid K (echo_cbs tid K run s) conn t w = onMessage tid K run conn t (with_input conn C b1 k' w)"
    using handleRead_eq[OF ok K(3) room(1) sys(1), of "echo_cbs tid K run s" t] cb sys(2)
    by (auto simp: Let_def call_member_def echo_cbs_def)
  let ?w1 = "with_input conn C b1 k' w" and ?C1 = "C\<lparr>input_buffer := b1\<rparr>" and ?m = "contents (input_buffer C) @ data"
  obtain b where b: "retrieveAsString b1 = Inr (?m, b)" "contents b = []"
    "conn_ok tid conn (put_conn conn (C\<lparr>input_buffer := b\<rparr>) ?w1) (C\<lparr>input_buffer := b\<rparr>)"
    using retrieve_input[OF b1(2)] b1(1) by auto
  let ?C2 = "C\<lparr>input_buffer := b\<rparr>"
  let ?w2 = "put_conn conn ?C2 ?w1"
  have msg: "onMessage tid K run conn t ?w1 = sendInLoop tid K conn ?m ?w2"
    using b(1) send_in_loop[OF b(3)] st the_conn_ok[OF b1(2)] by (simp add: onMessage_def)
  have "sent k' = sent (kern w)"
    using K(2) sys(1) unfolding others_silent_def by (metis snd_conv)
  then have st2: "stream sent ?w2 ?C2 = stream sent w C" by (simp add: stream_def with_input_def)
  have q2: "queue_of ?w2 (conn_loop C) = queue_of w (conn_loop C)" "apart conn (conn_channel C) w ?w2" "kern ?w2 = k'"
    by (simp_all add: with_input_def apart_put_conn)
  have "?m \<noteq> []" using K(3) sys unfolding readv_contract_def by fastforce
  have "okR (sendInLoop tid K conn ?m ?w2) (\<lambda>w'. accepted sent K tid conn ?m ?w2 ?C2 w' \<and> apart conn (conn_channel ?C2) ?w2 w')"
    using K(1) b(3) room(2) by (intro okR_and_safeR sendInLoop_ok sendInLoop_apart) simp_all
  then show ?thesis
    unfolding eq msg
  proof (rule okR_mono, elim conjE)
    fix w'
    assume acc: "accepted sent K tid conn ?m ?w2 ?C2 w'" and wired: "apart conn (conn_channel ?C2) ?w2 w'"
    have apart: "apart conn (conn_channel C) w w'" using apart_trans[OF q2(2)] wired by simp
    from acc obtain out' where "conn_ok tid conn w' (?C2\<lparr>output_buffer := out'\<rparr>)"
      "stream sent w' (?C2\<lparr>output_buffer := out'\<rparr>) = stream sent w C @ ?m"
      "queue_of w' (conn_loop C) = queue_of w (conn_loop C)"
      "kern w' = k' \<or> kern w' = snd (sys_write K (conn_socket C) ?m k')"
      using \<open>?m \<noteq> []\<close> cb(2) st2 q2(1,3) by (auto simp: accepted_def split: if_splits)
    then show "\<exists>b out'. conn_ok tid conn w' (C\<lparr>input_buffer := b, output_buffer := out'\<rparr>) \<and> contents b = [] \<and>
        sent (kern w') (conn_socket C) @ contents out' = stream sent w C @ ?m \<and>
        queue_of w' (conn_loop C) = queue_of w (conn_loop C) \<and> apart conn (conn_channel C) w w' \<and>
        (kern w' = k' \<or> (\<exists>m. kern w' = snd (sys_write K (conn_socket C) m k')))"
      using b(2) apart by (intro exI[of _ b] exI[of _ out']) (auto simp: stream_def)
  qed
qed

text \<open>A round of \<open>handleEvents\<close> in which only the read callback is called for.\<close>

lemma handleEvents_read:
  assumes ch: "channels w c = Some ch" "ch_read_cb ch = Some cb"
    and ev: "in_guard (ch_revents ch)" "\<not> hup_guard (ch_revents ch)" "\<not> err_guard (ch_revents ch)" "\<not> out_guard (ch_revents ch)"
    and call: "call cb t (put_channel c (ch\<lparr>ch_events_handling := True\<rparr>) w) = Inr w'"
    and ch': "channels w' c = Some ch'" "same_wiring ch ch'"
  shows "handleEvents call t c w = Inr (put_channel c (ch'\<lparr>ch_events_handling := False\<rparr>) w')"
  using assms by (simp add: handleEvents_def fire_def same_wiring_def)

lemma cores_alike_refl [simp]: "cores_alike h h"
  by (simp add: cores_alike_def same_core_def option.rel_refl)

lemma cores_alike_flag:
  "h c = Some ch \<Longrightarrow> cores_alike h (h(c \<mapsto> ch\<lparr>ch_events_handling := b\<rparr>))"
  by (auto simp: cores_alike_def same_core_def option.rel_refl)

lemma cores_alike_revents: "same_but_revents h' h \<Longrightarrow> cores_alike h h'"
  unfolding cores_alike_def
proof
  fix d
  assume same: "same_but_revents h' h"
  show "rel_option same_core (h d) (h' d)"
  proof (cases "h' d")
    case None
    then show ?thesis using same[unfolded same_but_revents_def, rule_format, of d] by simp
  next
    case (Some dh')
    obtain dh where "h d = Some dh" and eq: "dh' = setRevents (ch_revents dh') dh"
      using same_but_revents_SomeD[OF same Some] by blast
    moreover have "same_core dh dh'" by (subst eq) (simp add: same_core_def setRevents_def)
    ultimately show ?thesis using Some by simp
  qed
qed

text \<open>Setting the handling flag of the connection's channel keeps the connection open.\<close>

lemma conn_ok_flag:
  assumes "conn_ok tid conn w C" and "channels w c = Some ch"
  shows "conn_ok tid conn (put_channel c (ch\<lparr>ch_events_handling := b\<rparr>) w) C"
proof -
  obtain ch0 L where "conn_at w conn C ch0" using assms(1) by (rule conn_okE)
  then have "loop_ready w (conn_loop C)" by (simp add: conn_at_def)
  then have "loop_ready (put_channel c (ch\<lparr>ch_events_handling := b\<rparr>) w) (conn_loop C)"
    using table_inv_alike[OF cores_alike_flag[of "channels w" c ch b, OF assms(2)]] by (auto simp: loop_ready_def simp del: fun_upd_apply)
  then show ?thesis
    using assms by (intro conn_ok_step[OF assms(1)])
      (simp_all add: cores_alike_flag loop_ctl_def the_poller_def conns_frame del: fun_upd_apply)
qed


lemma doPendingFunctors_empty:
  assumes ok: "conn_ok tid conn w C" and q: "queue_of w (conn_loop C) = []"
  shows "doPendingFunctors tid run (conn_loop C) w = Inr w"
proof -
  obtain ch L where L: "loops w (conn_loop C) = Some L" "mutex_holder L = None" "\<not> calling_pending_functors L"
    using ok by (rule conn_okE)
  have none: "pending_functors L = []" using q L(1) by (simp add: queue_of_def)
  have same: "L\<lparr>pending_functors := [], calling_pending_functors := False, mutex_holder := None\<rparr> = L"
    using L none by (cases L) simp
  have "doPendingFunctors tid run (conn_loop C) w =
      Inr (put_loop (conn_loop C) (L\<lparr>pending_functors := [], calling_pending_functors := False, mutex_holder := None\<rparr>) w)"
    using L none by (simp add: doPendingFunctors_eq batch_start_def)
  also have "\<dots> = Inr w" unfolding same using L(1) by (simp add: put_loop_def fun_upd_idem)
  finally show ?thesis .
qed

text \<open>The state after \<open>poll\<close> has returned and the active channels are listed.\<close>

definition polled :: "nat \<Rightarrow> 'f event_loop \<Rightarrow> poller \<Rightarrow> int \<Rightarrow> nat list \<Rightarrow> 'cb heap \<Rightarrow> 'k \<Rightarrow>
    ('cb, 'f, 'k, 'z) reactor_scheme \<Rightarrow> ('cb, 'f, 'k, 'z) reactor_scheme" where
  "polled l L p now act h k w = put_loop l (L\<lparr>loop_poller := Some p, poll_return_time := now, active_channels := act\<rparr>)
     (w\<lparr>channels := h, kern := k\<rparr>)"

lemma polled_fields [simp]:
  "channels (polled l L p now act h k w) = h" "kern (polled l L p now act h k w) = k"
  "conns (polled l L p now act h k w) = conns w"
  by (simp_all add: polled_def put_loop_def)

lemma conn_ok_polled:
  assumes ok: "conn_ok tid conn w C" and L: "loops w (conn_loop C) = Some L"
    and h: "same_but_revents h (channels w)" "table_inv (p, h)"
    and p: "channel_map p = channel_map (the_poller w (conn_loop C))"
  shows "conn_ok tid conn (polled (conn_loop C) L p now act h k w) C"
    and "queue_of (polled (conn_loop C) L p now act h k w) (conn_loop C) = queue_of w (conn_loop C)"
proof -
  show "conn_ok tid conn (polled (conn_loop C) L p now act h k w) C"
    using cores_alike_revents[OF h(1)] h(2) L p
    by (intro conn_ok_step[OF ok]) (auto simp: polled_def loop_ready_def loop_ctl_def the_poller_def put_loop_def)
  show "queue_of (polled (conn_loop C) L p now act h k w) (conn_loop C) = queue_of w (conn_loop C)"
    using L by (simp add: polled_def queue_of_def)
qed


text \<open>\<open>poll\<close> reports the descriptor of an open connection, and it alone: its channel becomes the active one.\<close>

lemma poll_marks_alone:
  assumes "conn_ok tid conn w C" and ch: "channels w (conn_channel C) = Some ch"
    and sys: "sys_poll K (poll_fds (the_poller w (conn_loop C))) kPollTimeMs (kern w) = ((1, rs), k1)"
      "poll_ok (poll_fds (the_poller w (conn_loop C))) (1, rs)" "sys_now K k1 = (now, k2)"
      "ready (set_revents (poll_fds (the_poller w (conn_loop C))) rs) = [pfd]" "pfd_fd pfd = conn_socket C"
  obtains L p p' h' ch1 where "loops w (conn_loop C) = Some L" and "loop_poller L = Some p"
    and "Poller_poll (sys_poll K) (sys_now K) kPollTimeMs (p, channels w) [] (kern w) =
      Inr ((now, [conn_channel C]), (p', h'), k2)" and "table_inv (p', h')" and "same_but_revents h' (channels w)"
    and "channel_map p' = channel_map p" and "h' (conn_channel C) = Some ch1"
    and "ch_revents ch1 = scast (pfd_revents pfd)" and "ch_read_cb ch1 = ch_read_cb ch"
proof -
  obtain ch0 L where at: "conn_at w conn C ch0" and L: "loops w (conn_loop C) = Some L"
    using assms(1) by (rule conn_okE)
  obtain p where p: "loop_poller L = Some p" "the_poller w (conn_loop C) = p" "table_inv (p, channels w)"
    using at L by (auto simp: conn_at_def loop_ready_def the_poller_def)
  have cm: "channel_map p (conn_socket C) = Some (conn_channel C)"
    using at p(2) by (auto simp: conn_at_def registered_def)
  obtain p' h' where poll: "Poller_poll (sys_poll K) (sys_now K) kPollTimeMs (p, channels w) [] (kern w) =
      Inr ((now, [conn_channel C]), (p', h'), k2)" "table_inv (p', h')" "same_but_revents h' (channels w)"
      "channel_map p' = channel_map p"
    and ch': "\<exists>ch'. h' (conn_channel C) = Some ch' \<and> ch_revents ch' = scast (pfd_revents pfd)"
    using Poller_poll_ok[of p "channels w" "sys_poll K" kPollTimeMs "kern w" 1 rs k1 "sys_now K" now k2]
      p sys cm by (auto simp: table_inv_def okR_iff_ex)
  then obtain ch1 where ch1: "h' (conn_channel C) = Some ch1" "ch_revents ch1 = scast (pfd_revents pfd)" by blast
  have "ch1 = setRevents (ch_revents ch1) ch"
    using same_but_revents_SomeD[OF poll(3) ch1(1)] ch by auto
  then have "ch_read_cb ch1 = ch_read_cb ch"
    by (metis channel.select_convs(8) channel.surjective channel.update_convs(4) setRevents_def)
  with that L p(1) poll ch1 show ?thesis by blast
qed

section \<open>Properties\<close>

text \<open>The simulated kernel reports the connection of \<open>demo_server_world\<close> readable.\<close>

definition demo_pfd :: pollfd where
  "demo_pfd = \<lparr>pfd_fd = 7, pfd_events = ucast ReadEvent, pfd_revents = ucast ReadEvent\<rparr>"

lemma demo_read_event:
  "sint (ucast ReadEvent :: 16 word) = 3" "scast (ucast ReadEvent :: 16 word) = (3 :: 32 word)"
  by (simp_all add: ReadEvent_def POLLIN_def POLLPRI_def)

lemma demo_poll:
  "sys_poll sim_ops (poll_fds demo_poller) kPollTimeMs k = ((1, [ucast ReadEvent]), k)"
  "poll_ok (poll_fds demo_poller) (1, [ucast ReadEvent])" "sys_now sim_ops k = (sim_clock k, k)"
  "ready (set_revents (poll_fds demo_poller) [ucast ReadEvent]) = [demo_pfd]"
  using demo_read_event
  by (auto simp: sim_ops_def sim_poll_def demo_poller_def poll_ok_def ready_def set_revents_def Let_def demo_pfd_def)

lemma demo_guards:
  "in_guard (3 :: mask)" "\<not> hup_guard (3 :: mask)" "\<not> err_guard (3 :: mask)" "\<not> out_guard (3 :: mask)"
  by (simp_all add: in_guard_def hup_guard_def err_guard_def out_guard_def has_def POLLIN_def POLLPRI_def POLLRDHUP_def
      POLLHUP_def POLLERR_def POLLNVAL_def POLLOUT_def)


end
