(* ===== verification/EchoAll.thy ===== *)
theory EchoAll
  imports EchoMain
begin

text \<open>
  One iteration of \<open>EventLoop::loop\<close> with any number of ready connections
  (\<open>src/src/event_loop.cpp\<close>, \<open>src/src/poller.cpp\<close>, \<open>src/src/channel.cpp\<close>,
  \<open>src/src/tcp_connection.cpp\<close>, \<open>src/example/echo.cpp\<close>). The active channels are handled one
  after the other; each handler changes its own connection only (theory \<open>Frame\<close>), so every connection
  of the loop is served as if it were alone, and no byte is lost, duplicated, reordered or sent on
  another connection.
\<close>

section \<open>The receiving side of the kernel\<close>

text \<open>
  \<open>rx k fd\<close>: the bytes the peer of \<open>fd\<close> still delivers, in order; \<open>rd k fd\<close>: some of them are waiting in
  the socket. \<open>readv\<close> takes a prefix, and not an empty one when bytes are waiting; the other calls of
  an iteration take nothing, and a call on one descriptor takes no waiting byte from another.
\<close>

definition recv_contract :: "'k sysops \<Rightarrow> ('k \<Rightarrow> int \<Rightarrow> bool) \<Rightarrow> ('k \<Rightarrow> int \<Rightarrow> byte list) \<Rightarrow> bool" where
  "recv_contract K rd rx \<longleftrightarrow>
     (\<forall>fd lens k n data e k'. sys_readv K fd lens k = ((n, data, e), k') \<longrightarrow>
        rx k fd = data @ rx k' fd \<and> (rd k fd \<and> 0 < sum_list lens \<longrightarrow> 0 < n) \<and>
        (\<forall>f. f \<noteq> fd \<longrightarrow> rx k' f = rx k f \<and> (rd k f \<longrightarrow> rd k' f))) \<and>
     (\<forall>fd m k f. rx (snd (sys_write K fd m k)) f = rx k f \<and> (rd k f \<longrightarrow> rd (snd (sys_write K fd m k)) f)) \<and>
     (\<forall>p t k. rx (snd (sys_poll K p t k)) = rx k) \<and>
     (\<forall>k. rx (snd (sys_now K k)) = rx k)"

definition stream_kernel :: "'k sysops \<Rightarrow> ('k \<Rightarrow> int \<Rightarrow> byte list) \<Rightarrow> ('k \<Rightarrow> int \<Rightarrow> bool) \<Rightarrow> ('k \<Rightarrow> int \<Rightarrow> byte list) \<Rightarrow> bool" where
  "stream_kernel K sent rd rx \<longleftrightarrow> write_ok K sent \<and> others_silent K sent \<and> readv_contract K \<and> recv_contract K rd rx"

lemma stream_kernelD:
  assumes "stream_kernel K sent rd rx"
  shows "write_ok K sent" "others_silent K sent" "readv_contract K" "recv_contract K rd rx"
  using assms by (simp_all add: stream_kernel_def)

text \<open>Nothing happens on the descriptors other than \<open>fd\<close>.\<close>

definition other_fds :: "('k \<Rightarrow> int \<Rightarrow> byte list) \<Rightarrow> ('k \<Rightarrow> int \<Rightarrow> bool) \<Rightarrow> ('k \<Rightarrow> int \<Rightarrow> byte list) \<Rightarrow> int \<Rightarrow> 'k \<Rightarrow> 'k \<Rightarrow> bool" where
  "other_fds sent rd rx fd k k' \<longleftrightarrow>
     (\<forall>f. f \<noteq> fd \<longrightarrow> sent k' f = sent k f \<and> rx k' f = rx k f \<and> (rd k f \<longrightarrow> rd k' f))"

lemma other_fds_refl [simp]: "other_fds sent rd rx fd k k"
  by (simp add: other_fds_def)

lemma other_fds_trans: "other_fds sent rd rx fd k k1 \<Longrightarrow> other_fds sent rd rx fd k1 k2 \<Longrightarrow> other_fds sent rd rx fd k k2"
  by (simp add: other_fds_def)

lemma write_other_fds:
  assumes "stream_kernel K sent rd rx"
  shows "other_fds sent rd rx fd k (snd (sys_write K fd m k))" and "rx (snd (sys_write K fd m k)) = rx k"
proof -
  obtain n e k' where sys: "sys_write K fd m k = ((n, e), k')" by (metis surj_pair)
  show "rx (snd (sys_write K fd m k)) = rx k" using stream_kernelD(4)[OF assms] by (auto simp: recv_contract_def)
  moreover have "rd k f \<Longrightarrow> rd (snd (sys_write K fd m k)) f" for f
    using stream_kernelD(4)[OF assms] by (auto simp: recv_contract_def)
  moreover have "f \<noteq> fd \<Longrightarrow> sent (snd (sys_write K fd m k)) f = sent k f" for f
    using write_okD[OF stream_kernelD(1)[OF assms] sys] sys by auto
  ultimately show "other_fds sent rd rx fd k (snd (sys_write K fd m k))" by (simp add: other_fds_def)
qed

lemma readv_other_fds:
  assumes "stream_kernel K sent rd rx" and "sys_readv K fd lens k = ((n, data, e), k')"
  shows "other_fds sent rd rx fd k k'" and "rx k fd = data @ rx k' fd" and "rd k fd \<Longrightarrow> 0 < sum_list lens \<Longrightarrow> 0 < n"
proof -
  have "sent k' = sent k"
    using stream_kernelD(2)[OF assms(1)] assms(2) unfolding others_silent_def by (metis snd_conv)
  moreover have rv: "rx k fd = data @ rx k' fd \<and> (rd k fd \<and> 0 < sum_list lens \<longrightarrow> 0 < n) \<and>
      (\<forall>f. f \<noteq> fd \<longrightarrow> rx k' f = rx k f \<and> (rd k f \<longrightarrow> rd k' f))"
    using stream_kernelD(4)[OF assms(1)] assms(2) unfolding recv_contract_def by blast
  ultimately show "other_fds sent rd rx fd k k'" by (simp add: other_fds_def)
  show "rx k fd = data @ rx k' fd" and "rd k fd \<Longrightarrow> 0 < sum_list lens \<Longrightarrow> 0 < n" using rv by simp_all
qed


section \<open>One connection\<close>

definition conn_fd :: "nat \<Rightarrow> ('k, 'z) tcp_world_scheme \<Rightarrow> int" where
  "conn_fd conn w = conn_socket (the_conn conn w)"

definition conn_ch :: "nat \<Rightarrow> ('k, 'z) tcp_world_scheme \<Rightarrow> nat" where
  "conn_ch conn w = conn_channel (the_conn conn w)"

text \<open>An open connection of the echo server in loop \<open>l\<close>, as \<open>newConnection\<close> leaves it.\<close>

definition echo_conn :: "int \<Rightarrow> nat \<Rightarrow> nat \<Rightarrow> ('k, 'z) tcp_world_scheme \<Rightarrow> bool" where
  "echo_conn tid l conn w \<longleftrightarrow> conn_ok tid conn w (the_conn conn w) \<and> conn_loop (the_conn conn w) = l \<and>
     conn_state (the_conn conn w) = Connected \<and> has_message_cb (the_conn conn w) \<and>
     \<not> has_write_cmpl_cb (the_conn conn w) \<and>
     (\<exists>ch. channels w (conn_ch conn w) = Some ch \<and> ch_read_cb ch = Some (ConnHandleRead conn) \<and>
        ch_write_cb ch = Some (ConnHandleWrite conn))"

text \<open>Every byte of the connection, from the first one sent to the last one still to be read.\<close>

definition all_bytes :: "('k \<Rightarrow> int \<Rightarrow> byte list) \<Rightarrow> ('k \<Rightarrow> int \<Rightarrow> byte list) \<Rightarrow> nat \<Rightarrow> ('k, 'z) tcp_world_scheme \<Rightarrow> byte list" where
  "all_bytes sent rx conn w = stream sent w (the_conn conn w) @ contents (input_buffer (the_conn conn w)) @
     rx (kern w) (conn_fd conn w)"

text \<open>The two buffers can take one more read.\<close>

definition room_to_echo :: "nat \<Rightarrow> ('k, 'z) tcp_world_scheme \<Rightarrow> bool" where
  "room_to_echo conn w \<longleftrightarrow>
     length (buffer_vec (input_buffer (the_conn conn w))) + extrabuf_size \<le> max_size \<and>
     buf_room (output_buffer (the_conn conn w)) (length (buffer_vec (input_buffer (the_conn conn w))) + extrabuf_size)"

text \<open>A step of one connection.\<close>

definition echo_step :: "('k \<Rightarrow> int \<Rightarrow> byte list) \<Rightarrow> ('k \<Rightarrow> int \<Rightarrow> bool) \<Rightarrow> ('k \<Rightarrow> int \<Rightarrow> byte list) \<Rightarrow> int \<Rightarrow> nat \<Rightarrow> nat \<Rightarrow>
    ('k, 'z) tcp_world_scheme \<Rightarrow> ('k, 'z) tcp_world_scheme \<Rightarrow> bool" where
  "echo_step sent rd rx tid l conn w w' \<longleftrightarrow> echo_conn tid l conn w' \<and> conn_fd conn w' = conn_fd conn w \<and>
     conn_ch conn w' = conn_ch conn w \<and> all_bytes sent rx conn w' = all_bytes sent rx conn w \<and>
     queue_of w' l = queue_of w l \<and> apart conn (conn_ch conn w) w w' \<and>
     other_fds sent rd rx (conn_fd conn w) (kern w) (kern w')"

lemma echo_step_trans:
  "echo_step sent rd rx tid l conn w w1 \<Longrightarrow> echo_step sent rd rx tid l conn w1 w2 \<Longrightarrow> echo_step sent rd rx tid l conn w w2"
  unfolding echo_step_def by (metis apart_trans other_fds_trans)

lemma echo_step_refl: "echo_conn tid l conn w \<Longrightarrow> echo_step sent rd rx tid l conn w w"
  by (simp add: echo_step_def)

text \<open>The callbacks of the channel survive, so an open connection after a step is one of the echo server.\<close>

lemma echo_connI:
  assumes "echo_conn tid l conn w" and ok: "conn_ok tid conn w' C'" and ap: "apart conn (conn_ch conn w) w w'"
    and "conn_loop C' = l" "conn_state C' = Connected" "has_message_cb C'" "\<not> has_write_cmpl_cb C'"
    and "conn_channel C' = conn_ch conn w"
  shows "echo_conn tid l conn w'"
proof -
  have "the_conn conn w' = C'" using the_conn_ok[OF ok] by simp
  then show ?thesis using assms by (auto simp: echo_conn_def apart_def same_wiring_def conn_ch_def)
qed

lemma echo_read_step:
  assumes K: "stream_kernel K sent rd rx" and echo: "echo_conn tid l conn w"
    and rdy: "rd (kern w) (conn_fd conn w)" and room: "room_to_echo conn w"
  shows "okR (handleRead tid K (echo_cbs tid K run s) conn t w) (\<lambda>w'. echo_step sent rd rx tid l conn w w' \<and>
    contents (input_buffer (the_conn conn w')) = [] \<and>
    length (rx (kern w') (conn_fd conn w)) < length (rx (kern w) (conn_fd conn w)))"
proof -
  define C where "C = the_conn conn w"
  have C: "conn_ok tid conn w C" "conn_loop C = l" "conn_state C = Connected" "has_message_cb C" "\<not> has_write_cmpl_cb C"
    using echo by (simp_all add: echo_conn_def C_def)
  let ?lens = "[writableBytes (input_buffer C), extrabuf_size]"
  obtain n data e k' where sys: "sys_readv K (conn_socket C) ?lens (kern w) = ((n, data, e), k')" by (metis surj_pair)
  have fd: "conn_fd conn w = conn_socket C" by (simp add: conn_fd_def C_def)
  note rv = readv_other_fds[OF K sys]
  have n: "0 < n" using rv(3) rdy fd by (simp add: extrabuf_size_def)
  then have data: "data \<noteq> []" "length data \<le> sum_list ?lens"
    using stream_kernelD(3)[OF K] sys unfolding readv_contract_def by fastforce+
  have "buf_inv (input_buffer C)" using C(1) by (rule conn_okE)
  then have "length (contents (input_buffer C) @ data) \<le> length (buffer_vec (input_buffer C)) + extrabuf_size"
    using buf_partition[of "input_buffer C"] buf_inv_sizes(3)[of "input_buffer C"] data(2) by simp
  then have rooms: "length (buffer_vec (input_buffer C)) + extrabuf_size \<le> max_size"
    "buf_room (output_buffer C) (length (contents (input_buffer C) @ data))"
    using room by (simp_all add: room_to_echo_def C_def buf_room_def)
  from echo_read[OF stream_kernelD(1-3)[OF K] C(1,3-5) rooms sys n, of run s t] show ?thesis
  proof (rule okR_mono, elim exE conjE)
    fix w' b out'
    let ?C = "C\<lparr>input_buffer := b, output_buffer := out'\<rparr>"
    assume ok: "conn_ok tid conn w' ?C" and b: "contents b = []"
      and sent: "sent (kern w') (conn_socket C) @ contents out' = stream sent w C @ contents (input_buffer C) @ data"
      and q: "queue_of w' (conn_loop C) = queue_of w (conn_loop C)" and ap: "apart conn (conn_channel C) w w'"
      and k: "kern w' = k' \<or> (\<exists>m. kern w' = snd (sys_write K (conn_socket C) m k'))"
    have the: "the_conn conn w' = ?C" using the_conn_ok[OF ok] by simp
    have ch: "conn_channel C = conn_ch conn w" by (simp add: conn_ch_def C_def)
    have "echo_conn tid l conn w'" using echo ok ap[unfolded ch] by (rule echo_connI) (use C ch in simp_all)
    moreover have kern: "rx (kern w') = rx k'" "other_fds sent rd rx (conn_socket C) k' (kern w')"
      using k write_other_fds[OF K] by auto
    moreover have "all_bytes sent rx conn w' = all_bytes sent rx conn w"
      using sent b kern(1) rv(2) by (simp add: all_bytes_def conn_fd_def the stream_def flip: C_def)
    ultimately have "echo_step sent rd rx tid l conn w w'"
      using q ap C(2) other_fds_trans[OF rv(1) kern(2)] by (simp add: echo_step_def conn_fd_def conn_ch_def the flip: C_def)
    then show "echo_step sent rd rx tid l conn w w' \<and> contents (input_buffer (the_conn conn w')) = [] \<and>
        length (rx (kern w') (conn_fd conn w)) < length (rx (kern w) (conn_fd conn w))"
      using b rv(2) data(1) kern(1) fd by (simp add: the)
  qed
qed

lemma echo_write_step:
  assumes K: "stream_kernel K sent rd rx" and echo: "echo_conn tid l conn w"
  shows "okR (handleWrite tid K conn w) (\<lambda>w'. echo_step sent rd rx tid l conn w w' \<and>
    input_buffer (the_conn conn w') = input_buffer (the_conn conn w) \<and> rx (kern w') = rx (kern w))"
proof -
  define C where "C = the_conn conn w"
  have C: "conn_ok tid conn w C" "conn_loop C = l" "conn_state C = Connected" "has_message_cb C" "\<not> has_write_cmpl_cb C"
    using echo by (simp_all add: echo_conn_def C_def)
  let ?pend = "contents (output_buffer C)"
  have ch: "conn_channel C = conn_ch conn w" by (simp add: conn_ch_def C_def)
  have "okR (handleWrite tid K conn w) (\<lambda>w'. flushed sent K tid conn w C w' \<and> apart conn (conn_channel C) w w')"
    using handleWrite_ok[OF stream_kernelD(1,2)[OF K] C(1)] handleWrite_apart[OF C(1)] by (rule okR_and_safeR)
  then show ?thesis
  proof (rule okR_mono, elim conjE)
    fix w'
    assume fl: "flushed sent K tid conn w C w'" and ap: "apart conn (conn_channel C) w w'"
    obtain n e k' where sys: "sys_write K (conn_socket C) ?pend (kern w) = ((n, e), k')" by (metis surj_pair)
    obtain out' where ok: "conn_ok tid conn w' (C\<lparr>output_buffer := out'\<rparr>)"
      and st: "stream sent w' (C\<lparr>output_buffer := out'\<rparr>) = stream sent w C"
      and k: "kern w' = kern w \<or> kern w' = snd (sys_write K (conn_socket C) ?pend (kern w))"
      and q: "queue_of w' (conn_loop C) = queue_of w (conn_loop C)"
      using fl C(3,5) by (auto simp: flushed_def Let_def sys split: if_splits)
    have the: "the_conn conn w' = C\<lparr>output_buffer := out'\<rparr>" using the_conn_ok[OF ok] by simp
    have "echo_conn tid l conn w'" using echo ok ap[unfolded ch] by (rule echo_connI) (use C ch in simp_all)
    moreover have kern: "rx (kern w') = rx (kern w)" "other_fds sent rd rx (conn_socket C) (kern w) (kern w')"
      using k write_other_fds[OF K] by auto
    ultimately show "echo_step sent rd rx tid l conn w w' \<and>
        input_buffer (the_conn conn w') = input_buffer (the_conn conn w) \<and> rx (kern w') = rx (kern w)"
      using q ap C(2) st by (simp add: echo_step_def conn_fd_def conn_ch_def all_bytes_def the flip: C_def)
  qed
qed

text \<open>Setting the handling flag of the channel.\<close>

lemma the_conn_put_channel [simp]: "the_conn conn (put_channel c ch w) = the_conn conn w"
  by (simp add: the_conn_def)

lemma echo_flag_step:
  assumes echo: "echo_conn tid l conn w" and ch: "channels w (conn_ch conn w) = Some ch"
  shows "echo_step sent rd rx tid l conn w (put_channel (conn_ch conn w) (ch\<lparr>ch_events_handling := b\<rparr>) w)"
proof -
  let ?w = "put_channel (conn_ch conn w) (ch\<lparr>ch_events_handling := b\<rparr>) w"
  have ap: "apart conn (conn_ch conn w) w ?w" using ch by (rule apart_put_channel) (simp add: same_wiring_def)
  have "conn_ok tid conn ?w (the_conn conn w)" using echo ch by (intro conn_ok_flag) (simp_all add: echo_conn_def)
  then have "echo_conn tid l conn ?w"
    using echo by (intro echo_connI[OF echo _ ap]) (simp_all add: echo_conn_def conn_ch_def)
  then show "echo_step sent rd rx tid l conn w ?w"
    using ap by (simp add: echo_step_def conn_fd_def conn_ch_def all_bytes_def stream_def queue_of_def)
qed

text \<open>The read callback, then the write callback, each if its events are there.\<close>

lemma handleEvents_in_out:
  assumes ch: "channels w c = Some ch" "ch_read_cb ch = Some rcb" "ch_write_cb ch = Some wcb"
    and ev: "\<not> hup_guard (ch_revents ch)" "\<not> err_guard (ch_revents ch)"
    and r: "(if in_guard (ch_revents ch) then call rcb t else Inr) (put_channel c (ch\<lparr>ch_events_handling := True\<rparr>) w) = Inr w1"
      "channels w1 c = Some ch1" "same_wiring ch ch1"
    and v: "(if out_guard (ch_revents ch) then call wcb t else Inr) w1 = Inr w2" "channels w2 c = Some ch2"
  shows "handleEvents call t c w = Inr (put_channel c (ch2\<lparr>ch_events_handling := False\<rparr>) w2)"
  using assms by (auto simp: handleEvents_def fire_def same_wiring_def split: if_splits)

text \<open>What \<open>poll\<close> has reported can be handled: no error, and bytes are waiting if the channel is readable.\<close>

definition can_serve :: "('k \<Rightarrow> int \<Rightarrow> bool) \<Rightarrow> nat \<Rightarrow> ('k, 'z) tcp_world_scheme \<Rightarrow> bool" where
  "can_serve rd conn w \<longleftrightarrow> room_to_echo conn w \<and> (\<exists>ch. channels w (conn_ch conn w) = Some ch \<and>
     \<not> hup_guard (ch_revents ch) \<and> \<not> err_guard (ch_revents ch) \<and>
     (in_guard (ch_revents ch) \<longrightarrow> rd (kern w) (conn_fd conn w)))"

text \<open>A readable connection was read, and what it received was echoed.\<close>

definition read_done :: "('k \<Rightarrow> int \<Rightarrow> byte list) \<Rightarrow> nat \<Rightarrow> ('k, 'z) tcp_world_scheme \<Rightarrow> ('k, 'z) tcp_world_scheme \<Rightarrow> bool" where
  "read_done rx conn w w' \<longleftrightarrow> (\<forall>ch. channels w (conn_ch conn w) = Some ch \<and> in_guard (ch_revents ch) \<longrightarrow>
     contents (input_buffer (the_conn conn w')) = [] \<and>
     length (rx (kern w') (conn_fd conn w)) < length (rx (kern w) (conn_fd conn w)))"

lemma serve_read:
  assumes K: "stream_kernel K sent rd rx" and echo: "echo_conn tid l conn w"
    and rdy: "b \<longrightarrow> rd (kern w) (conn_fd conn w)" and room: "room_to_echo conn w"
  obtains w' where "(if b then echo_call tid K N s (ConnHandleRead conn) t else Inr) w = Inr w'"
    and "echo_step sent rd rx tid l conn w w'"
    and "b \<longrightarrow> contents (input_buffer (the_conn conn w')) = [] \<and>
      length (rx (kern w') (conn_fd conn w)) < length (rx (kern w) (conn_fd conn w))"
proof (cases b)
  case True
  with echo_read_step[OF K echo _ room, of "echo_run tid K N s" s t] rdy that show ?thesis by (auto simp: okR_iff_ex)
qed (use that echo_step_refl[OF echo] in simp)

lemma serve_write:
  assumes K: "stream_kernel K sent rd rx" and echo: "echo_conn tid l conn w"
  obtains w' where "(if b then echo_call tid K N s (ConnHandleWrite conn) t else Inr) w = Inr w'"
    and "echo_step sent rd rx tid l conn w w'"
    and "input_buffer (the_conn conn w') = input_buffer (the_conn conn w)" and "rx (kern w') = rx (kern w)"
proof (cases b)
  case True
  with echo_write_step[OF K echo] that show ?thesis by (auto simp: okR_iff_ex)
qed (use that echo_step_refl[OF echo] in simp)

lemma serve_one:
  assumes K: "stream_kernel K sent rd rx" and echo: "echo_conn tid l conn w" and can: "can_serve rd conn w"
  shows "okR (handleEvents (echo_call tid K N s) t (conn_ch conn w) w) (\<lambda>w'.
    echo_step sent rd rx tid l conn w w' \<and> read_done rx conn w w')"
proof -
  let ?c = "conn_ch conn w" and ?call = "echo_call tid K N s" and ?step = "echo_step sent rd rx tid l conn"
  obtain ch where ch: "channels w ?c = Some ch" "ch_read_cb ch = Some (ConnHandleRead conn)"
      "ch_write_cb ch = Some (ConnHandleWrite conn)"
    and ev: "\<not> hup_guard (ch_revents ch)" "\<not> err_guard (ch_revents ch)"
    and rdy: "in_guard (ch_revents ch) \<longrightarrow> rd (kern w) (conn_fd conn w)" and room: "room_to_echo conn w"
    using echo can by (auto simp: echo_conn_def can_serve_def)
  define w0 where "w0 = put_channel ?c (ch\<lparr>ch_events_handling := True\<rparr>) w"
  have w0: "?step w w0" unfolding w0_def by (rule echo_flag_step[OF echo ch(1)])
  then have echo0: "echo_conn tid l conn w0" by (simp add: echo_step_def)
  have same0: "conn_fd conn w0 = conn_fd conn w" "kern w0 = kern w" "room_to_echo conn w0"
    using room by (simp_all add: conn_fd_def room_to_echo_def w0_def)
  obtain w1 where r: "(if in_guard (ch_revents ch) then ?call (ConnHandleRead conn) t else Inr) w0 = Inr w1"
    and w1: "?step w0 w1" and rd: "in_guard (ch_revents ch) \<longrightarrow> contents (input_buffer (the_conn conn w1)) = [] \<and>
        length (rx (kern w1) (conn_fd conn w0)) < length (rx (kern w0) (conn_fd conn w0))"
    using serve_read[OF K echo0 _ same0(3)] rdy same0(1,2) by metis
  have w01: "?step w w1" using w0 w1 by (rule echo_step_trans)
  then obtain ch1 where ch1: "channels w1 ?c = Some ch1" "same_wiring ch ch1"
    using ch(1) by (auto simp: echo_step_def apart_def)
  obtain w2 where v: "(if out_guard (ch_revents ch) then ?call (ConnHandleWrite conn) t else Inr) w1 = Inr w2"
    and w2: "?step w1 w2" "input_buffer (the_conn conn w2) = input_buffer (the_conn conn w1)" "rx (kern w2) = rx (kern w1)"
    using w01 by (metis echo_step_def serve_write[OF K])
  have w02: "?step w w2" using w01 w2(1) by (rule echo_step_trans)
  then have echo2: "echo_conn tid l conn w2" and c2: "conn_ch conn w2 = ?c" by (simp_all add: echo_step_def)
  obtain ch2 where ch2: "channels w2 ?c = Some ch2" using w02 ch(1) by (auto simp: echo_step_def apart_def)
  let ?w3 = "put_channel ?c (ch2\<lparr>ch_events_handling := False\<rparr>) w2"
  have "?step w ?w3" using echo_step_trans[OF w02 echo_flag_step[OF echo2, unfolded c2, OF ch2]] .
  moreover have "read_done rx conn w ?w3" using rd w2(2,3) ch(1) same0 by (simp add: read_done_def)
  moreover have "handleEvents ?call t ?c w = Inr ?w3"
    using ch ev r[unfolded w0_def] ch1 v ch2 by (rule handleEvents_in_out)
  ultimately show ?thesis by simp
qed


section \<open>All connections of a loop\<close>

text \<open>Connections of the loop have channels and sockets of their own.\<close>

lemma echo_conn_distinct:
  assumes "echo_conn tid l conn w" and "echo_conn tid l other w" and "other \<noteq> conn"
  shows "conn_ch other w \<noteq> conn_ch conn w" and "conn_fd other w \<noteq> conn_fd conn w"
proof -
  show ch: "conn_ch other w \<noteq> conn_ch conn w" using assms by (auto simp: echo_conn_def)
  have "channel_map (the_poller w l) (conn_fd c w) = Some (conn_ch c w)" if "echo_conn tid l c w" for c
    using that by (auto simp: echo_conn_def conn_ok_def conn_at_def registered_def conn_fd_def conn_ch_def)
  then show "conn_fd other w \<noteq> conn_fd conn w" using assms(1,2) ch by (metis option.inject)
qed

text \<open>The view of one connection.\<close>

definition untouched :: "('k \<Rightarrow> int \<Rightarrow> byte list) \<Rightarrow> ('k \<Rightarrow> int \<Rightarrow> byte list) \<Rightarrow> nat \<Rightarrow>
    ('k, 'z) tcp_world_scheme \<Rightarrow> ('k, 'z) tcp_world_scheme \<Rightarrow> bool" where
  "untouched sent rx conn w w' \<longleftrightarrow> the_conn conn w' = the_conn conn w \<and>
     channels w' (conn_ch conn w) = channels w (conn_ch conn w) \<and>
     sent (kern w') (conn_fd conn w) = sent (kern w) (conn_fd conn w) \<and>
     rx (kern w') (conn_fd conn w) = rx (kern w) (conn_fd conn w)"

lemma bystander:
  assumes echo: "echo_conn tid l conn w" "echo_conn tid l other w" "other \<noteq> conn"
    and step: "echo_step sent rd rx tid l conn w w'"
  shows "echo_conn tid l other w'" and "untouched sent rx other w w'"
    and "can_serve rd other w \<Longrightarrow> can_serve rd other w'"
proof -
  note dist = echo_conn_distinct[OF echo]
  have ap: "apart conn (conn_ch conn w) w w'" and kern: "other_fds sent rd rx (conn_fd conn w) (kern w) (kern w')"
    and echo': "echo_conn tid l conn w'" using step by (simp_all add: echo_step_def)
  let ?D = "the_conn other w"
  have the: "the_conn other w' = ?D" "conns w' other = conns w other" using ap echo(3) by (simp_all add: apart_def the_conn_def)
  have ch: "channels w' (conn_ch other w) = channels w (conn_ch other w)" using ap dist by (simp add: apart_def)
  show unt: "untouched sent rx other w w'" using the ch kern dist by (simp add: untouched_def other_fds_def)
  show "can_serve rd other w \<Longrightarrow> can_serve rd other w'"
    using the ch kern dist by (auto simp: can_serve_def room_to_echo_def other_fds_def conn_fd_def conn_ch_def)
  obtain dh where at: "conn_at w other ?D dh" and wr: "isWriting dh \<longleftrightarrow> contents (output_buffer ?D) \<noteq> []"
    and bufs: "buf_inv (input_buffer ?D)" "buf_inv (output_buffer ?D)" and l: "conn_loop ?D = l"
    using echo(2) by (auto simp: echo_conn_def conn_ok_def)
  have "loop_ready w' l" "idle tid l w'" using echo' by (auto simp: echo_conn_def conn_ok_def conn_at_def)
  moreover have "registered (the_poller w' l) (channels w') (conn_channel ?D)"
    using at ch ap l by (fastforce simp: conn_at_def registered_def apart_def conn_ch_def map_le_def dom_def)
  ultimately have "conn_at w' other ?D dh" using at the ch l by (simp add: conn_at_def conn_ch_def)
  then have "conn_ok tid other w' ?D" using wr bufs \<open>idle tid l w'\<close> l by (intro conn_okI) simp_all
  then show "echo_conn tid l other w'" using echo(2) the ch by (simp add: echo_conn_def conn_ch_def)
qed

text \<open>
  What handling the channels \<open>cs\<close> does to a connection: those of \<open>cs\<close> are served, the others are untouched.
\<close>

definition outcome :: "('k \<Rightarrow> int \<Rightarrow> byte list) \<Rightarrow> ('k \<Rightarrow> int \<Rightarrow> byte list) \<Rightarrow> nat list \<Rightarrow> nat \<Rightarrow>
    ('k, 'z) tcp_world_scheme \<Rightarrow> ('k, 'z) tcp_world_scheme \<Rightarrow> bool" where
  "outcome sent rx cs conn w w' \<longleftrightarrow>
     (if conn_ch conn w \<in> set cs
      then conn_fd conn w' = conn_fd conn w \<and> conn_ch conn w' = conn_ch conn w \<and>
        all_bytes sent rx conn w' = all_bytes sent rx conn w \<and> read_done rx conn w w'
      else untouched sent rx conn w w')"

lemma outcome_views:
  assumes "untouched sent rx conn w w1"
  shows "outcome sent rx cs conn w1 w' = outcome sent rx cs conn w w'"
  using assms
  by (simp add: outcome_def untouched_def conn_ch_def conn_fd_def all_bytes_def stream_def read_done_def)

lemma untouched_after:
  assumes "untouched sent rx conn w1 w'" and "outcome sent rx [conn_ch conn w] conn w w1"
  shows "outcome sent rx [conn_ch conn w] conn w w'"
proof -
  have same: "conn_fd conn w1 = conn_fd conn w" "conn_ch conn w1 = conn_ch conn w"
    "all_bytes sent rx conn w1 = all_bytes sent rx conn w" "read_done rx conn w w1"
    using assms(2) by (simp_all add: outcome_def)
  have "conn_fd conn w' = conn_fd conn w1" "conn_ch conn w' = conn_ch conn w1"
    "all_bytes sent rx conn w' = all_bytes sent rx conn w1"
    using assms(1) by (simp_all add: untouched_def conn_ch_def conn_fd_def all_bytes_def stream_def)
  moreover have "read_done rx conn w w'" using assms(1) same(1,4) by (simp add: read_done_def untouched_def)
  ultimately show ?thesis using same by (simp add: outcome_def)
qed

lemma serve_all:
  assumes K: "stream_kernel K sent rd rx" and "distinct cs" and "\<And>conn. conn \<in> G \<Longrightarrow> echo_conn tid l conn w"
    and "\<And>c. c \<in> set cs \<Longrightarrow> \<exists>conn\<in>G. conn_ch conn w = c \<and> can_serve rd conn w"
  shows "okR (foldR (handleEvents (echo_call tid K N s) t) cs w) (\<lambda>w'. queue_of w' l = queue_of w l \<and>
    (\<forall>conn\<in>G. echo_conn tid l conn w' \<and> outcome sent rx cs conn w w'))"
  using assms(2-)
proof (induction cs arbitrary: w)
  case Nil
  then show ?case by (simp add: outcome_def untouched_def)
next
  case (Cons c cs)
  obtain conn where conn: "conn \<in> G" "conn_ch conn w = c" "can_serve rd conn w" using Cons.prems(3)[of c] by auto
  obtain w1 where w1: "handleEvents (echo_call tid K N s) t c w = Inr w1"
    and step: "echo_step sent rd rx tid l conn w w1" and fin: "read_done rx conn w w1"
    using serve_one[OF K Cons.prems(2)[OF conn(1)] conn(3), of N s t] conn(2) by (auto simp: okR_iff_ex)
  note others = bystander[OF Cons.prems(2)[OF conn(1)] Cons.prems(2) _ step]
  have echo1: "echo_conn tid l other w1" if "other \<in> G" for other
    using others(1)[OF that] step by (cases "other = conn") (simp_all add: echo_step_def)
  have todo1: "\<exists>other\<in>G. conn_ch other w1 = d \<and> can_serve rd other w1" if "d \<in> set cs" for d
  proof -
    obtain other where other: "other \<in> G" "conn_ch other w = d" "can_serve rd other w"
      using Cons.prems(3)[of d] \<open>d \<in> set cs\<close> by auto
    have "other \<noteq> conn" using other(2) conn(2) that Cons.prems(1) by auto
    with other show ?thesis
      using others(2,3)[OF other(1)] by (intro bexI[of _ other]) (simp_all add: untouched_def conn_ch_def)
  qed
  have q1: "queue_of w1 l = queue_of w l" using step by (simp add: echo_step_def)
  have "okR (foldR (handleEvents (echo_call tid K N s) t) cs w1) (\<lambda>w'. queue_of w' l = queue_of w1 l \<and>
      (\<forall>conn\<in>G. echo_conn tid l conn w' \<and> outcome sent rx cs conn w1 w'))"
    using Cons.prems(1) echo1 todo1 by (intro Cons.IH) simp_all
  then have "okR (foldR (handleEvents (echo_call tid K N s) t) cs w1) (\<lambda>w'. queue_of w' l = queue_of w l \<and>
      (\<forall>conn\<in>G. echo_conn tid l conn w' \<and> outcome sent rx (c # cs) conn w w'))"
  proof (rule okR_mono, elim conjE, intro conjI ballI)
    fix w' other
    assume all: "\<forall>conn\<in>G. echo_conn tid l conn w' \<and> outcome sent rx cs conn w1 w'" and other: "other \<in> G"
    show "echo_conn tid l other w'" using all other by blast
    show "outcome sent rx (c # cs) other w w'"
    proof (cases "other = conn")
      case True
      have "conn_ch conn w1 = c" using step conn(2) by (simp add: echo_step_def)
      then have "untouched sent rx conn w1 w'" using all conn(1) Cons.prems(1) by (auto simp: outcome_def)
      moreover have "outcome sent rx [c] conn w w1" using step fin conn(2) by (simp add: outcome_def echo_step_def)
      ultimately show ?thesis using untouched_after[of sent rx conn w1 w' w] True conn(2) by (simp add: outcome_def)
    next
      case False
      have "conn_ch other w \<noteq> c" using echo_conn_distinct(1)[OF Cons.prems(2)[OF conn(1)] Cons.prems(2)[OF other] False] conn(2) by simp
      moreover have "outcome sent rx cs other w w'" using outcome_views[OF others(2)[OF other False]] all other by blast
      ultimately show ?thesis by (simp add: outcome_def)
    qed
  qed (simp add: q1)
  then show ?case using w1 by simp
qed

section \<open>The iteration\<close>

text \<open>What \<open>poll\<close> reports: nothing when it returns no positive count (a timeout or a signal).\<close>

definition reported :: "int \<Rightarrow> pollfd list \<Rightarrow> pollfd list" where
  "reported n pfds = (if 0 < n then ready pfds else [])"

lemma poll_marks:
  assumes ready: "loop_ready w l"
    and sys: "sys_poll K (poll_fds (the_poller w l)) kPollTimeMs (kern w) = ((n, rs), k1)"
      "poll_ok (poll_fds (the_poller w l)) (n, rs)" "sys_now K k1 = (now, k2)"
    and R: "R = reported n (set_revents (poll_fds (the_poller w l)) rs)"
  obtains L p' h' where "loops w l = Some L" and "loop_poller L = Some (the_poller w l)"
    and "Poller_poll (sys_poll K) (sys_now K) kPollTimeMs (the_poller w l, channels w) [] (kern w) =
      Inr ((now, map (\<lambda>pfd. the (channel_map (the_poller w l) (pfd_fd pfd))) R), (p', h'), k2)"
    and "table_inv (p', h')" and "same_but_revents h' (channels w)" and "channel_map p' = channel_map (the_poller w l)"
    and "\<forall>pfd\<in>set R.
      \<exists>ch. h' (the (channel_map (the_poller w l) (pfd_fd pfd))) = Some ch \<and> ch_revents ch = scast (pfd_revents pfd)"
    and "distinct (map (\<lambda>pfd. the (channel_map (the_poller w l) (pfd_fd pfd))) R)"
proof -
  define p where "p = the_poller w l"
  obtain L where L: "loops w l = Some L" "loop_poller L = Some p" and inv: "table_inv (p, channels w)"
    using ready unfolding p_def by (auto elim: loop_readyE)
  obtain p' h' where poll: "Poller_poll (sys_poll K) (sys_now K) kPollTimeMs (p, channels w) [] (kern w) =
      Inr ((now, map (\<lambda>pfd. the (channel_map p (pfd_fd pfd))) R), (p', h'), k2)"
    and inv': "table_inv (p', h')" "same_but_revents h' (channels w)" and p': "p' = p\<lparr>poll_fds := set_revents (poll_fds p) rs\<rparr>"
    and marks: "\<forall>pfd\<in>set R.
      \<exists>ch. h' (the (channel_map p (pfd_fd pfd))) = Some ch \<and> ch_revents ch = scast (pfd_revents pfd)"
    using Poller_poll_ok[of p "channels w" "sys_poll K" kPollTimeMs "kern w" n rs k1 "sys_now K" now k2] inv sys[folded p_def] R[folded p_def]
    by (auto simp: okR_iff_ex table_inv_def reported_def)
  have len: "length rs = length (poll_fds p)" using sys(2)[folded p_def] by (simp add: poll_ok_def)
  have "\<forall>pfd\<in>set (poll_fds p'). pfd_fd pfd < 0 \<longrightarrow> pfd_revents pfd = 0"
    using sys(2)[folded p_def] len by (auto simp: p' poll_ok_def set_revents_def set_zip in_set_conv_nth)
  then have "distinct (map (\<lambda>pfd. the (channel_map p (pfd_fd pfd))) R)"
    using ready_registered(2)[of p' h'] inv'(1) R[folded p_def] by (auto simp: table_inv_def p' reported_def)
  then show ?thesis using that[folded p_def, OF L poll inv' _ marks] p' by simp
qed

text \<open>\<open>poll\<close> changes the received events of the channels only.\<close>

lemma echo_conn_polled:
  assumes echo: "echo_conn tid l conn w" and L: "loops w l = Some L"
    and h: "same_but_revents h (channels w)" "table_inv (p, h)" and p: "channel_map p = channel_map (the_poller w l)"
  shows "echo_conn tid l conn (polled l L p now act h k w)" and "the_conn conn (polled l L p now act h k w) = the_conn conn w"
proof -
  let ?w = "polled l L p now act h k w" and ?C = "the_conn conn w"
  have l: "conn_loop ?C = l" and ok: "conn_ok tid conn w ?C" using echo by (simp_all add: echo_conn_def)
  show the: "the_conn conn ?w = ?C" by (simp add: the_conn_def)
  have "conn_ok tid conn ?w ?C" using conn_ok_polled(1)[OF ok, of L h p now act k] L h p l by simp
  moreover obtain ch where ch: "channels w (conn_ch conn w) = Some ch" "ch_read_cb ch = Some (ConnHandleRead conn)"
    "ch_write_cb ch = Some (ConnHandleWrite conn)" using echo by (auto simp: echo_conn_def)
  obtain ch' where ch': "h (conn_ch conn w) = Some ch'" and eq: "ch = setRevents (ch_revents ch) ch'"
    using same_but_revents_SomeD[OF same_but_revents_sym[OF h(1)] ch(1)] by blast
  have "ch_read_cb ch = ch_read_cb ch'" "ch_write_cb ch = ch_write_cb ch'" by (subst eq, simp add: setRevents_def)+
  then have "\<exists>ch. channels ?w (conn_ch conn ?w) = Some ch \<and> ch_read_cb ch = Some (ConnHandleRead conn) \<and>
      ch_write_cb ch = Some (ConnHandleWrite conn)"
    using ch(2,3) ch' by (simp add: conn_ch_def the)
  ultimately show "echo_conn tid l conn ?w" using echo by (simp add: echo_conn_def the)
qed

text \<open>The promise of one iteration to connection \<open>conn\<close>, given the entries \<open>rep\<close> that \<open>poll\<close> reported.\<close>

definition promised :: "('k \<Rightarrow> int \<Rightarrow> byte list) \<Rightarrow> ('k \<Rightarrow> int \<Rightarrow> byte list) \<Rightarrow> pollfd list \<Rightarrow> nat \<Rightarrow>
    ('k, 'z) tcp_world_scheme \<Rightarrow> ('k, 'z) tcp_world_scheme \<Rightarrow> bool" where
  "promised sent rx rep conn w w' \<longleftrightarrow> conn_fd conn w' = conn_fd conn w \<and>
     all_bytes sent rx conn w' = all_bytes sent rx conn w \<and>
     (\<forall>pfd\<in>set rep. pfd_fd pfd = conn_fd conn w \<and> in_guard (scast (pfd_revents pfd)) \<longrightarrow>
        contents (input_buffer (the_conn conn w')) = [] \<and>
        length (rx (kern w') (conn_fd conn w)) < length (rx (kern w) (conn_fd conn w))) \<and>
     (conn_fd conn w \<notin> pfd_fd ` set rep \<longrightarrow>
        the_conn conn w' = the_conn conn w \<and> sent (kern w') (conn_fd conn w) = sent (kern w) (conn_fd conn w))"

lemma echo_conn_map:
  assumes "echo_conn tid l conn w"
  shows "channel_map (the_poller w l) (conn_fd conn w) = Some (conn_ch conn w)" and "loop_ready w l"
  using assms by (auto simp: echo_conn_def conn_ok_def conn_at_def registered_def conn_fd_def conn_ch_def)

lemma outcome_promised:
  assumes out: "outcome sent rx (map chan R) conn w1 w2"
    and same: "the_conn conn w1 = the_conn conn w" "sent (kern w1) = sent (kern w)" "rx (kern w1) = rx (kern w)"
    and chan: "\<And>pfd. pfd \<in> set R \<Longrightarrow> chan pfd = conn_ch conn w \<longleftrightarrow> pfd_fd pfd = conn_fd conn w"
    and marks: "\<And>pfd. pfd \<in> set R \<Longrightarrow> \<exists>ch. channels w1 (chan pfd) = Some ch \<and> ch_revents ch = scast (pfd_revents pfd)"
  shows "promised sent rx R conn w w2"
proof -
  have eq: "conn_fd conn w1 = conn_fd conn w" "conn_ch conn w1 = conn_ch conn w"
    "all_bytes sent rx conn w1 = all_bytes sent rx conn w"
    using same by (simp_all add: conn_fd_def conn_ch_def all_bytes_def stream_def)
  have listed: "conn_ch conn w \<in> set (map chan R) \<longleftrightarrow> conn_fd conn w \<in> pfd_fd ` set R"
    by (simp add: image_iff) (metis chan)
  show ?thesis
  proof (cases "conn_fd conn w \<in> pfd_fd ` set R")
    case False
    with listed have unt: "untouched sent rx conn w1 w2" using out eq(2) by (simp add: outcome_def)
    then have "all_bytes sent rx conn w2 = all_bytes sent rx conn w"
      using same by (simp add: untouched_def all_bytes_def conn_fd_def stream_def)
    with False unt show ?thesis using same eq by (auto simp: promised_def untouched_def conn_fd_def image_iff)
  next
    case True
    with listed have "conn_fd conn w2 = conn_fd conn w" "all_bytes sent rx conn w2 = all_bytes sent rx conn w"
      and rd: "read_done rx conn w1 w2" using out eq by (simp_all add: outcome_def)
    moreover have "contents (input_buffer (the_conn conn w2)) = [] \<and>
        length (rx (kern w2) (conn_fd conn w)) < length (rx (kern w) (conn_fd conn w))"
      if "pfd \<in> set R" "pfd_fd pfd = conn_fd conn w" "in_guard (scast (pfd_revents pfd))" for pfd
      using rd marks[OF that(1)] chan[OF that(1)] that(2,3) eq same by (auto simp: read_done_def)
    ultimately show ?thesis using True by (simp add: promised_def)
  qed
qed

lemma iteration_serves:
  assumes K: "stream_kernel K sent rd rx" and G: "\<And>conn. conn \<in> G \<Longrightarrow> echo_conn tid l conn w" "G \<noteq> {}"
    and q: "queue_of w l = []"
    and sys: "sys_poll K (poll_fds (the_poller w l)) kPollTimeMs (kern w) = ((n, rs), k1)"
      "poll_ok (poll_fds (the_poller w l)) (n, rs)" "sys_now K k1 = (now, k2)"
    and R: "R = reported n (set_revents (poll_fds (the_poller w l)) rs)"
    and rep: "\<And>pfd. pfd \<in> set R \<Longrightarrow> \<exists>conn\<in>G.
      conn_fd conn w = pfd_fd pfd \<and> room_to_echo conn w \<and> \<not> hup_guard (scast (pfd_revents pfd)) \<and>
      \<not> err_guard (scast (pfd_revents pfd)) \<and> (in_guard (scast (pfd_revents pfd)) \<longrightarrow> rd k2 (pfd_fd pfd))"
  shows "okR (loop_iter tid K (echo_call tid K N s) (echo_run tid K N s) l w) (\<lambda>w'. queue_of w' l = [] \<and>
    (\<forall>conn\<in>G. echo_conn tid l conn w' \<and> promised sent rx R conn w w'))"
proof -
  obtain conn0 where conn0: "conn0 \<in> G" using G(2) by blast
  let ?chan = "\<lambda>pfd. the (channel_map (the_poller w l) (pfd_fd pfd))"
  obtain L p' h' where L: "loops w l = Some L" "loop_poller L = Some (the_poller w l)"
    and poll: "Poller_poll (sys_poll K) (sys_now K) kPollTimeMs (the_poller w l, channels w) [] (kern w) =
      Inr ((now, map ?chan R), (p', h'), k2)"
    and inv: "table_inv (p', h')" "same_but_revents h' (channels w)" "channel_map p' = channel_map (the_poller w l)"
    and marks: "\<forall>pfd\<in>set R. \<exists>ch. h' (?chan pfd) = Some ch \<and> ch_revents ch = scast (pfd_revents pfd)"
    and dist: "distinct (map ?chan R)"
    using echo_conn_map(2)[OF G(1)[OF conn0]] sys R by (rule poll_marks)
  define w1 where "w1 = polled l L p' now (map ?chan R) h' k2 w"
  have echo1: "echo_conn tid l conn w1" and the1: "the_conn conn w1 = the_conn conn w" if "conn \<in> G" for conn
    using echo_conn_polled[OF G(1)[OF that] L(1) inv(2,1,3)] by (simp_all add: w1_def)
  have k: "kern w1 = k2" "channels w1 = h'" "queue_of w1 l = []"
    using L(1) q by (simp_all add: w1_def) (simp add: polled_def queue_of_def)
  have k2: "sent k2 = sent (kern w)" "rx k2 = rx (kern w)"
    using stream_kernelD(2,4)[OF K] sys(1,3) unfolding others_silent_def recv_contract_def by (metis snd_conv)+
  have chan: "?chan pfd = conn_ch conn w \<longleftrightarrow> pfd_fd pfd = conn_fd conn w" if "conn \<in> G" "pfd \<in> set R" for conn pfd
    using rep[OF that(2)] echo_conn_map(1) echo_conn_distinct(1) G(1) that(1) by (metis option.sel)
  have todo: "\<exists>conn\<in>G. conn_ch conn w1 = c \<and> can_serve rd conn w1" if c: "c \<in> set (map ?chan R)" for c
  proof -
    obtain pfd where pfd: "pfd \<in> set R" "c = ?chan pfd" using c by auto
    obtain conn where conn: "conn \<in> G" "conn_fd conn w = pfd_fd pfd" "room_to_echo conn w"
      "\<not> hup_guard (scast (pfd_revents pfd))" "\<not> err_guard (scast (pfd_revents pfd))"
      "in_guard (scast (pfd_revents pfd)) \<longrightarrow> rd k2 (pfd_fd pfd)" using rep[OF pfd(1)] by blast
    have "?chan pfd = conn_ch conn w" using chan[OF conn(1) pfd(1)] conn(2) by simp
    with conn bspec[OF marks pfd(1)] show ?thesis using pfd(2) the1[OF conn(1)] k(1,2)
      by (intro bexI[of _ conn]) (auto simp: can_serve_def room_to_echo_def conn_fd_def conn_ch_def)
  qed
  obtain w2 where w2: "foldR (handleEvents (echo_call tid K N s) now) (map ?chan R) w1 = Inr w2" "queue_of w2 l = []"
    and all: "\<And>conn. conn \<in> G \<Longrightarrow> echo_conn tid l conn w2" "\<And>conn. conn \<in> G \<Longrightarrow> outcome sent rx (map ?chan R) conn w1 w2"
    using serve_all[OF K dist echo1 todo, where N = N and s = s and t = now] k(3) unfolding okR_iff_ex by auto
  have "doPendingFunctors tid (echo_run tid K N s) l w2 = Inr w2"
    using doPendingFunctors_empty[of tid conn0 w2 "the_conn conn0 w2"] all(1)[OF conn0] w2(2) by (simp add: echo_conn_def)
  then have "loop_iter tid K (echo_call tid K N s) (echo_run tid K N s) l w = Inr w2"
    using L poll w2(1) by (simp add: loop_iter_def Let_def polled_def[symmetric] w1_def[symmetric])
  moreover have "promised sent rx R conn w w2" if "conn \<in> G" for conn
    using all(2)[OF that] by (rule outcome_promised) (use the1 k k2 chan marks that in simp_all)
  ultimately show ?thesis using w2(2) all(1) by simp
qed

section \<open>Properties\<close>

text \<open>Two connections in one loop: descriptors 7 and 8, both with bytes waiting.\<close>

definition duo_poller :: poller where
  "duo_poller = \<lparr>poll_fds = [\<lparr>pfd_fd = 7, pfd_events = ucast ReadEvent, pfd_revents = 0\<rparr>,
     \<lparr>pfd_fd = 8, pfd_events = ucast ReadEvent, pfd_revents = 0\<rparr>], channel_map = [7 \<mapsto> 2, 8 \<mapsto> 5]\<rparr>"

definition duo_channel :: "chan_cb channel" where
  "duo_channel = demo_channel\<lparr>ch_fd := 8, ch_index := 1, ch_read_cb := Some (ConnHandleRead 6),
     ch_write_cb := Some (ConnHandleWrite 6)\<rparr>"

definition duo_world :: "sim server_world" where
  "duo_world = demo_server_world\<lparr>channels := [2 \<mapsto> demo_channel, 5 \<mapsto> duo_channel],
     loops := [0 \<mapsto> demo_loop\<lparr>loop_poller := Some duo_poller\<rparr>],
     conns := [3 \<mapsto> demo_conn, 6 \<mapsto> demo_conn\<lparr>conn_socket := 8, conn_channel := 5\<rparr>],
     kern := sim_init\<lparr>sim_rx := (\<lambda>fd. if fd = 7 then ''ping'' else if fd = 8 then ''pong'' else [])\<rparr>\<rparr>"

lemma duo_fields:
  "channels duo_world = [2 \<mapsto> demo_channel, 5 \<mapsto> duo_channel]"
  "loops duo_world = [0 \<mapsto> demo_loop\<lparr>loop_poller := Some duo_poller\<rparr>]"
  "conns duo_world = [3 \<mapsto> demo_conn, 6 \<mapsto> demo_conn\<lparr>conn_socket := 8, conn_channel := 5\<rparr>]"
  "kern duo_world = sim_init\<lparr>sim_rx := (\<lambda>fd. if fd = 7 then ''ping'' else if fd = 8 then ''pong'' else [])\<rparr>"
  by (simp_all add: duo_world_def)

lemma duo_table: "table_inv (duo_poller, [2 \<mapsto> demo_channel, 5 \<mapsto> duo_channel])"
  unfolding table_inv_def split_conv
proof
  have slot: "at_slot duo_poller [2 \<mapsto> demo_channel, 5 \<mapsto> duo_channel] fd c i \<longleftrightarrow>
      fd = 7 \<and> c = 2 \<and> i = 0 \<or> fd = 8 \<and> c = 5 \<and> i = 1" for fd c i
    by (auto simp: at_slot_def duo_poller_def demo_channel_def duo_channel_def less_Suc_eq numeral_2_eq_2 split: if_splits)
  show "poller_inv duo_poller [2 \<mapsto> demo_channel, 5 \<mapsto> duo_channel]"
    by (auto simp: poller_inv_def slot) (auto simp: duo_poller_def less_Suc_eq split: if_splits)
  show "events_synced duo_poller [2 \<mapsto> demo_channel, 5 \<mapsto> duo_channel]"
    by (auto simp: events_synced_def slot) (simp_all add: duo_poller_def demo_channel_def duo_channel_def)
qed

lemma sim_stream_kernel: "stream_kernel sim_ops sim_tx (\<lambda>k fd. sim_rx k fd \<noteq> []) sim_rx"
proof -
  have "recv_contract sim_ops (\<lambda>k fd. sim_rx k fd \<noteq> []) sim_rx"
    by (auto simp: recv_contract_def sim_ops_def sim_readv_def sim_write_def sim_poll_def Let_def)
  then show ?thesis by (simp add: stream_kernel_def sim_write_ok sim_others_silent sim_readv_contract)
qed

lemma duo_conns: "the_conn 3 duo_world = demo_conn" "the_conn 6 duo_world = demo_conn\<lparr>conn_socket := 8, conn_channel := 5\<rparr>"
  by (simp_all add: the_conn_def duo_fields)

lemma duo_loop: "the_poller duo_world 0 = duo_poller" "loop_ready duo_world 0" "idle 1 0 duo_world" "queue_of duo_world 0 = []"
  using duo_table
  by (simp_all add: the_poller_def duo_fields loop_ready_def idle_def loop_ctl_def queue_of_def demo_loop_def del: fun_upd_apply)
    (simp_all add: demo_loop_def)

lemma duo_fd: "conn_fd 3 duo_world = 7" "conn_fd 6 duo_world = 8" "conn_ch 3 duo_world = 2" "conn_ch 6 duo_world = 5"
  by (simp_all add: conn_fd_def conn_ch_def duo_conns demo_conn_fields)

lemma duo_echo: "echo_conn 1 0 3 duo_world" "echo_conn 1 0 6 duo_world"
proof -
  have at: "conn_at duo_world 3 (the_conn 3 duo_world) demo_channel" "conn_at duo_world 6 (the_conn 6 duo_world) duo_channel"
    using duo_loop(2)
    by (simp_all add: conn_at_def duo_conns duo_fields duo_loop(1) registered_def demo_conn_fields)
      (simp_all add: demo_channel_def duo_channel_def duo_poller_def)
  have wr: "\<not> isWriting demo_channel" "\<not> isWriting duo_channel"
    by (simp_all add: demo_channel_def duo_channel_def isWriting_def has_const)
  have "conn_ok 1 3 duo_world (the_conn 3 duo_world)" "conn_ok 1 6 duo_world (the_conn 6 duo_world)"
    using conn_okI[OF at(1)] conn_okI[OF at(2)] wr duo_loop(3) by (simp_all add: duo_conns demo_conn_fields)
  moreover have "\<not> has_write_cmpl_cb demo_conn" by (simp add: demo_conn_def)
  ultimately show "echo_conn 1 0 3 duo_world" "echo_conn 1 0 6 duo_world"
    by (simp_all add: echo_conn_def duo_fd duo_fields) (simp_all add: duo_conns demo_conn_fields demo_channel_def duo_channel_def)
qed

definition duo_reported :: "pollfd list" where
  "duo_reported = [\<lparr>pfd_fd = 7, pfd_events = ucast ReadEvent, pfd_revents = ucast ReadEvent\<rparr>,
     \<lparr>pfd_fd = 8, pfd_events = ucast ReadEvent, pfd_revents = ucast ReadEvent\<rparr>]"

lemma duo_poll:
  "sys_poll sim_ops (poll_fds duo_poller) kPollTimeMs k = ((2, [ucast ReadEvent, ucast ReadEvent]), k)"
  "poll_ok (poll_fds duo_poller) (2, [ucast ReadEvent, ucast ReadEvent])" "sys_now sim_ops k = (sim_clock k, k)"
  "reported 2 (set_revents (poll_fds duo_poller) [ucast ReadEvent, ucast ReadEvent]) = duo_reported"
  using demo_read_event
  by (auto simp: sim_ops_def sim_poll_def duo_poller_def poll_ok_def ready_def set_revents_def Let_def duo_reported_def
      reported_def less_Suc_eq)

lemma duo_room: "room_to_echo 3 duo_world" "room_to_echo 6 duo_world"
  by (simp_all add: room_to_echo_def duo_conns demo_conn_fields) (simp_all add: demo_buffer_def extrabuf_size_def max_size_def)

text \<open>
  C2: one iteration of the event loop serves every connection. Let any number of open connections of
  the echo server live in a loop with nothing queued, and let \<open>poll(2)\<close> report any of them readable,
  writable or both (without error or hangup, with bytes waiting where it says readable), or none. The
  iteration returns, every connection is open and consistent afterwards and no functor is queued. On
  every connection the bytes sent, pending, unread and still to come are together the same string as
  before: nothing is lost, duplicated, reordered or moved to another connection. Of a readable
  connection at least one waiting byte was read and nothing is left unanswered in its input buffer; a
  connection that \<open>poll\<close> did not report is unchanged.
\<close>

theorem one_iteration_serves_all:
  assumes "stream_kernel K sent rd rx" and "\<forall>conn\<in>G. echo_conn tid l conn w" and "G \<noteq> {}" and "queue_of w l = []"
    and "sys_poll K (poll_fds (the_poller w l)) kPollTimeMs (kern w) = ((n, rs), k1)"
    and "poll_ok (poll_fds (the_poller w l)) (n, rs)" and "sys_now K k1 = (now, k2)"
    and "rep = reported n (set_revents (poll_fds (the_poller w l)) rs)"
    and "\<forall>pfd\<in>set rep. \<exists>conn\<in>G. conn_fd conn w = pfd_fd pfd \<and> room_to_echo conn w \<and>
      \<not> hup_guard (scast (pfd_revents pfd)) \<and> \<not> err_guard (scast (pfd_revents pfd)) \<and>
      (in_guard (scast (pfd_revents pfd)) \<longrightarrow> rd k2 (pfd_fd pfd))"
  shows "okR (loop_iter tid K (echo_call tid K N s) (echo_run tid K N s) l w) (\<lambda>w'. queue_of w' l = [] \<and>
    (\<forall>conn\<in>G. echo_conn tid l conn w' \<and> conn_fd conn w' = conn_fd conn w \<and>
       all_bytes sent rx conn w' = all_bytes sent rx conn w \<and>
       (\<forall>pfd\<in>set rep. pfd_fd pfd = conn_fd conn w \<and> in_guard (scast (pfd_revents pfd)) \<longrightarrow>
          contents (input_buffer (the_conn conn w')) = [] \<and>
          length (rx (kern w') (conn_fd conn w)) < length (rx (kern w) (conn_fd conn w))) \<and>
       (conn_fd conn w \<notin> pfd_fd ` set rep \<longrightarrow> the_conn conn w' = the_conn conn w \<and>
          sent (kern w') (conn_fd conn w) = sent (kern w) (conn_fd conn w))))"
  using iteration_serves[where N = N and s = s, OF assms(1) _ assms(3-8)] assms(2,9) unfolding promised_def by blast

theorem one_iteration_serves_all_witness:
  "okR (loop_iter 1 sim_ops (echo_call 1 sim_ops sim_net 9) (echo_run 1 sim_ops sim_net 9) 0 duo_world) (\<lambda>w'.
    all_bytes sim_tx sim_rx 3 w' = ''ping'' \<and> contents (input_buffer (the_conn 3 w')) = [] \<and>
    length (sim_rx (kern w') 7) < 4 \<and>
    all_bytes sim_tx sim_rx 6 w' = ''pong'' \<and> contents (input_buffer (the_conn 6 w')) = [] \<and>
    length (sim_rx (kern w') 8) < 4)"
proof -
  let ?rd = "\<lambda>k fd. sim_rx k fd \<noteq> []"
  have echo: "\<forall>conn\<in>{3, 6}. echo_conn 1 0 conn duo_world" using duo_echo by simp
  have guards: "in_guard (scast (ucast ReadEvent :: 16 word))" "\<not> hup_guard (scast (ucast ReadEvent :: 16 word))"
    "\<not> err_guard (scast (ucast ReadEvent :: 16 word))" using demo_guards demo_read_event by simp_all
  have "\<forall>pfd\<in>set duo_reported. \<exists>conn\<in>{3, 6}. conn_fd conn duo_world = pfd_fd pfd \<and> room_to_echo conn duo_world \<and>
      \<not> hup_guard (scast (pfd_revents pfd)) \<and> \<not> err_guard (scast (pfd_revents pfd)) \<and>
      (in_guard (scast (pfd_revents pfd)) \<longrightarrow> ?rd (kern duo_world) (pfd_fd pfd))"
    using duo_room guards by (simp add: duo_reported_def duo_fd duo_fields)
  note served = one_iteration_serves_all[where n = 2 and rs = "[ucast ReadEvent, ucast ReadEvent]" and
      ?k1.0 = "kern duo_world" and now = "sim_clock (kern duo_world)" and rep = duo_reported and N = sim_net and s = 9,
      OF sim_stream_kernel echo _ duo_loop(4) _ _ _ _ this]
  have bytes: "all_bytes sim_tx sim_rx 3 duo_world = ''ping''" "all_bytes sim_tx sim_rx 6 duo_world = ''pong''"
    by (simp_all add: all_bytes_def stream_def duo_fd duo_fields duo_conns demo_conn_fields sim_init_def)
  show ?thesis
    by (rule okR_mono[OF served]) (use guards bytes in \<open>auto simp: duo_poll duo_loop(1) duo_fd duo_reported_def duo_fields\<close>)
qed

end
