(* ===== verification/Lifetime.thy ===== *)
theory Lifetime
  imports EchoMain
begin

text \<open>
  Who keeps a \<open>TcpConnection\<close> alive: the \<open>shared_ptr\<close>s of \<open>TcpServer\<close> (\<open>src/src/tcp_server.cpp\<close>), of the
  closures in a loop's queue (\<open>src/src/event_loop.cpp\<close>) and of the application. The connection is freed
  when the last of them goes; its channel and its descriptor go with it. The theory shows that the
  normal way down of a connection frees it, once, after its channel has left the poller, and that a
  closure bound to the plain \<open>this\<close> by \<open>send\<close> or \<open>shutdown\<close> in another thread can outlive it.
\<close>

section \<open>References\<close>

text \<open>
  The closures that hold a \<open>TcpConnectionPtr\<close>; \<open>send\<close> and \<open>shutdown\<close> bind the plain \<open>this\<close>.
\<close>

fun closure_ref :: "closure \<Rightarrow> nat option" where
  "closure_ref (DestroyConnection conn) = Some conn"
| "closure_ref (WriteComplete conn) = Some conn"
| "closure_ref (SendInLoop conn message) = None"
| "closure_ref (ShutdownInLoop conn) = None"
| "closure_ref (AcceptorListen a) = None"

definition refs_in :: "closure list \<Rightarrow> nat \<Rightarrow> nat" where
  "refs_in fs conn = length (filter (\<lambda>f. closure_ref f = Some conn) fs)"

text \<open>The entry of the server's map.\<close>

definition in_map :: "nat \<Rightarrow> ('k, 'z) server_world_scheme \<Rightarrow> nat \<Rightarrow> bool" where
  "in_map s w conn \<longleftrightarrow> (case (servers w s, conns w conn) of
     (Some S, Some C) \<Rightarrow> connections S (conn_name C) = Some conn | _ \<Rightarrow> False)"

text \<open>\<open>held conn\<close> counts the references of the application and of local variables.\<close>

definition use_count :: "nat \<Rightarrow> (nat \<Rightarrow> nat) \<Rightarrow> ('k, 'z) server_world_scheme \<Rightarrow> nat \<Rightarrow> nat" where
  "use_count s held w conn =
     (if in_map s w conn then 1 else 0) + held conn +
     (case (servers w s, conns w conn) of
        (Some S, Some C) \<Rightarrow> refs_in (queue_of w (srv_loop S)) conn +
          (if conn_loop C = srv_loop S then 0 else refs_in (queue_of w (conn_loop C)) conn)
      | _ \<Rightarrow> 0)"

text \<open>A \<open>shared_ptr\<close> goes: the last one takes the object with it.\<close>

definition drop_ref :: "'k sysops \<Rightarrow> nat \<Rightarrow> (nat \<Rightarrow> nat) \<Rightarrow> nat \<Rightarrow> ('k, 'z) server_world_scheme \<Rightarrow>
    ('k, 'z) server_world_scheme res" where
  "drop_ref K s held conn w = (if use_count s held w conn = 0 then TcpConnection_dtor K conn w else Inr w)"

text \<open>The vector \<open>functors\<close> of \<open>doPendingFunctors\<close> goes, closure by closure.\<close>

fun destroy_functors :: "'k sysops \<Rightarrow> nat \<Rightarrow> (nat \<Rightarrow> nat) \<Rightarrow> closure list \<Rightarrow> ('k, 'z) server_world_scheme \<Rightarrow>
    ('k, 'z) server_world_scheme res" where
  "destroy_functors K s held [] w = Inr w"
| "destroy_functors K s held (f # fs) w =
     bindR (case closure_ref f of None \<Rightarrow> Inr w
            | Some conn \<Rightarrow> drop_ref K s (\<lambda>c. held c + refs_in fs c) conn w)
       (destroy_functors K s held fs)"

text \<open>\<open>doPendingFunctors\<close> to the end of its scope: the mutex is released before the vector goes.\<close>

definition doPendingFunctors_scope :: "int \<Rightarrow> 'k sysops \<Rightarrow> nat \<Rightarrow> (nat \<Rightarrow> nat) \<Rightarrow>
    (closure \<Rightarrow> ('k, 'z) server_world_scheme \<Rightarrow> ('k, 'z) server_world_scheme res) \<Rightarrow> nat \<Rightarrow>
    ('k, 'z) server_world_scheme \<Rightarrow> ('k, 'z) server_world_scheme res" where
  "doPendingFunctors_scope tid K s held run l w =
     bindR (deref (loops w) l) (\<lambda>L.
     bindR (doPendingFunctors tid run l w) (destroy_functors K s held (pending_functors L)))"

definition loop_iter_scope :: "int \<Rightarrow> 'k sysops \<Rightarrow> nat \<Rightarrow> (nat \<Rightarrow> nat) \<Rightarrow>
    (chan_cb \<Rightarrow> int \<Rightarrow> ('k, 'z) server_world_scheme \<Rightarrow> ('k, 'z) server_world_scheme res) \<Rightarrow>
    (closure \<Rightarrow> ('k, 'z) server_world_scheme \<Rightarrow> ('k, 'z) server_world_scheme res) \<Rightarrow> nat \<Rightarrow>
    ('k, 'z) server_world_scheme \<Rightarrow> ('k, 'z) server_world_scheme res" where
  "loop_iter_scope tid K s held call run l w =
     bindR (deref (loops w) l) (\<lambda>L.
     bindR (optR NullDeref (loop_poller L)) (\<lambda>p.
     bindR (Poller_poll (sys_poll K) (sys_now K) kPollTimeMs (p, channels w) [] (kern w)) (\<lambda>((now, act), (p', h'), k').
     let w1 = put_loop l (L\<lparr>loop_poller := Some p', poll_return_time := now, active_channels := act\<rparr>)
                (w\<lparr>channels := h', kern := k'\<rparr>) in
     bindR (foldR (handleEvents call now) act w1) (\<lambda>w2.
     doPendingFunctors_scope tid K s held run l w2))))"


section \<open>What destroying leaves of the channels\<close>

text \<open>The channels keep their descriptor and their handling flag while the poller is changed.\<close>

definition kept :: "'cb heap \<Rightarrow> 'cb heap \<Rightarrow> bool" where
  "kept h h' \<longleftrightarrow> (\<forall>d ch. h d = Some ch \<longrightarrow>
     (\<exists>ch'. h' d = Some ch' \<and> ch_fd ch' = ch_fd ch \<and> ch_events_handling ch' = ch_events_handling ch))"

lemma kept_refl [simp]: "kept h h"
  by (simp add: kept_def)

lemma kept_trans: "kept h h1 \<Longrightarrow> kept h1 h2 \<Longrightarrow> kept h h2"
  unfolding kept_def by (metis (mono_tags, lifting))

lemma kept_upd:
  "h c = Some ch \<Longrightarrow> ch_fd ch' = ch_fd ch \<Longrightarrow> ch_events_handling ch' = ch_events_handling ch \<Longrightarrow> kept h (h(c \<mapsto> ch'))"
  by (auto simp: kept_def)

lemma Poller_updateChannel_kept: "safeR (Poller_updateChannel b c (p, h)) (\<lambda>(p', h'). kept h h')"
  by (auto simp: Poller_updateChannel_def Let_def setIndex_def wp intro!: kept_upd)

lemma Poller_removeChannel_kept: "safeR (Poller_removeChannel b c (p, h)) (\<lambda>(p', h'). kept h h')"
  by (auto simp: Poller_removeChannel_def Let_def setIndex_def wp intro!: kept_upd)

lemma through_loop_kept:
  assumes "safeR m (\<lambda>(p', h'). kept (channels w) h')"
  shows "safeR (bindR m (\<lambda>(p', h'). Inr (put_loop l (L\<lparr>loop_poller := Some p'\<rparr>) (w\<lparr>channels := h'\<rparr>))))
    (\<lambda>w'. kept (channels w) (channels w'))"
  by (rule safeR_bindI[OF assms]) auto

lemma EventLoop_updateChannel_kept:
  "safeR (EventLoop_updateChannel tid l c w) (\<lambda>w'. kept (channels w) (channels w'))"
  unfolding EventLoop_updateChannel_def
  by (intro safeR_bind_any safeR_checkI through_loop_kept Poller_updateChannel_kept)

lemma EventLoop_removeChannel_kept:
  "safeR (EventLoop_removeChannel tid l c w) (\<lambda>w'. kept (channels w) (channels w'))"
  unfolding EventLoop_removeChannel_def
  by (intro safeR_bind_any safeR_checkI through_loop_kept Poller_removeChannel_kept)

lemma set_mask_kept: "safeR (set_mask f tid c w) (\<lambda>w'. kept (channels w) (channels w'))"
  unfolding set_mask_def Channel_update_def
proof (intro safeR_bind_deref safeR_bind_any)
  fix ch ch'
  assume ch: "channels w c = Some ch"
  let ?w = "put_channel c (ch\<lparr>ch_events := f (ch_events ch)\<rparr>) w"
  have "kept (channels w) (channels ?w)" using ch by (auto intro!: kept_upd)
  then show "safeR (EventLoop_updateChannel tid (ch_loop ch') c ?w) (\<lambda>w'. kept (channels w) (channels w'))"
    by (intro safeR_mono[OF EventLoop_updateChannel_kept]) (rule kept_trans)
qed

lemma destroyConnection_parts:
  assumes "destroyConnection tid CB conn w = Inr w'" and "cb_observes CB conn"
  obtains C w1 where "conns w conn = Some C"
    and "set_mask (\<lambda>ev. NoneEvent) tid (conn_channel C) (put_conn conn (setState Disconnected C) w) = Inr w1"
    and "EventLoop_removeChannel tid (conn_loop C) (conn_channel C) w1 = Inr w'"
proof -
  obtain C w1 w2 where C: "conns w conn = Some C"
    and w1: "set_mask (\<lambda>ev. NoneEvent) tid (conn_channel C) (put_conn conn (setState Disconnected C) w) = Inr w1"
    and w2: "connection_cb CB conn w1 = Inr w2" "EventLoop_removeChannel tid (conn_loop C) (conn_channel C) w2 = Inr w'"
    using assms(1) by (auto simp: destroyConnection_def mask_ops call_member_def res_iffs)
  have "conns w1 conn \<noteq> None" using set_mask_conns[OF w1] by simp
  then have "w2 = w1" using assms(2) w2(1) by (simp add: cb_observes_def)
  then show ?thesis using that C w1 w2(2) by blast
qed

lemma destroyConnection_kept:
  assumes "destroyConnection tid CB conn w = Inr w'" and "cb_observes CB conn"
  shows "kept (channels w) (channels w')"
  using assms
proof (rule destroyConnection_parts)
  fix C w1
  assume w1: "set_mask (\<lambda>ev. NoneEvent) tid (conn_channel C) (put_conn conn (setState Disconnected C) w) = Inr w1"
    and w': "EventLoop_removeChannel tid (conn_loop C) (conn_channel C) w1 = Inr w'"
  have "kept (channels w) (channels w1)"
    using set_mask_kept[of "\<lambda>ev. NoneEvent" tid "conn_channel C" "put_conn conn (setState Disconnected C) w"] w1 by simp
  moreover have "kept (channels w1) (channels w')"
    using EventLoop_removeChannel_kept[of tid "conn_loop C" "conn_channel C" w1] w' by simp
  ultimately show ?thesis by (rule kept_trans)
qed

lemma batch_parts:
  assumes "doPendingFunctors tid (run_closure tid K CB listen) l w = Inr w'" and "queue_of w l = [DestroyConnection conn]"
  obtains L w2 L2 where "loops w l = Some L" and "destroyConnection tid CB conn (batch_start tid l L w) = Inr w2"
    and "loops w2 l = Some L2" and "w' = put_loop l (L2\<lparr>calling_pending_functors := False, mutex_holder := None\<rparr>) w2"
proof -
  obtain L where L: "loops w l = Some L" "mutex_holder L = None"
    using assms(1) by (auto simp: doPendingFunctors_def lock_mutex_def res_iffs)
  have "pending_functors L = [DestroyConnection conn]" using assms(2) L(1) by (simp add: queue_of_def)
  then show ?thesis
    using that[OF L(1)] assms(1) doPendingFunctors_eq[OF L, of tid "run_closure tid K CB listen"] by (auto simp: res_iffs)
qed

lemma batch_kept:
  assumes "doPendingFunctors tid (run_closure tid K CB listen) l w = Inr w'" and "queue_of w l = [DestroyConnection conn]"
    and "cb_observes CB conn"
  shows "kept (channels w) (channels w')"
  using assms(1,2)
  by (rule batch_parts) (use destroyConnection_kept[OF _ assms(3)] in \<open>fastforce simp: batch_start_def\<close>)


section \<open>Freeing an unregistered channel\<close>

lemma at_slot_free:
  assumes "\<And>fd. channel_map p fd \<noteq> Some c"
  shows "at_slot p (h(c := None)) fd d i \<longleftrightarrow> at_slot p h fd d i"
  using assms by (auto simp: at_slot_def)

lemma table_inv_free:
  assumes "table_inv (p, h)" and free: "\<And>fd. channel_map p fd \<noteq> Some c"
  shows "table_inv (p, h(c := None))" and "interest p (h(c := None)) = interest p h"
proof -
  have "poller_inv p (h(c := None))" using assms by (simp add: table_inv_def poller_inv_def at_slot_free)
  moreover have "events_synced p (h(c := None))"
    using assms(1) at_slot_free[OF free, of h] by (auto simp: table_inv_def events_synced_def)
  ultimately show "table_inv (p, h(c := None))" by (simp add: table_inv_def)
  show "interest p (h(c := None)) = interest p h"
    using free by (auto simp: interest_def fun_eq_iff split: option.splits)
qed

text \<open>A channel whose descriptor is off the table is named by no entry of the poller's map.\<close>

lemma off_table:
  assumes "table_inv (p, h)" and "h c = Some ch" and "interest p h (ch_fd ch) = None"
  shows "channel_map p fd \<noteq> Some c"
proof
  assume fd: "channel_map p fd = Some c"
  have inv: "poller_inv p h" using assms(1) by (simp add: table_inv_def)
  obtain i where "at_slot p h fd c i" using poller_invD(2)[OF inv fd] by blast
  then have "ch_fd ch = fd" using assms(2) by (auto simp: at_slot_def)
  then show False using fd assms(3) interest_None[OF inv] by simp
qed


section \<open>The way down\<close>

text \<open>Freeing a connection whose channel is off the poller.\<close>

lemma TcpConnection_dtor_ok:
  assumes C: "conns w conn = Some C" and ch: "channels w (conn_channel C) = Some ch" "\<not> ch_events_handling ch"
    and ready: "loop_ready w l" and off: "interest (the_poller w l) (channels w) (ch_fd ch) = None"
  shows "okR (TcpConnection_dtor K conn w) (\<lambda>w'. conns w' = (conns w)(conn := None) \<and>
    channels w' = (channels w)(conn_channel C := None) \<and> kern w' = Socket_dtor K (conn_socket C) (kern w) \<and>
    loops w' = loops w \<and> tcp_world.more w' = tcp_world.more w \<and> loop_ready w' l \<and>
    interest (the_poller w' l) (channels w') = interest (the_poller w l) (channels w))"
proof -
  obtain L p where L: "loops w l = Some L" "loop_poller L = Some p" "the_poller w l = p" and inv: "table_inv (p, channels w)"
    using ready by (rule loop_readyE)
  have free: "channel_map p fd \<noteq> Some (conn_channel C)" for fd
    using off_table[OF inv ch(1)] off L(3) by simp
  note kept = table_inv_free[OF inv free]
  show ?thesis
    using C ch L kept
    by (simp add: TcpConnection_dtor_def Channel_dtor_def loop_ready_def the_poller_def del: fun_upd_apply)
qed

text \<open>
  The next batch destroys the connection, and the end of the scope of \<open>doPendingFunctors\<close> frees it, unless
  the application holds a reference.
\<close>

lemma batch_frees:
  assumes at: "conn_at w conn C ch" and idle: "idle tid (conn_loop C) w"
    and q: "queue_of w (conn_loop C) = [DestroyConnection conn]"
    and st: "conn_state C \<in> {Connected, Disconnecting}" and cb: "has_connection_cb C" "cb_observes CB conn"
    and S: "servers w s = Some S" "srv_loop S = conn_loop C" "connections S (conn_name C) = None"
    and flag: "\<not> ch_events_handling ch"
  shows "okR (doPendingFunctors_scope tid K s held (run_closure tid K CB listen) (conn_loop C) w) (\<lambda>w'.
    loop_ready w' (conn_loop C) \<and> idle tid (conn_loop C) w' \<and> queue_of w' (conn_loop C) = [] \<and> servers w' = servers w \<and>
    interest (the_poller w' (conn_loop C)) (channels w') =
      (interest (the_poller w (conn_loop C)) (channels w))(conn_socket C := None) \<and>
    (if held conn = 0 then conns w' conn = None \<and> channels w' (conn_channel C) = None \<and>
       kern w' = Socket_dtor K (conn_socket C) (kern w)
     else conns w' conn = Some (setState Disconnected C) \<and> kern w' = kern w))"
proof -
  let ?l = "conn_loop C" and ?C = "setState Disconnected C"
  obtain w1 where w1: "doPendingFunctors tid (run_closure tid K CB listen) ?l w = Inr w1"
    and post: "conns w1 conn = Some ?C" "loop_ready w1 ?l" "idle tid ?l w1" "queue_of w1 ?l = []"
      "interest (the_poller w1 ?l) (channels w1) = (interest (the_poller w ?l) (channels w))(conn_socket C := None)"
      "tcp_world.more w1 = tcp_world.more w" "kern w1 = kern w"
    using batch_destroys[OF at idle q st cb, of K listen] unfolding okR_iff_ex by blast
  obtain L where L: "loops w ?l = Some L" "pending_functors L = [DestroyConnection conn]"
    using idle q by (auto simp: idle_def loop_ctl_def queue_of_def)
  have srv: "servers w1 = servers w" using post(6) by (rule servers_more)
  obtain ch1 where ch1: "channels w1 (conn_channel ?C) = Some ch1" "ch_fd ch1 = conn_socket C" "\<not> ch_events_handling ch1"
    using batch_kept[OF w1 q cb(2), unfolded kept_def, rule_format, of "conn_channel C" ch] at flag
    by (auto simp: conn_at_def setState_def)
  have count: "use_count s (\<lambda>c. held c + refs_in [] c) w1 conn = held conn"
    using S post(1,4) srv by (simp add: use_count_def in_map_def refs_in_def setState_def)
  have scope: "doPendingFunctors_scope tid K s held (run_closure tid K CB listen) ?l w =
      (if held conn = 0 then TcpConnection_dtor K conn w1 else Inr w1)"
    using L w1 count
    by (cases "TcpConnection_dtor K conn w1") (simp_all add: doPendingFunctors_scope_def drop_ref_def)
  show ?thesis
  proof (cases "held conn = 0")
    case True
    have off: "interest (the_poller w1 ?l) (channels w1) (ch_fd ch1) = None" using post(5) ch1(2) by simp
    have same: "idle tid ?l w' = idle tid ?l w1 \<and> queue_of w' ?l = queue_of w1 ?l" if "loops w' = loops w1" for w'
      using that by (simp add: idle_def loop_ctl_def queue_of_def)
    show ?thesis
      unfolding scope if_P[OF True]
      using TcpConnection_dtor_ok[OF post(1) ch1(1,3) post(2) off, of K]
      by (rule okR_mono) (use post srv same True in \<open>auto simp: setState_def dest!: servers_more\<close>)
  next
    case False
    then show ?thesis unfolding scope using post srv by simp
  qed
qed

text \<open>End of file: \<open>handleRead\<close> closes the connection and takes it out of the map.\<close>

lemma eof_closes:
  assumes ok: "conn_ok tid conn w C" and K: "readv_contract K" and ch: "channels w (conn_channel C) = Some ch"
    and room: "length (buffer_vec (input_buffer C)) + extrabuf_size \<le> max_size"
    and sys: "sys_readv K (conn_socket C) [writableBytes (input_buffer C), extrabuf_size] (kern w) = ((0, data, e), k')"
    and st: "conn_state C \<in> {Connected, Disconnecting}" and cb: "has_close_cb C"
    and S: "servers w s = Some S" "srv_loop S = conn_loop C" "connections S (conn_name C) = Some conn"
  shows "okR (handleRead tid K (server_cbs tid K s CB) conn t w) (\<lambda>w'. \<exists>b i.
    conn_at w' conn (C\<lparr>input_buffer := b\<rparr>) (ch\<lparr>ch_events := NoneEvent, ch_index := i\<rparr>) \<and> kern w' = k' \<and>
    idle tid (conn_loop C) w' \<and> queue_of w' (conn_loop C) = queue_of w (conn_loop C) @ [DestroyConnection conn] \<and>
    contents b = contents (input_buffer C) \<and>
    servers w' = (servers w)(s \<mapsto> S\<lparr>connections := (connections S)(conn_name C := None)\<rparr>))"
proof -
  have "data = []" using K sys unfolding readv_contract_def by fastforce
  then obtain b where b: "contents b = contents (input_buffer C)"
    "conn_ok tid conn (with_input conn C b k' w) (C\<lparr>input_buffer := b\<rparr>)"
    and eq: "handleRead tid K (server_cbs tid K s CB) conn t w = handleClose tid (server_cbs tid K s CB) conn (with_input conn C b k' w)"
    using handleRead_eq[OF ok K room sys, of "server_cbs tid K s CB" t] by (auto simp: Let_def)
  let ?C = "C\<lparr>input_buffer := b\<rparr>" and ?w = "with_input conn C b k' w"
  obtain ch1 L where at: "conn_at ?w conn ?C ch1" and idle: "idle tid (conn_loop ?C) ?w"
    using b(2) by (rule conn_okE)
  have ch1: "ch1 = ch" using at ch by (simp add: conn_at_def with_input_def)
  have w: "servers ?w = servers w" "kern ?w = k'" "queue_of ?w (conn_loop C) = queue_of w (conn_loop C)"
    by (simp_all add: with_input_def)
  have "okR (handleClose tid (server_cbs tid K s CB) conn ?w) (\<lambda>w'. \<exists>i.
    conn_at w' conn ?C (ch1\<lparr>ch_events := NoneEvent, ch_index := i\<rparr>) \<and> kern w' = kern ?w \<and>
    idle tid (conn_loop ?C) w' \<and> queue_of w' (conn_loop ?C) = queue_of ?w (conn_loop ?C) @ [DestroyConnection conn] \<and>
    conns w' = conns ?w \<and>
    servers w' = (servers ?w)(s \<mapsto> S\<lparr>connections := (connections S)(conn_name ?C := None)\<rparr>))"
    by (rule close_removes[OF at idle]) (use st cb S w in simp_all)
  then show ?thesis
    unfolding eq by (rule okR_mono) (use b(1) w ch1 in auto)
qed

lemma conn_at_flag:
  assumes "conn_at w conn C ch"
  shows "conn_at (put_channel (conn_channel C) (ch\<lparr>ch_events_handling := b\<rparr>) w) conn C (ch\<lparr>ch_events_handling := b\<rparr>)"
proof -
  let ?w = "put_channel (conn_channel C) (ch\<lparr>ch_events_handling := b\<rparr>) w"
  have ch: "channels w (conn_channel C) = Some ch" using assms by (simp add: conn_at_def)
  note alike = cores_alike_flag[of "channels w" "conn_channel C" ch b, OF ch]
  have "loop_ready ?w (conn_loop C)"
    using assms table_inv_alike[OF alike] by (auto simp: conn_at_def loop_ready_def simp del: fun_upd_apply)
  moreover have "registered (the_poller ?w (conn_loop C)) (channels ?w) (conn_channel C)"
    using assms registered_alike[OF alike] by (simp add: conn_at_def the_poller_def del: fun_upd_apply)
  ultimately show ?thesis using assms by (simp add: conn_at_def)
qed

lemma echo_cbs_server: "server_cbs tid K s (echo_cbs tid K run s) = echo_cbs tid K run s"
  by (simp add: server_cbs_def echo_cbs_def)

lemma echo_cbs_observe: "cb_observes (echo_cbs tid K run s) conn"
  by (auto simp: cb_observes_def echo_cbs_def onConnection_def)

text \<open>One iteration in which \<open>poll\<close> has marked the connection alone and \<open>readv\<close> finds the end of the stream.\<close>

lemma eof_iteration:
  assumes K: "readv_contract K" and ok: "conn_ok tid conn w C" and st: "conn_state C \<in> {Connected, Disconnecting}"
    and cb: "has_close_cb C" "has_connection_cb C" and q: "queue_of w (conn_loop C) = []"
    and L: "loops w (conn_loop C) = Some L" "loop_poller L = Some p"
    and poll: "Poller_poll (sys_poll K) (sys_now K) kPollTimeMs (p, channels w) [] (kern w) =
      Inr ((now, [conn_channel C]), (p', h'), k2)" "table_inv (p', h')" "same_but_revents h' (channels w)"
      "channel_map p' = channel_map p"
    and ch: "h' (conn_channel C) = Some ch" "ch_read_cb ch = Some (ConnHandleRead conn)"
    and ev: "in_guard (ch_revents ch)" "\<not> hup_guard (ch_revents ch)" "\<not> err_guard (ch_revents ch)" "\<not> out_guard (ch_revents ch)"
    and room: "length (buffer_vec (input_buffer C)) + extrabuf_size \<le> max_size"
    and sys: "sys_readv K (conn_socket C) [writableBytes (input_buffer C), extrabuf_size] k2 = ((0, data, e), k')"
    and S: "servers w s = Some S" "srv_loop S = conn_loop C" "connections S (conn_name C) = Some conn"
  shows "okR (loop_iter_scope tid K s held (echo_call tid K N s) (echo_run tid K N s) (conn_loop C) w) (\<lambda>w'.
    servers w' = (servers w)(s \<mapsto> S\<lparr>connections := (connections S)(conn_name C := None)\<rparr>) \<and>
    loop_ready w' (conn_loop C) \<and> interest (the_poller w' (conn_loop C)) (channels w') (conn_socket C) = None \<and>
    idle tid (conn_loop C) w' \<and> queue_of w' (conn_loop C) = [] \<and>
    (if held conn = 0 then conns w' conn = None \<and> channels w' (conn_channel C) = None \<and>
       kern w' = Socket_dtor K (conn_socket C) k'
     else (\<exists>C'. conns w' conn = Some C' \<and> conn_state C' = Disconnected) \<and> kern w' = k'))"
proof -
  let ?c = "conn_channel C" and ?call = "echo_call tid K N s" and ?run = "echo_run tid K N s"
  let ?S = "S\<lparr>connections := (connections S)(conn_name C := None)\<rparr>"
  define w1 where "w1 = polled (conn_loop C) L p' now [?c] h' k2 w"
  have ok1: "conn_ok tid conn w1 C" and q1: "queue_of w1 (conn_loop C) = []"
    using conn_ok_polled[OF ok L(1) poll(3,2)] poll(4) L q by (simp_all add: w1_def the_poller_def)
  define w2 where "w2 = put_channel ?c (ch\<lparr>ch_events_handling := True\<rparr>) w1"
  have c1: "channels w1 ?c = Some ch" using ch(1) by (simp add: w1_def)
  have ok2: "conn_ok tid conn w2 C" unfolding w2_def using ok1 c1 by (rule conn_ok_flag)
  have w2: "kern w2 = k2" "queue_of w2 (conn_loop C) = []" "servers w2 = servers w" "channels w2 ?c = Some (ch\<lparr>ch_events_handling := True\<rparr>)"
    using q1 by (simp_all add: w2_def w1_def queue_of_def polled_def)
  obtain w3 b i where read: "?call (ConnHandleRead conn) now w2 = Inr w3"
    and at3: "conn_at w3 conn (C\<lparr>input_buffer := b\<rparr>) (ch\<lparr>ch_events_handling := True, ch_events := NoneEvent, ch_index := i\<rparr>)"
    and w3: "kern w3 = k'" "idle tid (conn_loop C) w3" "queue_of w3 (conn_loop C) = [DestroyConnection conn]"
      "servers w3 = (servers w)(s \<mapsto> ?S)"
    using eof_closes[OF ok2 K w2(4) room, of data e k' s S "echo_cbs tid K ?run s" now] sys st cb(1) S w2
    unfolding okR_iff_ex echo_cbs_server by auto
  let ?ch = "ch\<lparr>ch_events_handling := True, ch_events := NoneEvent, ch_index := i\<rparr>" and ?C = "C\<lparr>input_buffer := b\<rparr>"
  define w4 where "w4 = put_channel ?c (?ch\<lparr>ch_events_handling := False\<rparr>) w3"
  have he: "handleEvents ?call now ?c w1 = Inr w4"
    unfolding w4_def
    using c1 ch(2) ev read[unfolded w2_def] by (rule handleEvents_read) (use at3 in \<open>simp_all add: conn_at_def same_wiring_def\<close>)
  have at4: "conn_at w4 conn ?C (?ch\<lparr>ch_events_handling := False\<rparr>)"
    using conn_at_flag[OF at3, of False] by (simp add: w4_def)
  have w4: "idle tid (conn_loop ?C) w4" "queue_of w4 (conn_loop ?C) = [DestroyConnection conn]" "servers w4 = servers w3" "kern w4 = k'"
    using w3 by (simp_all add: w4_def idle_def loop_ctl_def queue_of_def)
  have "loop_iter_scope tid K s held ?call ?run (conn_loop C) w = doPendingFunctors_scope tid K s held ?run (conn_loop C) w4"
    using L poll(1) he by (simp add: loop_iter_scope_def Let_def polled_def[symmetric] w1_def[symmetric])
  moreover have "okR (doPendingFunctors_scope tid K s held ?run (conn_loop ?C) w4) (\<lambda>w'.
    loop_ready w' (conn_loop ?C) \<and> idle tid (conn_loop ?C) w' \<and> queue_of w' (conn_loop ?C) = [] \<and> servers w' = servers w4 \<and>
    interest (the_poller w' (conn_loop ?C)) (channels w') =
      (interest (the_poller w4 (conn_loop ?C)) (channels w4))(conn_socket ?C := None) \<and>
    (if held conn = 0 then conns w' conn = None \<and> channels w' (conn_channel ?C) = None \<and>
       kern w' = Socket_dtor K (conn_socket ?C) (kern w4)
     else conns w' conn = Some (setState Disconnected ?C) \<and> kern w' = kern w4))"
    unfolding echo_run_def
    by (rule batch_frees[OF at4 w4(1,2), where S = ?S]) (use st cb(2) S(2) w3(4) w4(3) echo_cbs_observe in simp_all)
  ultimately show ?thesis
    using w3(4) w4(3,4) by (auto simp: setState_def elim!: okR_mono)
qed


section \<open>A closure that outlives its connection\<close>

text \<open>Destroying a connection leaves the wake-up descriptors alone.\<close>

definition wakeups :: "('cb, 'f, 'k, 'z) reactor_scheme \<Rightarrow> nat \<Rightarrow> int option option" where
  "wakeups w l = map_option wakeup_fd (loops w l)"

lemma updateChannel_wakeups: "EventLoop_updateChannel tid l c w = Inr w' \<Longrightarrow> wakeups w' = wakeups w"
  by (auto simp: EventLoop_updateChannel_def bindR_eq_Inr_iff deref_eq_Inr_iff check_def wakeups_def fun_eq_iff
      split: if_splits prod.splits)

lemma removeChannel_wakeups: "EventLoop_removeChannel tid l c w = Inr w' \<Longrightarrow> wakeups w' = wakeups w"
  by (auto simp: EventLoop_removeChannel_def bindR_eq_Inr_iff deref_eq_Inr_iff check_def wakeups_def fun_eq_iff
      split: if_splits prod.splits)

lemma wakeups_frame [simp]:
  "wakeups (put_channel c ch w) = wakeups w" "wakeups (put_conn conn C v) = wakeups v"
  by (simp_all add: wakeups_def fun_eq_iff)

lemma set_mask_wakeups: "set_mask f tid c w = Inr w' \<Longrightarrow> wakeups w' = wakeups w"
  by (auto simp: set_mask_def Channel_update_def bindR_eq_Inr_iff dest!: updateChannel_wakeups)

lemma destroyConnection_wakeups:
  assumes "destroyConnection tid CB conn w = Inr w'" and "cb_observes CB conn"
  shows "wakeups w' = wakeups w"
  using assms by (rule destroyConnection_parts) (auto dest!: removeChannel_wakeups set_mask_wakeups)

lemma batch_wakeups:
  assumes "doPendingFunctors tid (run_closure tid K CB listen) l w = Inr w'" and "queue_of w l = [DestroyConnection conn]"
    and "cb_observes CB conn"
  shows "wakeups w' = wakeups w"
  using assms(1,2)
proof (rule batch_parts)
  fix L w2 L2
  assume L: "loops w l = Some L" and w2: "destroyConnection tid CB conn (batch_start tid l L w) = Inr w2" "loops w2 l = Some L2"
    "w' = put_loop l (L2\<lparr>calling_pending_functors := False, mutex_holder := None\<rparr>) w2"
  have "wakeups w' = wakeups w2" using w2(2,3) by (auto simp: wakeups_def fun_eq_iff)
  also have "\<dots> = wakeups w"
    using destroyConnection_wakeups[OF w2(1) assms(3)] L by (auto simp: batch_start_def wakeups_def fun_eq_iff)
  finally show ?thesis .
qed

text \<open>
  The destruction has been queued when another thread, having found the connection still open, comes to
  queue its closure.
\<close>

lemma late_closure:
  assumes at: "conn_at w conn C ch" and idle: "idle tid (conn_loop C) w"
    and q: "queue_of w (conn_loop C) = [DestroyConnection conn]"
    and st: "conn_state C \<in> {Connected, Disconnecting}" and cb: "has_connection_cb C" "cb_observes CB conn"
    and S: "servers w s = Some S" "srv_loop S = conn_loop C" "connections S (conn_name C) = None"
    and flag: "\<not> ch_events_handling ch"
    and wake: "wakeups w (conn_loop C) = Some (Some fd)" and tid': "tid' \<noteq> tid" and raw: "closure_ref f = None"
  shows "\<exists>w3. bindR (doPendingFunctors tid (run_closure tid K CB listen) (conn_loop C) w) (\<lambda>w1.
      bindR (queueInLoop tid' K (conn_loop C) f w1) (destroy_functors K s (\<lambda>c. 0) [DestroyConnection conn])) = Inr w3 \<and>
    conns w3 conn = None \<and> idle tid (conn_loop C) w3 \<and> queue_of w3 (conn_loop C) = [f]"
proof -
  let ?l = "conn_loop C" and ?C = "setState Disconnected C"
  obtain w1 where w1: "doPendingFunctors tid (run_closure tid K CB listen) ?l w = Inr w1"
    and post: "conns w1 conn = Some ?C" "idle tid ?l w1" "queue_of w1 ?l = []" "tcp_world.more w1 = tcp_world.more w"
    using batch_destroys[OF at idle q st cb, of K listen] unfolding okR_iff_ex by blast
  obtain ch1 where ch1: "channels w1 (conn_channel C) = Some ch1" "\<not> ch_events_handling ch1"
    using batch_kept[OF w1 q cb(2), unfolded kept_def, rule_format, of "conn_channel C" ch] at flag
    by (auto simp: conn_at_def)
  obtain L where L: "loops w1 ?l = Some L" "thread_id L = tid" "mutex_holder L = None" "\<not> calling_pending_functors L"
    "pending_functors L = []"
    using post(2,3) by (auto simp: idle_def loop_ctl_def queue_of_def)
  have "wakeup_fd L = Some fd" using batch_wakeups[OF w1 q cb(2)] wake L(1) by (auto simp: wakeups_def dest: fun_cong[of _ _ ?l])
  then have queue: "queueInLoop tid' K ?l f w1 =
      Inr (put_loop ?l (L\<lparr>pending_functors := [f]\<rparr>) (w1\<lparr>kern := snd (sys_write K fd one_bytes (kern w1))\<rparr>))"
    using queueInLoop_wakes[OF L(1,3)] L(2,5) tid' by (simp add: isInLoopThread_def)
  let ?w2 = "put_loop ?l (L\<lparr>pending_functors := [f]\<rparr>) (w1\<lparr>kern := snd (sys_write K fd one_bytes (kern w1))\<rparr>)"
  have "servers w1 = servers w" using post(4) by (rule servers_more)
  then have "use_count s (\<lambda>c. 0) ?w2 conn = 0"
    using S post(1) raw by (simp add: use_count_def in_map_def refs_in_def setState_def queue_of_def)
  then have "destroy_functors K s (\<lambda>c. 0) [DestroyConnection conn] ?w2 = TcpConnection_dtor K conn ?w2"
    by (cases "TcpConnection_dtor K conn ?w2") (simp_all add: drop_ref_def refs_in_def)
  also have "\<dots> = Inr (?w2\<lparr>channels := (channels ?w2)(conn_channel C := None), conns := (conns ?w2)(conn := None),
            kern := Socket_dtor K (conn_socket C) (kern ?w2)\<rparr>)"
    using post(1) ch1 by (simp add: TcpConnection_dtor_def Channel_dtor_def setState_def)
  finally show ?thesis
    using w1 queue L by (simp add: idle_def loop_ctl_def queue_of_def)
qed


section \<open>Properties\<close>

text \<open>
  C3: the whole way down of a connection in one iteration of the loop. When \<open>poll(2)\<close> reports the
  descriptor of a connection of the echo server, and it alone, readable and \<open>readv\<close> finds the end of the
  stream, the iteration (\<open>Poller::poll\<close>, \<open>Channel::handleEvents\<close>, \<open>handleRead\<close>, \<open>handleClose\<close>,
  \<open>TcpServer::removeConnection\<close>, \<open>doPendingFunctors\<close>, \<open>destroyConnection\<close>) returns; the name is out of the
  map, the descriptor off the poller, whose tables are consistent, the loop is idle with an empty
  queue. If the application holds no reference the connection and its channel are freed and the
  descriptor has been closed once, as the last system call; otherwise the connection is still there,
  Disconnected, and its descriptor is open.
\<close>

theorem one_iteration_closes_and_frees:
  assumes "readv_contract K" and "conn_ok tid conn w C" and "conn_state C \<in> {Connected, Disconnecting}"
    and "has_close_cb C" and "has_connection_cb C" and "queue_of w (conn_loop C) = []"
    and "channels w (conn_channel C) = Some ch" and "ch_read_cb ch = Some (ConnHandleRead conn)"
    and "sys_poll K (poll_fds (the_poller w (conn_loop C))) kPollTimeMs (kern w) = ((1, rs), k1)"
    and "poll_ok (poll_fds (the_poller w (conn_loop C))) (1, rs)" and "sys_now K k1 = (now, k2)"
    and "ready (set_revents (poll_fds (the_poller w (conn_loop C))) rs) = [pfd]" and "pfd_fd pfd = conn_socket C"
    and "in_guard (scast (pfd_revents pfd))" and "\<not> hup_guard (scast (pfd_revents pfd))"
    and "\<not> err_guard (scast (pfd_revents pfd))" and "\<not> out_guard (scast (pfd_revents pfd))"
    and "length (buffer_vec (input_buffer C)) + extrabuf_size \<le> max_size"
    and "sys_readv K (conn_socket C) [writableBytes (input_buffer C), extrabuf_size] k2 = ((0, data, e), k')"
    and "servers w s = Some S" and "srv_loop S = conn_loop C" and "connections S (conn_name C) = Some conn"
  shows "okR (loop_iter_scope tid K s held (echo_call tid K N s) (echo_run tid K N s) (conn_loop C) w) (\<lambda>w'.
    servers w' = (servers w)(s \<mapsto> S\<lparr>connections := (connections S)(conn_name C := None)\<rparr>) \<and>
    loop_ready w' (conn_loop C) \<and> interest (the_poller w' (conn_loop C)) (channels w') (conn_socket C) = None \<and>
    idle tid (conn_loop C) w' \<and> queue_of w' (conn_loop C) = [] \<and>
    (if held conn = 0 then conns w' conn = None \<and> channels w' (conn_channel C) = None \<and>
       kern w' = Socket_dtor K (conn_socket C) k'
     else (\<exists>C'. conns w' conn = Some C' \<and> conn_state C' = Disconnected) \<and> kern w' = k'))"
proof -
  obtain L p p' h' ch1 where L: "loops w (conn_loop C) = Some L" "loop_poller L = Some p"
    and poll: "Poller_poll (sys_poll K) (sys_now K) kPollTimeMs (p, channels w) [] (kern w) =
        Inr ((now, [conn_channel C]), (p', h'), k2)" "table_inv (p', h')" "same_but_revents h' (channels w)"
      "channel_map p' = channel_map p"
    and ch1: "h' (conn_channel C) = Some ch1" "ch_revents ch1 = scast (pfd_revents pfd)" "ch_read_cb ch1 = ch_read_cb ch"
    using assms(2,7,9-13) by (rule poll_marks_alone)
  show ?thesis
    using assms(8,14-17) ch1(2,3)
    by (intro eof_iteration[OF assms(1-6) L poll ch1(1) _ _ _ _ _ assms(18-22)]) simp_all
qed

theorem one_iteration_closes_and_frees_witness:
  "okR (loop_iter_scope 1 sim_ops 9 (\<lambda>c. 0) (echo_call 1 sim_ops sim_net 9) (echo_run 1 sim_ops sim_net 9) 0 demo_server_world) (\<lambda>w'.
    conns w' 3 = None \<and> channels w' 2 = None \<and> loop_ready w' 0 \<and> queue_of w' 0 = [])"
proof -
  let ?k = "sim_init\<lparr>sim_rx := (sim_rx sim_init)(7 := [])\<rparr>"
  have ok: "conn_ok 1 3 demo_server_world demo_conn" by (rule demo_ok) (simp_all add: demo_server_world_fields)
  have w: "queue_of demo_server_world (conn_loop demo_conn) = []" "channels demo_server_world (conn_channel demo_conn) = Some demo_channel"
    "ch_read_cb demo_channel = Some (ConnHandleRead 3)" "the_poller demo_server_world 0 = demo_poller"
    by (simp_all add: demo_server_world_fields demo_conn_fields queue_of_def demo_loop_def demo_channel_def the_poller_def)
  have c: "conn_state demo_conn \<in> {Connected, Disconnecting}" "has_close_cb demo_conn" "has_connection_cb demo_conn"
    "connections demo_server (conn_name demo_conn) = Some 3"
    by (simp_all add: demo_conn_def demo_server_fields)
  have sys: "sys_readv sim_ops (conn_socket demo_conn) [writableBytes (input_buffer demo_conn), extrabuf_size] sim_init = ((0, [], 0), ?k)"
    by (simp add: demo_conn_fields sim_ops_def sim_readv_def Let_def sim_init_def)
  have room: "length (buffer_vec (input_buffer demo_conn)) + extrabuf_size \<le> max_size"
    by (simp add: demo_conn_def demo_buffer_def extrabuf_size_def max_size_def)
  show ?thesis
    using one_iteration_closes_and_frees[where rs = "[ucast ReadEvent]" and ?k1.0 = sim_init and now = "sim_clock sim_init" and
        ?k2.0 = sim_init and pfd = demo_pfd and S = demo_server and s = 9 and held = "\<lambda>c. 0" and N = sim_net,
        OF sim_readv_contract ok c(1-3) w(1-3) _ _ _ _ _ _ _ _ _ room sys]
      c(4) w(4)
    by (simp add: demo_poll demo_guards demo_read_event demo_conn_fields demo_pfd_def demo_server_world_fields demo_server_fields)
      (auto elim!: okR_mono)
qed

text \<open>
  C33: a closure bound to the plain \<open>this\<close> outlives its connection. The destruction of a connection is
  queued and the connection is still Connected; another thread calls \<open>send\<close>, whose test of the state
  succeeds and which goes on to queue \<open>sendInLoop\<close>; the loop's batch holds the mutex until
  \<open>destroyConnection\<close> has run, so the closure enters the queue behind it; when the vector of the batch
  and the other thread's reference are gone the connection is freed, and the next batch runs
  \<open>sendInLoop\<close> on the freed object.
\<close>

theorem late_send_uses_freed_connection:
  assumes "conn_at w conn C ch" and "idle tid (conn_loop C) w" and "queue_of w (conn_loop C) = [DestroyConnection conn]"
    and "conn_state C = Connected" and "has_connection_cb C" and "cb_observes CB conn"
    and "servers w s = Some S" and "srv_loop S = conn_loop C" and "connections S (conn_name C) = None"
    and "\<not> ch_events_handling ch" and "wakeups w (conn_loop C) = Some (Some fd)" and "tid' \<noteq> tid"
  shows "send tid' K run conn m w = queueInLoop tid' K (conn_loop C) (SendInLoop conn m) w \<and>
    bindR (doPendingFunctors tid (run_closure tid K CB listen) (conn_loop C) w) (\<lambda>w1.
    bindR (queueInLoop tid' K (conn_loop C) (SendInLoop conn m) w1) (\<lambda>w2.
    bindR (destroy_functors K s (\<lambda>c. 0) [DestroyConnection conn] w2)
      (doPendingFunctors tid (run_closure tid K CB listen) (conn_loop C)))) = Inl NullDeref"
proof -
  let ?l = "conn_loop C" and ?R = "run_closure tid K CB listen" and ?f = "SendInLoop conn m"
  obtain L where L: "loops w ?l = Some L" "thread_id L = tid" using assms(2) by (auto simp: idle_def loop_ctl_def)
  have send: "send tid' K run conn m w = queueInLoop tid' K ?l ?f w"
    using assms(1,4,12) L by (simp add: send_def runInLoop_def isInLoopThread_def conn_at_def)
  obtain w1 w2 w3 where w1: "doPendingFunctors tid ?R ?l w = Inr w1" and w2: "queueInLoop tid' K ?l ?f w1 = Inr w2"
    and w3: "destroy_functors K s (\<lambda>c. 0) [DestroyConnection conn] w2 = Inr w3"
    and post: "conns w3 conn = None" "idle tid ?l w3" "queue_of w3 ?l = [?f]"
    using late_closure[OF assms(1-3) _ assms(5-12), of ?f K listen] assms(4) by (auto simp: res_iffs)
  obtain L3 where L3: "loops w3 ?l = Some L3" "mutex_holder L3 = None" "pending_functors L3 = [?f]"
    using post(2,3) by (auto simp: idle_def loop_ctl_def queue_of_def)
  have "doPendingFunctors tid ?R ?l w3 = Inl NullDeref"
    using doPendingFunctors_eq[OF L3(1,2), of tid ?R] L3(3) post(1) by (simp add: sendInLoop_def batch_start_def)
  then show ?thesis using send w1 w2 w3 by simp
qed

theorem late_send_uses_freed_connection_witness:
  "let w = put_loop 0 (demo_loop\<lparr>pending_functors := [DestroyConnection 3]\<rparr>)
         (demo_server_world\<lparr>servers := [9 \<mapsto> demo_server\<lparr>connections := Map.empty\<rparr>]\<rparr>);
       run = run_closure 1 sim_ops demo_server_cbs (\<lambda>a. Inr) in
   bindR (doPendingFunctors 1 run 0 w) (\<lambda>w1.
   bindR (queueInLoop 8 sim_ops 0 (SendInLoop 3 ''late'') w1) (\<lambda>w2.
   bindR (destroy_functors sim_ops 9 (\<lambda>c. 0) [DestroyConnection 3] w2) (doPendingFunctors 1 run 0))) = Inl NullDeref"
proof -
  let ?v = "demo_server_world\<lparr>servers := [9 \<mapsto> demo_server\<lparr>connections := Map.empty\<rparr>]\<rparr>"
  let ?w = "put_loop 0 (demo_loop\<lparr>pending_functors := [DestroyConnection 3]\<rparr>) ?v"
  have "conn_at ?v 3 demo_conn demo_channel" by (rule demo_at) (simp_all add: demo_server_world_fields)
  then have at: "conn_at ?w 3 demo_conn demo_channel" by (rule conn_at_ctl[where L = demo_loop]) (simp_all add: demo_server_world_fields)
  have idle: "idle 1 (conn_loop demo_conn) ?w" "queue_of ?w (conn_loop demo_conn) = [DestroyConnection 3]"
    by (simp_all add: idle_def loop_ctl_def queue_of_def demo_loop_def demo_conn_fields)
  have c: "conn_state demo_conn = Connected" "has_connection_cb demo_conn" "cb_observes demo_server_cbs 3"
    "\<not> ch_events_handling demo_channel" "wakeups ?w (conn_loop demo_conn) = Some (Some 4)"
    by (simp_all add: demo_conn_def cb_observes_def demo_server_cbs_def demo_channel_def wakeups_def demo_loop_def)
  show ?thesis
    using late_send_uses_freed_connection[OF at idle c(1-3), where s = 9 and S = "demo_server\<lparr>connections := Map.empty\<rparr>" and
        tid' = 8 and fd = 4 and K = sim_ops and listen = "\<lambda>a. Inr" and m = "''late''"] c
    by (simp add: demo_conn_fields demo_server_fields Let_def)
qed

end
