(* ===== verification/Timestamp.thy ===== *)
theory Timestamp
  imports InetAddr "HOL-Library.Log_Nat" "HOL-Library.Signed_Division"
begin

text \<open>
  \<open>class Timestamp\<close> (\<open>src/src/include/timestamp.h\<close>, \<open>src/src/timestamp.cpp\<close>): a signed 64-bit
  count of microseconds, ordered by \<open>operator<\<close>, with its text form and the two conversions
  between a number of microseconds and a \<open>double\<close> number of seconds. \<open>double\<close> arithmetic is
  that of IEEE 754: the exact result is rounded to 53 significant bits, ties to even.
  \<open>gettimeofday\<close> and \<open>gmtime_r\<close> are parameters.
\<close>

section \<open>Signed 64-bit integers\<close>

definition int64 :: "int \<Rightarrow> int res" where
  "int64 x = check (- (2 ^ 63) \<le> x \<and> x < 2 ^ 63) SignedOverflow (Inr x)"

lemma int64_in_range [simp]: "- (2 ^ 63) \<le> x \<Longrightarrow> x < 2 ^ 63 \<Longrightarrow> int64 x = Inr x"
  by (simp add: int64_def)

lemma okR_int64 [wp]: "okR (int64 x) P \<longleftrightarrow> - (2 ^ 63) \<le> x \<and> x < 2 ^ 63 \<and> P x"
  by (simp add: int64_def wp)

lemma int64_eq_Inr_iff: "int64 x = Inr y \<longleftrightarrow> - (2 ^ 63) \<le> x \<and> x < 2 ^ 63 \<and> y = x"
  by (auto simp: int64_def check_def)


section \<open>Double-precision numbers\<close>

text \<open>
  A finite \<open>double\<close> is \<open>m * 2 ^ e\<close>. The exponent has no bounds here: a product or quotient whose
  exponent leaves the range of a \<open>double\<close> is too large for \<open>int64_t\<close> or truncates to zero.
\<close>

datatype double = Finite int int | Infinity bool | NaN

definition rnd53 :: "int \<Rightarrow> int" where
  "rnd53 n = (let p = \<bar>n\<bar>; s = nat (bitlen p - 53); q = p div 2 ^ s; r = p mod 2 ^ s;
     q' = (if 2 ^ s < 2 * r \<or> 2 ^ s = 2 * r \<and> odd q then q + 1 else q)
     in sgn n * (q' * 2 ^ s))"

definition double_of_int :: "int \<Rightarrow> double" where
  "double_of_int n = Finite (rnd53 n) 0"

fun double_mult :: "double \<Rightarrow> int \<Rightarrow> double" where
  "double_mult (Finite m e) c = Finite (rnd53 (m * c)) e"
| "double_mult (Infinity pos) c = (if c = 0 then NaN else Infinity (pos \<longleftrightarrow> 0 < c))"
| "double_mult NaN c = NaN"

text \<open>
  Division by a positive integer below \<open>2 ^ 20\<close>: at least 60 bits of the quotient are computed,
  and a last bit that tells whether there is a remainder, before the result is rounded.
\<close>

fun double_div :: "double \<Rightarrow> int \<Rightarrow> double" where
  "double_div (Finite m e) c =
     (let p = \<bar>m\<bar> * 2 ^ 80; n = 2 * (p div c) + (if p mod c = 0 then 0 else 1)
      in Finite (sgn m * rnd53 n) (e - 81))"
| "double_div (Infinity pos) c = Infinity pos"
| "double_div NaN c = NaN"

fun double_positive :: "double \<Rightarrow> bool" where
  "double_positive (Finite m e) \<longleftrightarrow> 0 < m"
| "double_positive (Infinity pos) \<longleftrightarrow> pos"
| "double_positive NaN \<longleftrightarrow> False"

text \<open>\<open>static_cast<int64_t>\<close> truncates; a value out of range is undefined behaviour.\<close>

fun trunc_int64 :: "double \<Rightarrow> int res" where
  "trunc_int64 (Finite m e) =
     int64 (if 0 \<le> e then m * 2 ^ nat e else sgn m * (\<bar>m\<bar> div 2 ^ nat (- e)))"
| "trunc_int64 (Infinity pos) = Inl SignedOverflow"
| "trunc_int64 NaN = Inl SignedOverflow"


section \<open>The class\<close>

datatype timestamp = Timestamp (microSecondsSinceEpoch: int)

definition microSecondsPerSecond :: int where
  "microSecondsPerSecond = 1000 * 1000"

definition Timestamp_default :: timestamp where
  "Timestamp_default = Timestamp 0"

definition valid :: "timestamp \<Rightarrow> bool" where
  "valid t \<longleftrightarrow> microSecondsSinceEpoch t > 0"

definition invalid :: timestamp where
  "invalid = Timestamp_default"

definition Timestamp_swap :: "timestamp \<Rightarrow> timestamp \<Rightarrow> timestamp \<times> timestamp" where
  "Timestamp_swap this that = (let tmp = microSecondsSinceEpoch this in
     (Timestamp (microSecondsSinceEpoch that), Timestamp tmp))"

text \<open>\<open>operator<\<close> and \<open>operator==\<close>; the first is the strict part of a linear order.\<close>

definition Timestamp_less :: "timestamp \<Rightarrow> timestamp \<Rightarrow> bool" where
  "Timestamp_less lhs rhs \<longleftrightarrow> microSecondsSinceEpoch lhs < microSecondsSinceEpoch rhs"

definition Timestamp_equal :: "timestamp \<Rightarrow> timestamp \<Rightarrow> bool" where
  "Timestamp_equal lhs rhs \<longleftrightarrow> microSecondsSinceEpoch lhs = microSecondsSinceEpoch rhs"

instantiation timestamp :: linorder
begin

definition less_timestamp :: "timestamp \<Rightarrow> timestamp \<Rightarrow> bool" where
  "less_timestamp = Timestamp_less"

definition less_eq_timestamp :: "timestamp \<Rightarrow> timestamp \<Rightarrow> bool" where
  "less_eq_timestamp lhs rhs \<longleftrightarrow> Timestamp_less lhs rhs \<or> Timestamp_equal lhs rhs"

instance
  by standard (auto simp: less_timestamp_def less_eq_timestamp_def Timestamp_less_def
      Timestamp_equal_def intro: timestamp.expand)

end

text \<open>\<open>gettimeofday\<close> gives seconds and microseconds.\<close>

definition Timestamp_now :: "('k \<Rightarrow> (int \<times> int) \<times> 'k) \<Rightarrow> 'k \<Rightarrow> (timestamp \<times> 'k) res" where
  "Timestamp_now gettimeofday k =
     (let ((tv_sec, tv_usec), k') = gettimeofday k; seconds = tv_sec in
      bindR (int64 (seconds * microSecondsPerSecond)) (\<lambda>us.
      bindR (int64 (us + tv_usec)) (\<lambda>t. Inr (Timestamp t, k'))))"

definition timeDifference :: "timestamp \<Rightarrow> timestamp \<Rightarrow> double res" where
  "timeDifference high low =
     bindR (int64 (microSecondsSinceEpoch high - microSecondsSinceEpoch low)) (\<lambda>diff.
     Inr (double_div (double_of_int diff) microSecondsPerSecond))"

definition addTime :: "timestamp \<Rightarrow> double \<Rightarrow> timestamp res" where
  "addTime timestamp seconds =
     bindR (trunc_int64 (double_mult seconds microSecondsPerSecond)) (\<lambda>delta.
     bindR (int64 (microSecondsSinceEpoch timestamp + delta)) (\<lambda>t. Inr (Timestamp t)))"


section \<open>Text\<close>

text \<open>The conversions \<open>%0wd\<close> and \<open>%wd\<close> of \<open>snprintf\<close>.\<close>

definition show_zero_padded :: "nat \<Rightarrow> int \<Rightarrow> string" where
  "show_zero_padded w i = (if i < 0 then ''-'' else []) @
     replicate (w - length (show_int i)) CHR ''0'' @ show_nat (nat \<bar>i\<bar>)"

definition show_padded :: "nat \<Rightarrow> int \<Rightarrow> string" where
  "show_padded w i = replicate (w - length (show_int i)) CHR '' '' @ show_int i"

definition toString :: "timestamp \<Rightarrow> string" where
  "toString t =
     (let seconds = microSecondsSinceEpoch t sdiv microSecondsPerSecond;
          microseconds = microSecondsSinceEpoch t smod microSecondsPerSecond in
      snprintf (32 - 1) (show_int seconds @ ''.'' @ show_zero_padded 6 microseconds))"

text \<open>\<open>struct tm\<close>, as far as the code reads it.\<close>

record tm =
  tm_year :: int
  tm_mon :: int
  tm_mday :: int
  tm_hour :: int
  tm_min :: int
  tm_sec :: int

definition toFormattedString :: "(int \<Rightarrow> tm) \<Rightarrow> timestamp \<Rightarrow> string" where
  "toFormattedString gmtime_r t =
     (let seconds = microSecondsSinceEpoch t sdiv microSecondsPerSecond;
          microseconds = microSecondsSinceEpoch t smod microSecondsPerSecond;
          tm_time = gmtime_r seconds in
      snprintf 64 (show_padded 4 (tm_year tm_time + 1900) @ show_zero_padded 2 (tm_mon tm_time + 1) @
        show_zero_padded 2 (tm_mday tm_time) @ '' '' @ show_zero_padded 2 (tm_hour tm_time) @ '':'' @
        show_zero_padded 2 (tm_min tm_time) @ '':'' @ show_zero_padded 2 (tm_sec tm_time) @ ''.'' @
        show_zero_padded 6 microseconds))"


section \<open>Rounding\<close>

lemma less_Timestamp [simp]: "Timestamp a < Timestamp b \<longleftrightarrow> a < b" "Timestamp a \<le> Timestamp b \<longleftrightarrow> a \<le> b"
  by (auto simp: less_timestamp_def less_eq_timestamp_def Timestamp_less_def Timestamp_equal_def)

lemma rnd53_minus [simp]: "rnd53 (- n) = - rnd53 n"
  by (simp add: rnd53_def Let_def sgn_minus)

lemma rnd53_zero [simp]: "rnd53 0 = 0"
  by (simp add: rnd53_def)

text \<open>An integer of at most 53 bits is exact; otherwise the error is at most half a unit.\<close>

lemma bitlen_le53: "0 \<le> p \<Longrightarrow> p < 2 ^ 53 \<Longrightarrow> bitlen p \<le> 53"
  by (cases "p = 0") (auto simp: bitlen_le_iff_power)

lemma rnd53_exact: "\<bar>n\<bar> < 2 ^ 53 \<Longrightarrow> rnd53 n = n"
  using bitlen_le53[of "\<bar>n\<bar>"] by (simp add: rnd53_def Let_def sgn_mult_abs)

lemma half_even_error:
  fixes p :: int
  assumes "0 < d" and "q' = p div d \<and> 2 * (p mod d) \<le> d \<or> q' = p div d + 1 \<and> d \<le> 2 * (p mod d)"
  shows "2 * \<bar>q' * d - p\<bar> \<le> d"
proof -
  have p: "p = p div d * d + p mod d" by simp
  have r: "0 \<le> p mod d" "p mod d < d" using assms(1) by simp_all
  from assms(2) show ?thesis
  proof
    assume "q' = p div d \<and> 2 * (p mod d) \<le> d"
    then have "q' * d - p = - (p mod d)" and "2 * (p mod d) \<le> d"
      by (simp_all add: minus_mult_div_eq_mod[symmetric] mult.commute)
    then show ?thesis using r by simp
  next
    assume "q' = p div d + 1 \<and> d \<le> 2 * (p mod d)"
    then have "q' * d - p = d - p mod d" and "d \<le> 2 * (p mod d)" using p by (simp_all add: algebra_simps)
    then show ?thesis using r by simp
  qed
qed

lemma rnd53_error_pos:
  assumes "0 < n"
  shows "\<bar>rnd53 n - n\<bar> * 2 ^ 53 \<le> n"
proof (cases "bitlen n \<le> 53")
  case True
  then show ?thesis using assms by (simp add: rnd53_def)
next
  case False
  define s where "s = nat (bitlen n - 53)"
  define q' where "q' = (if 2 ^ s < 2 * (n mod 2 ^ s) \<or> 2 ^ s = 2 * (n mod 2 ^ s) \<and> odd (n div 2 ^ s)
    then n div 2 ^ s + 1 else n div 2 ^ s)"
  have rnd: "rnd53 n = q' * 2 ^ s"
    using assms by (simp add: rnd53_def Let_def s_def q'_def)
  have "2 * \<bar>rnd53 n - n\<bar> \<le> 2 ^ s"
    unfolding rnd by (rule half_even_error) (auto simp: q'_def)
  then have "\<bar>rnd53 n - n\<bar> * 2 ^ 53 \<le> 2 ^ s * 2 ^ 52" by simp
  moreover have e: "nat (bitlen n - 1) = s + 52" using False by (simp add: s_def)
  moreover have "(2 :: int) ^ nat (bitlen n - 1) = 2 ^ s * 2 ^ 52"
    by (simp add: e power_add)
  ultimately show ?thesis using bitlen_bounds[OF assms] by linarith
qed

lemma rnd53_error: "\<bar>rnd53 n - n\<bar> * 2 ^ 53 \<le> \<bar>n\<bar>"
proof -
  consider "0 < n" | "n = 0" | "0 < - n" by linarith
  then show ?thesis
  proof cases
    case 3
    then show ?thesis using rnd53_error_pos[of "- n"] by (simp add: abs_minus_commute)
  qed (use rnd53_error_pos[of n] in simp_all)
qed


text \<open>A whole number of seconds is added exactly.\<close>

lemma addTime_whole_seconds:
  assumes "\<bar>n\<bar> * 1000000 < 2 ^ 53" and "- (2 ^ 63) \<le> a + n * 1000000" and "a + n * 1000000 < 2 ^ 63"
  shows "addTime (Timestamp a) (Finite n 0) = Inr (Timestamp (a + n * 1000000))"
proof -
  have "rnd53 (n * 1000000) = n * 1000000"
    using assms(1) by (intro rnd53_exact) (simp add: abs_mult)
  moreover have "int64 (n * 1000000) = Inr (n * 1000000)"
    using assms(1) by (intro int64_in_range) (simp_all add: abs_if split: if_splits)
  ultimately show ?thesis
    using assms(2,3) by (simp add: addTime_def microSecondsPerSecond_def)
qed

lemma sticky_bounds:
  fixes c :: int
  assumes "0 < c" and "n = 2 * (P div c) + (if P mod c = 0 then 0 else 1)"
  shows "2 * P - c \<le> n * c \<and> n * c \<le> 2 * P + c"
proof -
  have P: "2 * P = 2 * (P div c) * c + 2 * (P mod c)"
    unfolding mult.assoc using div_mult_mod_eq[of P c] by linarith
  have r: "0 \<le> P mod c" "P mod c < c" using assms(1) by simp_all
  show ?thesis
    unfolding assms(2) distrib_right using P r by (cases "P mod c = 0") simp_all
qed

text \<open>
  Dividing a number of microseconds by a million and multiplying it back rounds twice; the
  truncation then gives the number or one less.
\<close>

lemma div_mult_error:
  assumes d: "0 < d" "d \<le> 3200000000000000"
    and n: "n = 2 * (d * 2 ^ 80 div 1000000) + (if d * 2 ^ 80 mod 1000000 = 0 then 0 else 1)"
  shows "rnd53 (rnd53 n * 1000000) div 2 ^ 81 \<in> {d - 1, d}"
proof -
  define m1 where "m1 = rnd53 n"
  define m2 where "m2 = rnd53 (m1 * 1000000)"
  have n_bounds: "d * 2 ^ 81 - 1000000 \<le> n * 1000000" "n * 1000000 \<le> d * 2 ^ 81 + 1000000"
    using sticky_bounds[OF _ n] by simp_all
  then have "0 < n" using d by simp
  then have m1: "\<bar>m1 - n\<bar> * 2 ^ 53 \<le> n" using rnd53_error[of n] by (simp add: m1_def)
  have "0 < m1" using m1 \<open>0 < n\<close> by (simp add: abs_if split: if_splits)
  then have m2: "\<bar>m2 - m1 * 1000000\<bar> * 2 ^ 53 \<le> m1 * 1000000"
    using rnd53_error[of "m1 * 1000000"] by (simp add: m2_def)
  have "(d - 1) * 2 ^ 81 \<le> m2" "m2 < (d + 1) * 2 ^ 81"
    using n_bounds m1 m2 d by (simp_all add: abs_if split: if_splits)
  then have "d - 1 \<le> m2 div 2 ^ 81" "m2 div 2 ^ 81 < d + 1"
    using div_mult_mod_eq[of m2 "2 ^ 81"] pos_mod_bound[of "2 ^ 81" m2] pos_mod_sign[of "2 ^ 81" m2]
    by simp_all
  then show ?thesis by (auto simp: m1_def m2_def)
qed


lemma trunc_signed: "0 \<le> m \<Longrightarrow> trunc_int64 (Finite (sgn d * m) (- 81)) = int64 (sgn d * (m div 2 ^ 81))"
  by (auto simp: sgn_if abs_mult)

lemma add_difference:
  assumes d: "\<bar>a - b\<bar> \<le> 3200000000000000"
    and a: "- (2 ^ 63) < a" "a < 2 ^ 63 - 1"
  shows "okR (bindR (timeDifference (Timestamp a) (Timestamp b)) (addTime (Timestamp b)))
    (\<lambda>t. \<bar>microSecondsSinceEpoch t - a\<bar> \<le> 1 \<and> \<bar>microSecondsSinceEpoch t - b\<bar> \<le> \<bar>a - b\<bar>)"
proof -
  define d where "d = a - b"
  define n where "n = 2 * (\<bar>d\<bar> * 2 ^ 80 div 1000000) + (if \<bar>d\<bar> * 2 ^ 80 mod 1000000 = 0 then 0 else 1)"
  define m where "m = rnd53 (rnd53 n * 1000000)"
  have "int64 (a - b) = Inr d" using d by (simp add: d_def)
  moreover have "rnd53 d = d" using d by (intro rnd53_exact) (simp add: d_def)
  ultimately have diff: "timeDifference (Timestamp a) (Timestamp b) = Inr (Finite (sgn d * rnd53 n) (- 81))"
    by (simp add: timeDifference_def double_of_int_def microSecondsPerSecond_def n_def Let_def)
  have "rnd53 (sgn d * rnd53 n * 1000000) = sgn d * m"
    by (cases "d = 0") (auto simp: m_def sgn_if)
  then have "double_mult (Finite (sgn d * rnd53 n) (- 81)) microSecondsPerSecond = Finite (sgn d * m) (- 81)"
    by (simp add: microSecondsPerSecond_def)
  moreover have "0 \<le> m \<and> m div 2 ^ 81 \<in> {\<bar>d\<bar> - 1, \<bar>d\<bar>} \<and> 0 \<le> m div 2 ^ 81"
  proof (cases "d = 0")
    case True
    then show ?thesis by (simp add: m_def n_def)
  next
    case False
    then have x: "m div 2 ^ 81 \<in> {\<bar>d\<bar> - 1, \<bar>d\<bar>}"
      unfolding m_def using d by (intro div_mult_error n_def) (simp_all add: d_def)
    then have "0 \<le> m div 2 ^ 81" using False by auto
    then have "0 \<le> m" by (simp add: pos_imp_zdiv_nonneg_iff)
    then show ?thesis using x \<open>0 \<le> m div 2 ^ 81\<close> by blast
  qed
  then obtain x where m: "0 \<le> m" and x: "m div 2 ^ 81 = x" "x = \<bar>d\<bar> - 1 \<or> x = \<bar>d\<bar>" "0 \<le> x" by blast
  have sx: "\<bar>b + sgn d * x - a\<bar> \<le> 1 \<and> \<bar>sgn d * x\<bar> \<le> \<bar>d\<bar>"
    using x(2,3) by (auto simp: d_def sgn_if)
  have "int64 y = Inr y \<and> int64 (b + y) = Inr (b + y)" if "\<bar>b + y - a\<bar> \<le> 1" "\<bar>y\<bar> \<le> \<bar>d\<bar>" for y
    using that d a by (auto simp: int64_def check_def d_def abs_le_iff)
  then have "int64 (sgn d * x) = Inr (sgn d * x)" and "int64 (b + sgn d * x) = Inr (b + sgn d * x)"
    using sx by blast+
  ultimately have "addTime (Timestamp b) (Finite (sgn d * rnd53 n) (- 81)) = Inr (Timestamp (b + sgn d * x))"
    using trunc_signed[OF m, of d] x(1) by (simp add: addTime_def)
  then show ?thesis using sx by (simp add: diff d_def)
qed


section \<open>Reading the text back\<close>

lemma sdiv_smod_nonneg: "0 \<le> (a :: int) \<Longrightarrow> 0 < b \<Longrightarrow> a sdiv b = a div b \<and> a smod b = a mod b"
  by (auto simp: signed_divide_int_def signed_modulo_int_def sgn_if minus_mult_div_eq_mod minus_div_mult_eq_mod)

lemma show_int_nonneg: "0 \<le> i \<Longrightarrow> show_int i = show_nat (nat i)"
  by (simp add: show_int_def)

lemma show_zero_padded_nonneg:
  "0 \<le> i \<Longrightarrow> show_zero_padded w i = replicate (w - length (show_nat (nat i))) CHR ''0'' @ show_nat (nat i)"
  by (simp add: show_zero_padded_def show_int_nonneg)

lemma length_show_zero_padded:
  "0 \<le> i \<Longrightarrow> i < 10 ^ Suc k \<Longrightarrow> length (show_zero_padded (Suc k) i) = Suc k"
proof -
  assume i: "0 \<le> i" "i < 10 ^ Suc k"
  then have "nat i < 10 ^ Suc k" by (simp add: nat_less_iff)
  then show ?thesis using length_show_nat[of "nat i" k] i(1) by (simp add: show_zero_padded_nonneg)
qed

lemma read_nat_zeros: "read_nat (replicate n CHR ''0'' @ s) = read_nat s"
  by (induction n) (simp_all add: read_nat_def)

lemma read_zero_padded: "0 \<le> i \<Longrightarrow> read_nat (show_zero_padded w i) = nat i"
  by (simp add: show_zero_padded_nonneg read_nat_zeros)

lemma no_dot_show_nat: "CHR ''.'' \<notin> set (show_nat n)"
  using show_nat_digits[of n] is_digit_facts by blast

lemma zero_padded_digits: "0 \<le> i \<Longrightarrow> list_all is_digit (show_zero_padded w i)"
  using show_nat_digits[of "nat i"] by (auto simp: show_zero_padded_nonneg list_all_iff is_digit_def)

lemma no_dot_zero_padded: "0 \<le> i \<Longrightarrow> CHR ''.'' \<notin> set (show_zero_padded w i)"
  using zero_padded_digits[of i w] is_digit_facts by (auto simp: list_all_iff)

text \<open>The 31 bytes given to \<open>snprintf\<close> are enough: the text is complete.\<close>

lemma toString_nonneg:
  assumes "0 \<le> t" and "t < 2 ^ 63"
  shows "toString (Timestamp t) =
    show_nat (nat (t div 1000000)) @ ''.'' @ show_zero_padded 6 (t mod 1000000)"
proof -
  have "t div 1000000 < 10 ^ 13" using assms by simp
  then have "nat (t div 1000000) < 10 ^ Suc 12" using assms(1) by (simp add: nat_less_iff)
  then have "length (show_nat (nat (t div 1000000))) \<le> 13"
    using length_show_nat[of _ 12] by simp
  moreover have "length (show_zero_padded 6 (t mod 1000000)) = 6"
    using length_show_zero_padded[of "t mod 1000000" 5] by simp
  ultimately show ?thesis
    using sdiv_smod_nonneg[OF assms(1), of 1000000] assms(1)
    by (simp add: toString_def microSecondsPerSecond_def snprintf_def show_int_nonneg pos_imp_zdiv_nonneg_iff)
qed

definition of_text :: "string \<Rightarrow> timestamp option" where
  "of_text s = (case split_dots s of
     [a, b] \<Rightarrow> Some (Timestamp (int (read_nat a) * microSecondsPerSecond + int (read_nat b)))
   | _ \<Rightarrow> None)"

lemma of_text_toString:
  assumes "0 \<le> t" and "t < 2 ^ 63"
  shows "of_text (toString (Timestamp t)) = Some (Timestamp t)"
proof -
  have "split_dots (toString (Timestamp t)) =
      [show_nat (nat (t div 1000000)), show_zero_padded 6 (t mod 1000000)]"
    using assms by (simp add: toString_nonneg split_join split_plain no_dot_show_nat no_dot_zero_padded)
  then show ?thesis
    using assms(1) by (simp add: of_text_def read_zero_padded microSecondsPerSecond_def pos_imp_zdiv_nonneg_iff)
qed

text \<open>With a broken-down time of a four-digit year the formatted text has 24 characters.\<close>

definition tm_ok :: "tm \<Rightarrow> bool" where
  "tm_ok x \<longleftrightarrow> - 900 \<le> tm_year x \<and> tm_year x < 8100 \<and> 0 \<le> tm_mon x \<and> tm_mon x < 12 \<and>
     1 \<le> tm_mday x \<and> tm_mday x \<le> 31 \<and> 0 \<le> tm_hour x \<and> tm_hour x < 24 \<and> 0 \<le> tm_min x \<and>
     tm_min x < 60 \<and> 0 \<le> tm_sec x \<and> tm_sec x \<le> 60"

lemma length_two_digits: "0 \<le> i \<Longrightarrow> i < 100 \<Longrightarrow> length (show_zero_padded 2 i) = 2"
  using length_show_zero_padded[of i 1] by (simp add: numeral_2_eq_2)

lemma length_four_digits: "1000 \<le> i \<Longrightarrow> i < 10000 \<Longrightarrow> length (show_padded 4 i) = 4"
proof -
  assume i: "1000 \<le> i" "i < 10000"
  then have "length (show_nat (nat i)) \<le> 4"
    using length_show_nat[of "nat i" 3] by (simp add: nat_less_iff)
  then show ?thesis using i by (simp add: show_padded_def show_int_nonneg)
qed

lemma length_toFormattedString:
  assumes "0 \<le> t" and "tm_ok (g (t div 1000000))"
  shows "length (toFormattedString g (Timestamp t)) = 24"
proof -
  have "length (show_zero_padded 6 (t mod 1000000)) = 6"
    using length_show_zero_padded[of "t mod 1000000" 5] by simp
  then show ?thesis
    using sdiv_smod_nonneg[OF assms(1), of 1000000] assms(2)
    by (auto simp: toFormattedString_def microSecondsPerSecond_def snprintf_def tm_ok_def Let_def
        length_two_digits length_four_digits)
qed


section \<open>Properties\<close>

text \<open>
  C30: the text form of a timestamp after the epoch is complete and exact. The 31 bytes handed to
  \<open>snprintf\<close> are enough for every 64-bit count, the text is the seconds, a dot and six digits,
  and reading it back gives the timestamp.
\<close>

theorem timestamp_text_roundtrip:
  assumes "0 \<le> microSecondsSinceEpoch t" and "microSecondsSinceEpoch t < 2 ^ 63"
  shows "of_text (toString t) = Some t \<and>
    (\<exists>s us. toString t = s @ ''.'' @ us \<and> list_all is_digit s \<and> list_all is_digit us \<and> length us = 6)"
proof -
  obtain a where t: "t = Timestamp a" and a: "0 \<le> a" "a < 2 ^ 63" using assms by (cases t) simp
  have "length (show_zero_padded 6 (a mod 1000000)) = 6"
    using length_show_zero_padded[of "a mod 1000000" 5] by simp
  moreover have "list_all is_digit (show_nat (nat (a div 1000000)))"
    using show_nat_digits by (simp add: list_all_iff)
  ultimately show ?thesis
    unfolding t toString_nonneg[OF a, symmetric] using of_text_toString[OF a] toString_nonneg[OF a]
      zero_padded_digits[of "a mod 1000000" 6] by (simp, blast)
qed

theorem timestamp_text_roundtrip_witness:
  "of_text (toString (Timestamp 1630000000000042)) = Some (Timestamp 1630000000000042)"
  using timestamp_text_roundtrip[of "Timestamp 1630000000000042"] by simp

text \<open>
  C29: the resolution of \<open>double\<close> seconds. For two timestamps less than a hundred years apart,
  adding their \<open>timeDifference\<close> to the earlier one gives the other or, because \<open>addTime\<close>
  truncates, a timestamp one microsecond short of it; never one beyond it.
\<close>

theorem difference_is_within_a_microsecond:
  assumes "\<bar>microSecondsSinceEpoch high - microSecondsSinceEpoch low\<bar> \<le> 100 * 366 * 24 * 3600 * 1000000"
    and "- (2 ^ 63) < microSecondsSinceEpoch high" and "microSecondsSinceEpoch high < 2 ^ 63 - 1"
  shows "okR (bindR (timeDifference high low) (addTime low)) (\<lambda>t.
    \<bar>microSecondsSinceEpoch t - microSecondsSinceEpoch high\<bar> \<le> 1 \<and>
    \<bar>microSecondsSinceEpoch t - microSecondsSinceEpoch low\<bar> \<le>
      \<bar>microSecondsSinceEpoch high - microSecondsSinceEpoch low\<bar>)"
  using add_difference[of "microSecondsSinceEpoch high" "microSecondsSinceEpoch low"] assms
  by (cases high; cases low) simp

theorem difference_is_within_a_microsecond_witness:
  "okR (bindR (timeDifference (Timestamp 1249) (Timestamp 1000)) (addTime (Timestamp 1000)))
    (\<lambda>t. \<bar>microSecondsSinceEpoch t - 1249\<bar> \<le> 1)"
  using difference_is_within_a_microsecond[of "Timestamp 1249" "Timestamp 1000"]
  by (auto elim: okR_mono)

text \<open>The microsecond is really lost: a difference of 249 microseconds comes back as 248.\<close>

lemma microsecond_lost:
  "bindR (timeDifference (Timestamp 1249) (Timestamp 1000)) (addTime (Timestamp 1000)) = Inr (Timestamp 1248)"
  by code_simp

end
