(* ===== verification/Threads.thy ===== *)
theory Threads
  imports EventLoop Timestamp
begin

text \<open>
  \<open>class Thread\<close>, \<open>namespace CurrentThread\<close> and \<open>struct ThreadData\<close> (\<open>src/src/include/thread.h\<close>,
  \<open>src/src/thread.cpp\<close>) and \<open>class CountDownLatch\<close> (\<open>src/src/count_down_latch.cpp\<close>).

  The operations are split where a thread may block; \<open>Latch\<close> and \<open>LoopThread\<close> build step relations from
  the pieces: a step of a thread runs up to the next lock, wait or shared access. A thread that waits
  on a condition variable gives up the mutex, is woken by a notification or spuriously, and takes the
  mutex again before it goes on.
\<close>

section \<open>Mutex and condition variable\<close>

text \<open>Generic in the threads: the holder of the mutex and the threads waiting for a notification.\<close>

record 't monitor =
  mon_holder :: "'t option"
  mon_waiters :: "'t list"

definition monitor_init :: "'t monitor" where
  "monitor_init = \<lparr>mon_holder = None, mon_waiters = []\<rparr>"

definition mon_lock :: "'t \<Rightarrow> 't monitor \<Rightarrow> 't monitor" where
  "mon_lock t m = m\<lparr>mon_holder := Some t\<rparr>"

definition mon_unlock :: "'t monitor \<Rightarrow> 't monitor" where
  "mon_unlock m = m\<lparr>mon_holder := None\<rparr>"

definition mon_wait :: "'t \<Rightarrow> 't monitor \<Rightarrow> 't monitor" where
  "mon_wait t m = m\<lparr>mon_holder := None, mon_waiters := mon_waiters m @ [t]\<rparr>"

definition mon_notify_one :: "'t monitor \<Rightarrow> 't monitor" where
  "mon_notify_one m = m\<lparr>mon_waiters := drop 1 (mon_waiters m)\<rparr>"

definition mon_notify_all :: "'t monitor \<Rightarrow> 't monitor" where
  "mon_notify_all m = m\<lparr>mon_waiters := []\<rparr>"

definition mon_spurious :: "'t \<Rightarrow> 't monitor \<Rightarrow> 't monitor" where
  "mon_spurious t m = m\<lparr>mon_waiters := removeAll t (mon_waiters m)\<rparr>"

lemmas mon_defs = monitor_init_def mon_lock_def mon_unlock_def mon_wait_def mon_notify_one_def
  mon_notify_all_def mon_spurious_def


section \<open>CountDownLatch\<close>

record 't latch =
  latch_count :: int
  latch_mon :: "'t monitor"

definition CountDownLatch_ctor :: "int \<Rightarrow> 't latch" where
  "CountDownLatch_ctor count = \<lparr>latch_count = count, latch_mon = monitor_init\<rparr>"

text \<open>The condition of the loop in \<open>wait\<close>, tested with the mutex held: wait again, or go on.\<close>

definition latch_must_wait :: "'t latch \<Rightarrow> bool" where
  "latch_must_wait c \<longleftrightarrow> latch_count c > 0"

text \<open>The body of \<open>countDown\<close> with the mutex held, and its release at the end of the scope.\<close>

definition countDown :: "'t latch \<Rightarrow> 't latch" where
  "countDown c = (let n = latch_count c - 1; m = (if n = 0 then mon_notify_all (latch_mon c) else latch_mon c) in
     \<lparr>latch_count = n, latch_mon = mon_unlock m\<rparr>)"


section \<open>CurrentThread\<close>

text \<open>The thread-local variables.\<close>

record tls =
  t_cachedTid :: int
  t_threadName :: string

definition tls_init :: tls where
  "tls_init = \<lparr>t_cachedTid = 0, t_threadName = ''default''\<rparr>"

text \<open>When the id is cached already, the function ends without a \<open>return\<close>: its value is
  indeterminate.\<close>

definition CurrentThread_tid :: "int \<Rightarrow> tls \<Rightarrow> (int \<times> tls) res" where
  "CurrentThread_tid gettid v =
     (if t_cachedTid v = 0 then Inr (gettid, v\<lparr>t_cachedTid := gettid\<rparr>) else Inl Indeterminate)"

definition CurrentThread_name :: "tls \<Rightarrow> string" where
  "CurrentThread_name v = t_threadName v"

definition isMainThread :: "int \<Rightarrow> int \<Rightarrow> tls \<Rightarrow> (bool \<times> tls) res" where
  "isMainThread gettid getpid v =
     bindR (CurrentThread_tid gettid v) (\<lambda>(t, v'). Inr (t = getpid, v'))"

definition afterFork :: "int \<Rightarrow> tls \<Rightarrow> tls res" where
  "afterFork gettid v =
     bindR (CurrentThread_tid gettid (v\<lparr>t_cachedTid := 0, t_threadName := ''main''\<rparr>)) (\<lambda>(_, v'). Inr v')"

definition ThreadNameInitializer_ctor :: "tls \<Rightarrow> tls" where
  "ThreadNameInitializer_ctor v = v\<lparr>t_cachedTid := 0, t_threadName := ''main''\<rparr>"


section \<open>Thread\<close>

text \<open>\<open>'fn\<close> is the type of thread functions; an empty \<open>std::function\<close> is \<open>None\<close>.\<close>

record ('fn, 't) thread =
  th_started :: bool
  th_joined :: bool
  th_pthread_id :: int
  th_tid :: int
  th_func :: "'fn option"
  th_name :: string
  th_latch :: "'t latch"

text \<open>The second component is the static counter \<open>num_created_\<close>.\<close>

definition Thread_ctor :: "'fn option \<Rightarrow> string \<Rightarrow> int \<Rightarrow> ('fn, 't) thread \<times> int" where
  "Thread_ctor func n num_created =
     (\<lparr>th_started = False, th_joined = False, th_pthread_id = 0, th_tid = 0, th_func = func,
       th_name = n, th_latch = CountDownLatch_ctor 1\<rparr>, num_created + 1)"

definition Thread_dtor :: "(int \<Rightarrow> 'k \<Rightarrow> int \<times> 'k) \<Rightarrow> ('fn, 't) thread \<Rightarrow> 'k \<Rightarrow> 'k" where
  "Thread_dtor pthread_detach th k =
     (if th_started th \<and> \<not> th_joined th then snd (pthread_detach (th_pthread_id th) k) else k)"

definition setDefaultName :: "int \<Rightarrow> ('fn, 't) thread \<Rightarrow> ('fn, 't) thread" where
  "setDefaultName num_created th =
     (if th_name th = [] then th\<lparr>th_name := snprintf 32 (''Thread'' @ show_int num_created)\<rparr> else th)"

definition Thread_join :: "(int \<Rightarrow> 'k \<Rightarrow> int \<times> 'k) \<Rightarrow> ('fn, 't) thread \<Rightarrow> 'k \<Rightarrow>
    (int \<times> ('fn, 't) thread \<times> 'k) res" where
  "Thread_join pthread_join th k =
     check (th_started th) (AssertFailed ''thread.cpp:158'')
     (check (\<not> th_joined th) (AssertFailed ''thread.cpp:159'')
     (let (r, k') = pthread_join (th_pthread_id th) k in Inr (r, th\<lparr>th_joined := True\<rparr>, k')))"

text \<open>The data handed to the new thread: pointers to the \<open>Thread\<close> object's \<open>tid_\<close> and \<open>latch_\<close> are
  its address, until they are set to null.\<close>

record 'fn thread_data =
  td_func :: "'fn option"
  td_name :: string
  td_tid :: "nat option"
  td_latch :: "nat option"

definition ThreadData_ctor :: "'fn option \<Rightarrow> string \<Rightarrow> nat \<Rightarrow> nat \<Rightarrow> 'fn thread_data" where
  "ThreadData_ctor func name tid latch =
     \<lparr>td_func = func, td_name = name, td_tid = Some tid, td_latch = Some latch\<rparr>"

text \<open>
  \<open>start\<close> up to the wait, when \<open>pthread_create\<close> returns \<open>ret\<close> and stores the handle \<open>p\<close>; the new
  thread's data is returned, nothing when the call failed. \<open>a\<close> is the address of the object.
\<close>

definition Thread_start :: "int \<Rightarrow> int \<Rightarrow> nat \<Rightarrow> ('fn, 't) thread \<Rightarrow>
    (('fn, 't) thread \<times> 'fn thread_data option) res" where
  "Thread_start ret p a th =
     check (\<not> th_started th) (AssertFailed ''thread.cpp:142'')
     (let th1 = th\<lparr>th_started := True\<rparr>; thread_data = ThreadData_ctor (th_func th1) (th_name th1) a a in
      if ret \<noteq> 0 then Inr (th1\<lparr>th_started := False\<rparr>, None)
      else Inr (th1\<lparr>th_pthread_id := p\<rparr>, Some thread_data))"

text \<open>\<open>runInThread\<close> up to \<open>countDown\<close>: the id is stored in the \<open>Thread\<close> object.\<close>

definition runInThread_tid :: "int \<Rightarrow> tls \<Rightarrow> 'fn thread_data \<Rightarrow> ('fn, 't) thread \<Rightarrow>
    (tls \<times> 'fn thread_data \<times> ('fn, 't) thread) res" where
  "runInThread_tid gettid v d th =
     bindR (CurrentThread_tid gettid v) (\<lambda>(t, v').
     bindR (optR NullDeref (td_tid d)) (\<lambda>_. Inr (v', d\<lparr>td_tid := None\<rparr>, th\<lparr>th_tid := t\<rparr>)))"

text \<open>The rest: the latch pointer is dropped, the thread is named and the function is called.\<close>

definition runInThread_name :: "tls \<Rightarrow> 'fn thread_data \<Rightarrow> tls \<times> 'fn thread_data" where
  "runInThread_name v d =
     (v\<lparr>t_threadName := (if td_name d = [] then ''Thread'' else c_str (td_name d))\<rparr>, d\<lparr>td_latch := None\<rparr>)"

definition runInThread_func :: "('fn \<Rightarrow> 'w \<Rightarrow> 'w res) \<Rightarrow> tls \<Rightarrow> 'fn thread_data \<Rightarrow> 'w \<Rightarrow> (tls \<times> 'w) res" where
  "runInThread_func call v d w =
     bindR (optR BadFunctionCall (td_func d)) (\<lambda>f.
     bindR (call f w) (\<lambda>w'. Inr (v\<lparr>t_threadName := ''finished''\<rparr>, w')))"

text \<open>
  In a new thread the first call of \<open>tid()\<close> is the one in \<open>runInThread\<close>; the next one, in the
  constructor of the thread's \<open>EventLoop\<close>, has no defined value.
\<close>

lemma tid_is_defined_once:
  assumes "gettid \<noteq> 0"
  shows "CurrentThread_tid gettid tls_init = Inr (gettid, tls_init\<lparr>t_cachedTid := gettid\<rparr>)"
    and "CurrentThread_tid gettid (tls_init\<lparr>t_cachedTid := gettid\<rparr>) = Inl Indeterminate"
  using assms by (simp_all add: CurrentThread_tid_def tls_init_def)

end
