(* ===== verification/LoopThread.thy ===== *)
theory LoopThread
  imports Threads
begin

text \<open>
  \<open>class EventLoopThread\<close> (\<open>src/src/include/event_loop_thread.h\<close>, \<open>src/src/event_loop_thread.cpp\<close>):
  the object, its destructor, and the handshake of \<open>startLoop\<close> with the new thread as a step
  relation over the two program counters. The theory shows that \<open>startLoop\<close> returns only a
  published loop that is alive, that no wake-up is lost and the number of steps is bounded, and
  what happens when \<open>pthread_create\<close> fails.
\<close>

section \<open>State\<close>

datatype who = Starter | Worker

text \<open>The function bound in the constructor: \<open>IOThreadFunc\<close> of this object.\<close>

datatype io_func = IOThreadFunc

record loop_thread =
  lt_loop :: "nat option"
  lt_exiting :: bool
  lt_thread :: "(io_func, who) thread"
  lt_mon :: "who monitor"

definition EventLoopThread_ctor :: "int \<Rightarrow> loop_thread \<times> int" where
  "EventLoopThread_ctor num_created =
     (let (th, n) = Thread_ctor (Some IOThreadFunc) [] num_created in
      (\<lparr>lt_loop = None, lt_exiting = False, lt_thread = th, lt_mon = monitor_init\<rparr>, n))"

text \<open>The destructor, run in thread \<open>tid\<close>.\<close>

definition EventLoopThread_dtor :: "int \<Rightarrow> 'k sysops \<Rightarrow> (int \<Rightarrow> 'k \<Rightarrow> int \<times> 'k) \<Rightarrow> loop_thread \<Rightarrow>
    ('cb, 'f, 'k, 'z) reactor_scheme \<Rightarrow> (loop_thread \<times> ('cb, 'f, 'k, 'z) reactor_scheme) res" where
  "EventLoopThread_dtor tid K pthread_join e w =
     (let e1 = e\<lparr>lt_exiting := True\<rparr> in
      bindR (optR NullDeref (lt_loop e1)) (\<lambda>l.
      bindR (quit tid K l w) (\<lambda>w1.
      bindR (Thread_join pthread_join (lt_thread e1) (kern w1)) (\<lambda>(r, th, k').
      Inr (e1\<lparr>lt_thread := th\<rparr>, w1\<lparr>kern := k'\<rparr>)))))"

text \<open>
  Where the starting thread stands in \<open>startLoop\<close> (through \<open>Thread::start\<close> and
  \<open>CountDownLatch::wait\<close>), and the new thread in \<open>startThread\<close> (through \<open>runInThread\<close>,
  \<open>countDown\<close> and \<open>IOThreadFunc\<close>).
\<close>

datatype starter_pc =
    SCalled | SLatchLock | SLatchTest | SLatchWait | STidAssert
  | SLoopLock | SLoopTest | SLoopWait | SReturned "nat option" | SAborted

datatype worker_pc =
    WNone | WRun | WCountLock | WCountDown | WConstruct | WLoopLock | WPublish | WLooping | WDone

record handshake =
  hs_obj :: loop_thread
  hs_starter :: starter_pc
  hs_worker :: worker_pc
  hs_data :: "io_func thread_data option"
  hs_tls :: tls
  hs_alive :: bool

definition set_latch :: "who latch \<Rightarrow> handshake \<Rightarrow> handshake" where
  "set_latch c s = s\<lparr>hs_obj := (hs_obj s)\<lparr>lt_thread := (lt_thread (hs_obj s))\<lparr>th_latch := c\<rparr>\<rparr>\<rparr>"

definition set_mon :: "who monitor \<Rightarrow> handshake \<Rightarrow> handshake" where
  "set_mon m s = s\<lparr>hs_obj := (hs_obj s)\<lparr>lt_mon := m\<rparr>\<rparr>"

abbreviation hs_latch :: "handshake \<Rightarrow> who latch" where
  "hs_latch s \<equiv> th_latch (lt_thread (hs_obj s))"

abbreviation hs_mon :: "handshake \<Rightarrow> who monitor" where
  "hs_mon s \<equiv> lt_mon (hs_obj s)"

definition set_latch_mon :: "who monitor \<Rightarrow> handshake \<Rightarrow> handshake" where
  "set_latch_mon m s = set_latch ((hs_latch s)\<lparr>latch_mon := m\<rparr>) s"


section \<open>Steps\<close>

text \<open>
  \<open>startLoop\<close>; \<open>ret\<close> is what \<open>pthread_create\<close> returns. When it fails, \<open>start\<close> only logs, and
  \<open>startLoop\<close> goes on to wait for the loop.
\<close>

inductive startLoop_step :: "int \<Rightarrow> handshake \<Rightarrow> handshake \<Rightarrow> bool" for ret :: int where
  again: "hs_starter s = SCalled \<Longrightarrow> th_started (lt_thread (hs_obj s)) \<Longrightarrow>
    startLoop_step ret s (s\<lparr>hs_starter := SAborted\<rparr>)"
| create: "hs_starter s = SCalled \<Longrightarrow> \<not> th_started (lt_thread (hs_obj s)) \<Longrightarrow>
    Thread_start ret p 0 (lt_thread (hs_obj s)) = Inr (th, Some d) \<Longrightarrow>
    startLoop_step ret s (s\<lparr>hs_obj := (hs_obj s)\<lparr>lt_thread := th\<rparr>, hs_data := Some d,
      hs_worker := WRun, hs_starter := SLatchLock\<rparr>)"
| create_fails: "hs_starter s = SCalled \<Longrightarrow> \<not> th_started (lt_thread (hs_obj s)) \<Longrightarrow>
    Thread_start ret p 0 (lt_thread (hs_obj s)) = Inr (th, None) \<Longrightarrow>
    startLoop_step ret s (s\<lparr>hs_obj := (hs_obj s)\<lparr>lt_thread := th\<rparr>, hs_starter := SLoopLock\<rparr>)"
| latch_lock: "hs_starter s = SLatchLock \<Longrightarrow> mon_holder (latch_mon (hs_latch s)) = None \<Longrightarrow>
    startLoop_step ret s (set_latch_mon (mon_lock Starter (latch_mon (hs_latch s))) (s\<lparr>hs_starter := SLatchTest\<rparr>))"
| latch_wait: "hs_starter s = SLatchTest \<Longrightarrow> latch_must_wait (hs_latch s) \<Longrightarrow>
    startLoop_step ret s (set_latch_mon (mon_wait Starter (latch_mon (hs_latch s))) (s\<lparr>hs_starter := SLatchWait\<rparr>))"
| latch_open: "hs_starter s = SLatchTest \<Longrightarrow> \<not> latch_must_wait (hs_latch s) \<Longrightarrow>
    startLoop_step ret s (set_latch_mon (mon_unlock (latch_mon (hs_latch s))) (s\<lparr>hs_starter := STidAssert\<rparr>))"
| latch_wake: "hs_starter s = SLatchWait \<Longrightarrow> Starter \<notin> set (mon_waiters (latch_mon (hs_latch s))) \<Longrightarrow>
    mon_holder (latch_mon (hs_latch s)) = None \<Longrightarrow>
    startLoop_step ret s (set_latch_mon (mon_lock Starter (latch_mon (hs_latch s))) (s\<lparr>hs_starter := SLatchTest\<rparr>))"
| tid_ok: "hs_starter s = STidAssert \<Longrightarrow> th_tid (lt_thread (hs_obj s)) > 0 \<Longrightarrow>
    startLoop_step ret s (s\<lparr>hs_starter := SLoopLock\<rparr>)"
| tid_bad: "hs_starter s = STidAssert \<Longrightarrow> \<not> th_tid (lt_thread (hs_obj s)) > 0 \<Longrightarrow>
    startLoop_step ret s (s\<lparr>hs_starter := SAborted\<rparr>)"
| loop_lock: "hs_starter s = SLoopLock \<Longrightarrow> mon_holder (hs_mon s) = None \<Longrightarrow>
    startLoop_step ret s (set_mon (mon_lock Starter (hs_mon s)) (s\<lparr>hs_starter := SLoopTest\<rparr>))"
| loop_wait: "hs_starter s = SLoopTest \<Longrightarrow> lt_loop (hs_obj s) = None \<Longrightarrow>
    startLoop_step ret s (set_mon (mon_wait Starter (hs_mon s)) (s\<lparr>hs_starter := SLoopWait\<rparr>))"
| loop_ready: "hs_starter s = SLoopTest \<Longrightarrow> lt_loop (hs_obj s) \<noteq> None \<Longrightarrow>
    startLoop_step ret s (set_mon (mon_unlock (hs_mon s)) (s\<lparr>hs_starter := SReturned (lt_loop (hs_obj s))\<rparr>))"
| loop_wake: "hs_starter s = SLoopWait \<Longrightarrow> Starter \<notin> set (mon_waiters (hs_mon s)) \<Longrightarrow>
    mon_holder (hs_mon s) = None \<Longrightarrow>
    startLoop_step ret s (set_mon (mon_lock Starter (hs_mon s)) (s\<lparr>hs_starter := SLoopTest\<rparr>))"

text \<open>
  The new thread; \<open>gettid\<close> is its id and \<open>l\<close> the address of the \<open>EventLoop\<close> on its stack.
  \<open>loop()\<close> returns only after \<open>quit()\<close>, which is called through the pointer that \<open>startLoop\<close>
  returned; the loop then ceases to exist, \<open>runInThread\<close> ends and the thread's data is deleted.
\<close>

inductive startThread_step :: "int \<Rightarrow> nat \<Rightarrow> handshake \<Rightarrow> handshake \<Rightarrow> bool" for gettid :: int and l :: nat where
  store_tid: "hs_worker s = WRun \<Longrightarrow> hs_data s = Some d \<Longrightarrow>
    runInThread_tid gettid (hs_tls s) d (lt_thread (hs_obj s)) = Inr (v, d', th) \<Longrightarrow>
    startThread_step gettid l s (s\<lparr>hs_tls := v, hs_data := Some d', hs_obj := (hs_obj s)\<lparr>lt_thread := th\<rparr>,
      hs_worker := WCountLock\<rparr>)"
| count_lock: "hs_worker s = WCountLock \<Longrightarrow> mon_holder (latch_mon (hs_latch s)) = None \<Longrightarrow>
    startThread_step gettid l s (set_latch_mon (mon_lock Worker (latch_mon (hs_latch s))) (s\<lparr>hs_worker := WCountDown\<rparr>))"
| count_down: "hs_worker s = WCountDown \<Longrightarrow> hs_data s = Some d \<Longrightarrow> runInThread_name (hs_tls s) d = (v, d') \<Longrightarrow>
    startThread_step gettid l s (set_latch (countDown (hs_latch s))
      (s\<lparr>hs_tls := v, hs_data := Some d', hs_worker := WConstruct\<rparr>))"
| construct: "hs_worker s = WConstruct \<Longrightarrow>
    startThread_step gettid l s (s\<lparr>hs_alive := True, hs_worker := WLoopLock\<rparr>)"
| loop_lock: "hs_worker s = WLoopLock \<Longrightarrow> mon_holder (hs_mon s) = None \<Longrightarrow>
    startThread_step gettid l s (set_mon (mon_lock Worker (hs_mon s)) (s\<lparr>hs_worker := WPublish\<rparr>))"
| publish: "hs_worker s = WPublish \<Longrightarrow>
    startThread_step gettid l s (set_mon (mon_unlock (mon_notify_one (hs_mon s)))
      (s\<lparr>hs_obj := (hs_obj s)\<lparr>lt_loop := Some l\<rparr>, hs_worker := WLooping\<rparr>))"
| exits: "hs_worker s = WLooping \<Longrightarrow> hs_starter s = SReturned (Some l) \<Longrightarrow> hs_data s = Some d \<Longrightarrow>
    runInThread_func (\<lambda>f alive. Inr False) (hs_tls s) d (hs_alive s) = Inr (v, alive) \<Longrightarrow>
    startThread_step gettid l s (s\<lparr>hs_alive := alive, hs_tls := v, hs_data := None, hs_worker := WDone\<rparr>)"

text \<open>A waiting thread may be woken without a notification.\<close>

inductive spurious_step :: "handshake \<Rightarrow> handshake \<Rightarrow> bool" where
  latch: "Starter \<in> set (mon_waiters (latch_mon (hs_latch s))) \<Longrightarrow>
    spurious_step s (set_latch_mon (mon_spurious Starter (latch_mon (hs_latch s))) s)"
| loop: "Starter \<in> set (mon_waiters (hs_mon s)) \<Longrightarrow>
    spurious_step s (set_mon (mon_spurious Starter (hs_mon s)) s)"

definition hs_init :: handshake where
  "hs_init = \<lparr>hs_obj = fst (EventLoopThread_ctor 0), hs_starter = SCalled, hs_worker = WNone,
     hs_data = None, hs_tls = tls_init, hs_alive = False\<rparr>"

text \<open>\<open>handshake_run gettid l ret n k s\<close>: \<open>s\<close> is reached by \<open>n\<close> steps of the threads and \<open>k\<close>
  spurious wake-ups.\<close>

inductive handshake_run :: "int \<Rightarrow> nat \<Rightarrow> int \<Rightarrow> nat \<Rightarrow> nat \<Rightarrow> handshake \<Rightarrow> bool"
  for gettid :: int and l :: nat and ret :: int where
  init: "handshake_run gettid l ret 0 0 hs_init"
| starter: "handshake_run gettid l ret n k s \<Longrightarrow> startLoop_step ret s s' \<Longrightarrow> handshake_run gettid l ret (Suc n) k s'"
| worker: "handshake_run gettid l ret n k s \<Longrightarrow> startThread_step gettid l s s' \<Longrightarrow> handshake_run gettid l ret (Suc n) k s'"
| spurious: "handshake_run gettid l ret n k s \<Longrightarrow> spurious_step s s' \<Longrightarrow> handshake_run gettid l ret n (Suc k) s'"

lemma runInThread_tid_iff:
  "runInThread_tid gettid v d th = Inr (v', d', th') \<longleftrightarrow> t_cachedTid v = 0 \<and> td_tid d \<noteq> None \<and>
     v' = v\<lparr>t_cachedTid := gettid\<rparr> \<and> d' = d\<lparr>td_tid := None\<rparr> \<and> th' = th\<lparr>th_tid := gettid\<rparr>"
  by (auto simp: runInThread_tid_def CurrentThread_tid_def bindR_eq_Inr_iff optR_eq_Inr_iff)

lemma runInThread_func_iff:
  "runInThread_func (\<lambda>f alive. Inr False) v d a = Inr (v', a') \<longleftrightarrow>
     td_func d \<noteq> None \<and> v' = v\<lparr>t_threadName := ''finished''\<rparr> \<and> \<not> a'"
  by (auto simp: runInThread_func_def bindR_eq_Inr_iff optR_eq_Inr_iff)

lemmas hs_defs = set_latch_def set_mon_def set_latch_mon_def mon_defs latch_must_wait_def countDown_def Let_def
  Thread_start_def ThreadData_ctor_def runInThread_tid_iff runInThread_name_def
  runInThread_func_iff


section \<open>The invariant\<close>

text \<open>
  The latch is closed exactly until the worker has counted down, a mutex is held exactly in the
  critical sections, the loop is published exactly from \<open>WLooping\<close> on, and a thread that still waits
  for a notification has not missed it.
\<close>

definition before_count :: "worker_pc \<Rightarrow> bool" where
  "before_count p \<longleftrightarrow> p \<in> {WNone, WRun, WCountLock, WCountDown}"

definition before_publish :: "worker_pc \<Rightarrow> bool" where
  "before_publish p \<longleftrightarrow> p \<noteq> WLooping \<and> p \<noteq> WDone"

definition past_latch :: "starter_pc \<Rightarrow> bool" where
  "past_latch p \<longleftrightarrow> p \<notin> {SCalled, SLatchLock, SLatchTest, SLatchWait}"

definition latch_inv :: "handshake \<Rightarrow> bool" where
  "latch_inv s \<longleftrightarrow>
     latch_count (hs_latch s) = (if before_count (hs_worker s) then 1 else 0) \<and>
     mon_holder (latch_mon (hs_latch s)) =
       (if hs_starter s = SLatchTest then Some Starter else if hs_worker s = WCountDown then Some Worker else None) \<and>
     \<not> (hs_starter s = SLatchTest \<and> hs_worker s = WCountDown) \<and>
     (mon_waiters (latch_mon (hs_latch s)) = [] \<or> mon_waiters (latch_mon (hs_latch s)) = [Starter] \<and>
       hs_starter s = SLatchWait \<and> before_count (hs_worker s)) \<and>
     (past_latch (hs_starter s) \<longrightarrow> \<not> before_count (hs_worker s))"

definition loop_inv :: "nat \<Rightarrow> handshake \<Rightarrow> bool" where
  "loop_inv l s \<longleftrightarrow>
     lt_loop (hs_obj s) = (if before_publish (hs_worker s) then None else Some l) \<and>
     mon_holder (hs_mon s) =
       (if hs_starter s = SLoopTest then Some Starter else if hs_worker s = WPublish then Some Worker else None) \<and>
     \<not> (hs_starter s = SLoopTest \<and> hs_worker s = WPublish) \<and>
     (mon_waiters (hs_mon s) = [] \<or> mon_waiters (hs_mon s) = [Starter] \<and>
       hs_starter s = SLoopWait \<and> before_publish (hs_worker s)) \<and>
     (\<forall>r. hs_starter s = SReturned r \<longrightarrow> r = Some l \<and> \<not> before_publish (hs_worker s)) \<and>
     (hs_alive s \<longleftrightarrow> hs_worker s \<in> {WLoopLock, WPublish, WLooping})"

definition thread_inv :: "int \<Rightarrow> handshake \<Rightarrow> bool" where
  "thread_inv gettid s \<longleftrightarrow>
     (th_started (lt_thread (hs_obj s)) \<longleftrightarrow> hs_worker s \<noteq> WNone) \<and>
     (hs_starter s = SCalled \<longleftrightarrow> hs_worker s = WNone) \<and> hs_starter s \<noteq> SAborted \<and>
     (hs_worker s \<in> {WNone, WRun} \<longrightarrow> t_cachedTid (hs_tls s) = 0) \<and>
     (hs_worker s = WRun \<longrightarrow> (\<exists>d. hs_data s = Some d \<and> td_tid d \<noteq> None)) \<and>
     (hs_worker s \<notin> {WNone, WRun} \<longrightarrow> th_tid (lt_thread (hs_obj s)) = gettid) \<and>
     (hs_worker s \<notin> {WNone, WRun, WDone} \<longrightarrow> hs_data s \<noteq> None)"

definition handshake_inv :: "int \<Rightarrow> nat \<Rightarrow> handshake \<Rightarrow> bool" where
  "handshake_inv gettid l s \<longleftrightarrow> latch_inv s \<and> loop_inv l s \<and> thread_inv gettid s"

lemmas inv_defs = latch_inv_def loop_inv_def thread_inv_def before_count_def before_publish_def past_latch_def

lemma init_inv: "handshake_inv gettid l hs_init"
  by (simp add: handshake_inv_def inv_defs hs_init_def EventLoopThread_ctor_def Thread_ctor_def
      CountDownLatch_ctor_def monitor_init_def tls_init_def)

text \<open>Each part is kept by the steps of each thread; the parts are proved one by one.\<close>

lemma starter_latch_inv:
  "startLoop_step 0 s s' \<Longrightarrow> latch_inv s \<Longrightarrow> thread_inv gettid s \<Longrightarrow> latch_inv s'"
  by (induction rule: startLoop_step.induct) (auto simp: inv_defs hs_defs split: if_splits)

lemma starter_loop_inv:
  "startLoop_step 0 s s' \<Longrightarrow> loop_inv l s \<Longrightarrow> thread_inv gettid s \<Longrightarrow> loop_inv l s'"
  by (induction rule: startLoop_step.induct) (auto simp: inv_defs hs_defs)

lemma starter_thread_inv:
  "startLoop_step 0 s s' \<Longrightarrow> latch_inv s \<Longrightarrow> thread_inv gettid s \<Longrightarrow> 0 < gettid \<Longrightarrow> thread_inv gettid s'"
  by (induction rule: startLoop_step.induct) (auto simp: inv_defs hs_defs)

lemma worker_latch_inv:
  "startThread_step gettid l s s' \<Longrightarrow> latch_inv s \<Longrightarrow> latch_inv s'"
  by (induction rule: startThread_step.induct) (auto simp: inv_defs hs_defs split: if_splits)

lemma worker_loop_inv:
  "startThread_step gettid l s s' \<Longrightarrow> loop_inv l s \<Longrightarrow> loop_inv l s'"
  by (induction rule: startThread_step.induct) (auto simp: inv_defs hs_defs split: if_splits)

lemma worker_thread_inv:
  "startThread_step gettid l s s' \<Longrightarrow> thread_inv gettid s \<Longrightarrow> thread_inv gettid s'"
  by (induction rule: startThread_step.induct) (auto simp: inv_defs hs_defs split: if_splits)

lemma spurious_latch_inv: "spurious_step s s' \<Longrightarrow> latch_inv s \<Longrightarrow> latch_inv s'"
  by (induction rule: spurious_step.induct) (auto simp: latch_inv_def hs_defs)

lemma spurious_loop_inv: "spurious_step s s' \<Longrightarrow> loop_inv l s \<Longrightarrow> loop_inv l s'"
  by (induction rule: spurious_step.induct) (auto simp: loop_inv_def hs_defs)

lemma spurious_thread_inv: "spurious_step s s' \<Longrightarrow> thread_inv gettid s \<Longrightarrow> thread_inv gettid s'"
  by (induction rule: spurious_step.induct) (auto simp: thread_inv_def hs_defs)

lemma run_inv:
  assumes "handshake_run gettid l 0 n k s" and "0 < gettid"
  shows "handshake_inv gettid l s"
  using assms(1)
proof (induction rule: handshake_run.induct)
  case init
  show ?case by (rule init_inv)
next
  case (starter n k s s')
  then show ?case using assms(2) unfolding handshake_inv_def
    by (blast intro: starter_latch_inv starter_loop_inv starter_thread_inv)
next
  case (worker n k s s')
  then show ?case unfolding handshake_inv_def
    by (blast intro: worker_latch_inv worker_loop_inv worker_thread_inv)
next
  case (spurious n k s s')
  then show ?case unfolding handshake_inv_def
    by (blast intro: spurious_latch_inv spurious_loop_inv spurious_thread_inv)
qed


section \<open>Progress\<close>

text \<open>Until \<open>startLoop\<close> has returned, one of the threads can move without a spurious wake-up.\<close>

definition can_move :: "int \<Rightarrow> nat \<Rightarrow> int \<Rightarrow> handshake \<Rightarrow> bool" where
  "can_move gettid l ret s \<longleftrightarrow> (\<exists>s'. startLoop_step ret s s' \<or> startThread_step gettid l s s')"

lemma worker_moves:
  assumes "handshake_inv gettid l s" and "hs_worker s \<notin> {WNone, WLooping, WDone}"
    and "hs_worker s = WCountLock \<Longrightarrow> hs_starter s \<noteq> SLatchTest"
    and "hs_worker s = WLoopLock \<Longrightarrow> hs_starter s \<noteq> SLoopTest"
  shows "\<exists>s'. startThread_step gettid l s s'"
proof (cases "hs_worker s")
  case WRun
  then obtain d where d: "hs_data s = Some d" "td_tid d \<noteq> None" "t_cachedTid (hs_tls s) = 0"
    using assms(1) by (auto simp: handshake_inv_def thread_inv_def)
  then show ?thesis using startThread_step.store_tid[OF WRun d(1)] by (auto simp: runInThread_tid_iff)
next
  case WCountLock
  then have "mon_holder (latch_mon (hs_latch s)) = None"
    using assms(1,3) by (simp add: handshake_inv_def latch_inv_def)
  then show ?thesis using startThread_step.count_lock[OF WCountLock] by blast
next
  case WCountDown
  then obtain d where "hs_data s = Some d"
    using assms(1) by (auto simp: handshake_inv_def thread_inv_def)
  then show ?thesis using startThread_step.count_down[OF WCountDown] surj_pair by metis
next
  case WLoopLock
  then have "mon_holder (hs_mon s) = None"
    using assms(1,4) by (simp add: handshake_inv_def loop_inv_def)
  then show ?thesis using startThread_step.loop_lock[OF WLoopLock] by blast
qed (use assms(2) startThread_step.construct startThread_step.publish in blast)+

lemma starter_moves:
  assumes "handshake_inv gettid l s" and "hs_starter s \<notin> {SLatchWait, SLoopWait}"
    and "\<And>r. hs_starter s \<noteq> SReturned r"
    and "hs_starter s = SLatchLock \<Longrightarrow> hs_worker s \<noteq> WCountDown"
    and "hs_starter s = SLoopLock \<Longrightarrow> hs_worker s \<noteq> WPublish"
  shows "\<exists>s'. startLoop_step 0 s s'"
proof (cases "hs_starter s")
  case SCalled
  then have "\<not> th_started (lt_thread (hs_obj s))"
    using assms(1) by (simp add: handshake_inv_def thread_inv_def)
  then show ?thesis using startLoop_step.create[OF SCalled, of 0] by (simp add: Thread_start_def Let_def) blast
next
  case SLatchLock
  then have "mon_holder (latch_mon (hs_latch s)) = None"
    using assms(1,4) by (simp add: handshake_inv_def latch_inv_def)
  then show ?thesis using startLoop_step.latch_lock[OF SLatchLock] by blast
next
  case SLoopLock
  then have "mon_holder (hs_mon s) = None"
    using assms(1,5) by (simp add: handshake_inv_def loop_inv_def)
  then show ?thesis using startLoop_step.loop_lock[OF SLoopLock] by blast
next
  case SAborted
  then show ?thesis using assms(1) by (simp add: handshake_inv_def thread_inv_def)
next
  case SLatchTest
  then show ?thesis using startLoop_step.latch_wait[of s] startLoop_step.latch_open[of s] by blast
next
  case STidAssert
  then show ?thesis using startLoop_step.tid_ok[of s] startLoop_step.tid_bad[of s] by blast
next
  case SLoopTest
  then show ?thesis using startLoop_step.loop_wait[of s] startLoop_step.loop_ready[of s] by blast
qed (use assms(2,3) in auto)

lemma handshake_moves:
  assumes inv: "handshake_inv gettid l s" and running: "\<And>r. hs_starter s \<noteq> SReturned r"
  shows "can_move gettid l 0 s"
proof -
  have parts: "latch_inv s" "loop_inv l s" "thread_inv gettid s"
    using inv by (simp_all add: handshake_inv_def)
  show ?thesis
  proof (cases "hs_worker s \<notin> {WNone, WLooping, WDone} \<and>
      \<not> (hs_worker s = WCountLock \<and> hs_starter s = SLatchTest) \<and> \<not> (hs_worker s = WLoopLock \<and> hs_starter s = SLoopTest)")
    case True
    then show ?thesis using worker_moves[OF inv] by (auto simp: can_move_def)
  next
    case False
    show ?thesis
    proof (cases "hs_starter s \<in> {SLatchWait, SLoopWait}")
      case True
      then have w: "hs_worker s \<in> {WLooping, WDone}" using False parts(3) by (auto simp: thread_inv_def)
      from True show ?thesis
      proof (elim insertE)
        assume "hs_starter s = SLatchWait"
        then show ?thesis using w parts startLoop_step.latch_wake[of s 0]
          by (auto simp: can_move_def latch_inv_def before_count_def)
      next
        assume "hs_starter s = SLoopWait"
        then show ?thesis using w parts startLoop_step.loop_wake[of s 0]
          by (auto simp: can_move_def loop_inv_def before_publish_def)
      qed simp
    next
      case False': False
      have "hs_starter s = SLatchLock \<Longrightarrow> hs_worker s \<noteq> WCountDown" "hs_starter s = SLoopLock \<Longrightarrow> hs_worker s \<noteq> WPublish"
        using False by auto
      then show ?thesis using starter_moves[OF inv False' running] by (auto simp: can_move_def)
    qed
  qed
qed

section \<open>A bound on the number of steps\<close>

text \<open>
  The rank falls with every step of a thread; a spurious wake-up sends the starting thread back to
  the test of its condition, which costs two.
\<close>

fun starter_rank :: "handshake \<Rightarrow> nat" where
  "starter_rank s = (case hs_starter s of
     SCalled \<Rightarrow> 17 | SLatchLock \<Rightarrow> 16
   | SLatchTest \<Rightarrow> (if before_count (hs_worker s) then 14 else 11)
   | SLatchWait \<Rightarrow> (if mon_waiters (latch_mon (hs_latch s)) \<noteq> [] then 13 else if before_count (hs_worker s) then 15 else 12)
   | STidAssert \<Rightarrow> 10 | SLoopLock \<Rightarrow> 8
   | SLoopTest \<Rightarrow> (if before_publish (hs_worker s) then 6 else 3)
   | SLoopWait \<Rightarrow> (if mon_waiters (hs_mon s) \<noteq> [] then 5 else if before_publish (hs_worker s) then 7 else 4)
   | SReturned r \<Rightarrow> 0 | SAborted \<Rightarrow> 0)"

fun worker_rank :: "worker_pc \<Rightarrow> nat" where
  "worker_rank WNone = 8" | "worker_rank WRun = 7" | "worker_rank WCountLock = 6"
| "worker_rank WCountDown = 5" | "worker_rank WConstruct = 4" | "worker_rank WLoopLock = 3"
| "worker_rank WPublish = 2" | "worker_rank WLooping = 1" | "worker_rank WDone = 0"

definition handshake_rank :: "handshake \<Rightarrow> nat" where
  "handshake_rank s = starter_rank s + worker_rank (hs_worker s)"

lemma starter_rank_falls:
  assumes "startLoop_step 0 s s'" and "handshake_inv gettid l s"
  shows "handshake_rank s' < handshake_rank s"
proof -
  have latch: "latch_must_wait (hs_latch s) \<longleftrightarrow> before_count (hs_worker s)"
    and loop: "lt_loop (hs_obj s) = None \<longleftrightarrow> before_publish (hs_worker s)"
    using assms(2) by (simp_all add: handshake_inv_def latch_inv_def loop_inv_def latch_must_wait_def)
  have waiters: "Starter \<notin> set (mon_waiters (latch_mon (hs_latch s))) \<Longrightarrow> mon_waiters (latch_mon (hs_latch s)) = []"
      "Starter \<notin> set (mon_waiters (hs_mon s)) \<Longrightarrow> mon_waiters (hs_mon s) = []"
    using assms(2) by (auto simp: handshake_inv_def latch_inv_def loop_inv_def)
  have called: "hs_starter s = SCalled \<Longrightarrow> hs_worker s = WNone"
    using assms(2) by (simp add: handshake_inv_def thread_inv_def)
  show ?thesis
    using assms(1)
    by cases (simp_all add: handshake_rank_def set_latch_mon_def set_latch_def set_mon_def mon_defs
        latch loop waiters called Thread_start_def Let_def)
qed

lemma worker_rank_step: "startThread_step gettid l s s' \<Longrightarrow> worker_rank (hs_worker s') < worker_rank (hs_worker s)"
  by (induction rule: startThread_step.induct) (simp_all add: set_latch_def set_latch_mon_def set_mon_def)

text \<open>A step of the worker leaves the starter where it is and only opens its conditions.\<close>

lemma worker_starter_step:
  "startThread_step gettid l s s' \<Longrightarrow> hs_starter s' = hs_starter s \<and>
     (mon_waiters (latch_mon (hs_latch s')) = mon_waiters (latch_mon (hs_latch s)) \<or>
      mon_waiters (latch_mon (hs_latch s')) = [] \<and> \<not> before_count (hs_worker s')) \<and>
     (mon_waiters (hs_mon s') = mon_waiters (hs_mon s) \<or>
      length (mon_waiters (hs_mon s')) = length (mon_waiters (hs_mon s)) - 1 \<and> \<not> before_publish (hs_worker s')) \<and>
     (before_count (hs_worker s') \<longrightarrow> before_count (hs_worker s)) \<and>
     (before_publish (hs_worker s') \<longrightarrow> before_publish (hs_worker s))"
  by (induction rule: startThread_step.induct) (auto simp: hs_defs before_count_def before_publish_def)

lemma worker_rank_falls:
  assumes "startThread_step gettid l s s'" and "handshake_inv gettid l s"
  shows "handshake_rank s' < handshake_rank s"
proof -
  have "length (mon_waiters (hs_mon s)) \<le> 1"
    using assms(2) by (auto simp: handshake_inv_def loop_inv_def)
  then have "starter_rank s' \<le> starter_rank s"
    using worker_starter_step[OF assms(1)] by (cases "hs_starter s") auto
  then show ?thesis using worker_rank_step[OF assms(1)] by (simp add: handshake_rank_def)
qed

lemma spurious_rank:
  "spurious_step s s' \<Longrightarrow> handshake_inv gettid l s \<Longrightarrow> handshake_rank s' \<le> handshake_rank s + 2"
  unfolding handshake_inv_def latch_inv_def loop_inv_def
  by (induction rule: spurious_step.induct) (auto simp: handshake_rank_def hs_defs)

lemma run_bound:
  assumes "handshake_run gettid l 0 n k s" and "0 < gettid"
  shows "n + handshake_rank s \<le> 25 + 2 * k"
  using assms(1)
proof (induction rule: handshake_run.induct)
  case init
  show ?case by (simp add: handshake_rank_def hs_init_def)
next
  case (starter n k s s')
  then show ?case using starter_rank_falls[OF starter.hyps(2) run_inv[OF starter.hyps(1) assms(2)]] by linarith
next
  case (worker n k s s')
  then show ?case using worker_rank_falls[OF worker.hyps(2) run_inv[OF worker.hyps(1) assms(2)]] by linarith
next
  case (spurious n k s s')
  then show ?case using spurious_rank[OF spurious.hyps(2) run_inv[OF spurious.hyps(1) assms(2)]] by simp
qed

lemma run_extends:
  assumes "handshake_run gettid l 0 n k s" and "0 < gettid"
  shows "\<exists>n' s' r. handshake_run gettid l 0 n' k s' \<and> hs_starter s' = SReturned r"
  using assms(1)
proof (induction "handshake_rank s" arbitrary: n s rule: less_induct)
  case less
  note inv = run_inv[OF less.prems assms(2)]
  show ?case
  proof (cases "\<exists>r. hs_starter s = SReturned r")
    case True
    then show ?thesis using less.prems by blast
  next
    case False
    then obtain s' where "startLoop_step 0 s s' \<or> startThread_step gettid l s s'"
      using handshake_moves[OF inv] by (auto simp: can_move_def)
    then have "handshake_rank s' < handshake_rank s" and "handshake_run gettid l 0 (Suc n) k s'"
      using starter_rank_falls[OF _ inv] worker_rank_falls[OF _ inv] less.prems
      by (auto intro: handshake_run.starter handshake_run.worker)
    then show ?thesis by (rule less.hyps)
  qed
qed


section \<open>When the thread cannot be created\<close>

definition orphan_inv :: "handshake \<Rightarrow> bool" where
  "orphan_inv s \<longleftrightarrow> hs_worker s = WNone \<and> lt_loop (hs_obj s) = None \<and>
     hs_starter s \<in> {SCalled, SLoopLock, SLoopTest, SLoopWait} \<and> \<not> th_started (lt_thread (hs_obj s)) \<and>
     mon_waiters (latch_mon (hs_latch s)) = [] \<and> mon_holder (hs_mon s) \<noteq> Some Worker"

lemma orphan_starter: "startLoop_step ret s s' \<Longrightarrow> ret \<noteq> 0 \<Longrightarrow> orphan_inv s \<Longrightarrow> orphan_inv s'"
  by (induction rule: startLoop_step.induct) (auto simp: orphan_inv_def hs_defs)

lemma orphan_worker: "startThread_step gettid l s s' \<Longrightarrow> orphan_inv s \<Longrightarrow> orphan_inv s'"
  by (induction rule: startThread_step.induct) (auto simp: orphan_inv_def)

lemma orphan_spurious: "spurious_step s s' \<Longrightarrow> orphan_inv s \<Longrightarrow> orphan_inv s'"
  by (induction rule: spurious_step.induct) (auto simp: orphan_inv_def hs_defs)

lemma orphan_run:
  assumes "handshake_run gettid l ret n k s" and "ret \<noteq> 0"
  shows "orphan_inv s"
  using assms(1)
proof (induction rule: handshake_run.induct)
  case init
  show ?case
    by (simp add: orphan_inv_def hs_init_def EventLoopThread_ctor_def Thread_ctor_def
        CountDownLatch_ctor_def monitor_init_def)
qed (use assms(2) in \<open>blast intro: orphan_starter orphan_worker orphan_spurious\<close>)+

lemma orphan_stuck:
  assumes "orphan_inv s" and "Starter \<in> set (mon_waiters (hs_mon s))" and "hs_starter s = SLoopWait"
  shows "\<not> can_move gettid l ret s"
  using assms by (auto simp: can_move_def orphan_inv_def elim!: startLoop_step.cases startThread_step.cases)


section \<open>The destructor\<close>

lemma dtor_without_loop: "EventLoopThread_dtor tid K pj (fst (EventLoopThread_ctor n)) w = Inl NullDeref"
  by (simp add: EventLoopThread_dtor_def EventLoopThread_ctor_def Thread_ctor_def)

text \<open>Once \<open>IOThreadFunc\<close> has returned, \<open>loop_\<close> points to an object that no longer exists.\<close>

lemma dtor_dangling:
  assumes "lt_loop e = Some l" and "loops w l = None"
  shows "EventLoopThread_dtor tid K pj e w = Inl NullDeref"
  using assms by (simp add: EventLoopThread_dtor_def quit_def)

lemma dtor_quits_and_joins:
  assumes "lt_loop e = Some l" and "loops w l = Some L" and "wakeup_fd L = Some fd"
    and "th_started (lt_thread e)" and "\<not> th_joined (lt_thread e)"
  shows "okR (EventLoopThread_dtor tid K pj e w) (\<lambda>(e', w').
    lt_exiting e' \<and> th_joined (lt_thread e') \<and> loops w' = (loops w)(l \<mapsto> L\<lparr>quit_flag := True\<rparr>))"
  using assms
  by (auto simp: EventLoopThread_dtor_def quit_def wakeup_def Thread_join_def wp case_prod_beta Let_def)


section \<open>Properties\<close>





text \<open>
  C37: when \<open>pthread_create\<close> fails, \<open>startLoop\<close> never returns: \<open>start\<close> only logs the failure, no
  thread publishes a loop, and once the caller waits on the condition variable nothing but a
  spurious wake-up can move it, after which it waits again.
\<close>

theorem failed_create_blocks:
  assumes "handshake_run gettid l ret n k s" and "ret \<noteq> 0"
  shows "(\<forall>r. hs_starter s \<noteq> SReturned r) \<and> lt_loop (hs_obj s) = None \<and>
    (hs_starter s = SLoopWait \<longrightarrow> Starter \<in> set (mon_waiters (hs_mon s)) \<longrightarrow>
      \<not> (\<exists>s'. startLoop_step ret s s' \<or> startThread_step gettid l s s'))"
  using orphan_run[OF assms] orphan_stuck[of s gettid l ret] by (auto simp: orphan_inv_def can_move_def)

theorem failed_create_blocks_witness:
  "\<exists>s. handshake_run 42 7 11 3 0 s \<and> hs_starter s = SLoopWait \<and>
     \<not> (\<exists>s'. startLoop_step 11 s s' \<or> startThread_step 42 7 s s')"
proof -
  let ?o = "fst (EventLoopThread_ctor 0)"
  let ?s1 = "hs_init\<lparr>hs_obj := ?o\<lparr>lt_thread := (lt_thread ?o)\<lparr>th_started := False\<rparr>\<rparr>, hs_starter := SLoopLock\<rparr>"
  let ?s2 = "set_mon (mon_lock Starter (hs_mon ?s1)) (?s1\<lparr>hs_starter := SLoopTest\<rparr>)"
  let ?s3 = "set_mon (mon_wait Starter (hs_mon ?s2)) (?s2\<lparr>hs_starter := SLoopWait\<rparr>)"
  have o: "\<not> th_started (lt_thread ?o)" "lt_loop ?o = None" "lt_mon ?o = monitor_init"
    by (simp_all add: EventLoopThread_ctor_def Thread_ctor_def)
  have "startLoop_step 11 hs_init (hs_init\<lparr>hs_obj := (hs_obj hs_init)\<lparr>lt_thread := (lt_thread ?o)\<lparr>th_started := False\<rparr>\<rparr>,
      hs_starter := SLoopLock\<rparr>)"
    by (rule startLoop_step.create_fails[where p = 0]) (simp_all add: hs_init_def o Thread_start_def Let_def)
  then have "handshake_run 42 7 11 1 0 ?s1"
    using handshake_run.starter[OF handshake_run.init] by (simp add: hs_init_def)
  then have "handshake_run 42 7 11 (Suc 1) 0 ?s2"
    by (rule handshake_run.starter) (rule startLoop_step.loop_lock, simp_all add: o monitor_init_def)
  then have "handshake_run 42 7 11 (Suc (Suc 1)) 0 ?s3"
    by (rule handshake_run.starter) (rule startLoop_step.loop_wait, simp_all add: o set_mon_def)
  then have run: "handshake_run 42 7 11 3 0 ?s3" by (simp add: eval_nat_numeral)
  show ?thesis
    using run failed_create_blocks[OF run] by (auto simp: set_mon_def mon_wait_def intro!: exI[of _ ?s3])
qed

end
