(* ===== verification/ServerDown.thy ===== *)
theory ServerDown
  imports EchoAll Lifetime LoopThread
begin

text \<open>
  The destructor of \<open>TcpServer\<close> (\<open>src/src/tcp_server.cpp\<close>, \<open>src/src/include/tcp_server.h\<close>): its body is
  empty, so all it does is destroy the members, in reverse order of declaration: the map of
  connections, the thread pool and the acceptor. The theory shows that this frees channels which the
  loop's poller still names.
\<close>

section \<open>The destructors\<close>

text \<open>
  \<open>~Acceptor\<close>, which the compiler generates: the channel goes, then the socket, which closes the
  descriptor.
\<close>

definition Acceptor_dtor :: "'k sysops \<Rightarrow> nat \<Rightarrow> ('k, 'z) acc_world_scheme \<Rightarrow> ('k, 'z) acc_world_scheme res" where
  "Acceptor_dtor K a w =
     bindR (deref (acceptors w) a) (\<lambda>A.
     bindR (deref (channels w) (acc_channel A)) (\<lambda>ch.
     bindR (Channel_dtor ch) (\<lambda>_.
     Inr (w\<lparr>channels := (channels w)(acc_channel A := None), acceptors := (acceptors w)(a := None),
            kern := Socket_dtor K (acc_socket A) (kern w)\<rparr>))))"

text \<open>
  \<open>~EventLoopThreadPool\<close>: the empty body of the destructor is followed by the destructors of the
  \<open>threads_\<close>.
\<close>

fun EventLoopThreadPool_dtor :: "int \<Rightarrow> 'k sysops \<Rightarrow> (int \<Rightarrow> 'k \<Rightarrow> int \<times> 'k) \<Rightarrow> loop_thread list \<Rightarrow>
    ('cb, 'f, 'k, 'z) reactor_scheme \<Rightarrow> ('cb, 'f, 'k, 'z) reactor_scheme res" where
  "EventLoopThreadPool_dtor tid K pthread_join [] w = Inr w"
| "EventLoopThreadPool_dtor tid K pthread_join (e # es) w =
     bindR (EventLoopThread_dtor tid K pthread_join e w) (\<lambda>(e', w1).
     EventLoopThreadPool_dtor tid K pthread_join es w1)"

text \<open>One element of the map \<open>connections_\<close> goes, and its \<open>shared_ptr\<close> with it.\<close>

definition drop_entry :: "'k sysops \<Rightarrow> nat \<Rightarrow> (nat \<Rightarrow> nat) \<Rightarrow> string \<Rightarrow> ('k, 'z) server_world_scheme \<Rightarrow>
    ('k, 'z) server_world_scheme res" where
  "drop_entry K s held name w =
     bindR (deref (servers w) s) (\<lambda>S.
     bindR (deref (connections S) name) (\<lambda>conn.
     drop_ref K s held conn (put_server s (S\<lparr>connections := (connections S)(name := None)\<rparr>) w)))"

text \<open>
  \<open>~TcpServer\<close>: \<open>names\<close> lists the keys of the map in the order in which the library destroys its
  elements, which is not specified; \<open>threads\<close> are the threads of the pool.
\<close>

definition TcpServer_dtor :: "int \<Rightarrow> 'k sysops \<Rightarrow> (int \<Rightarrow> 'k \<Rightarrow> int \<times> 'k) \<Rightarrow> string list \<Rightarrow> loop_thread list \<Rightarrow>
    (nat \<Rightarrow> nat) \<Rightarrow> nat \<Rightarrow> ('k, 'z) server_world_scheme \<Rightarrow> ('k, 'z) server_world_scheme res" where
  "TcpServer_dtor tid K pthread_join names threads held s w =
     bindR (deref (servers w) s) (\<lambda>S.
     bindR (foldR (drop_entry K s held) names w) (\<lambda>w1.
     bindR (EventLoopThreadPool_dtor tid K pthread_join threads w1) (\<lambda>w2.
     bindR (Acceptor_dtor K (srv_acceptor S) w2) (\<lambda>w3.
     Inr (w3\<lparr>servers := (servers w3)(s := None)\<rparr>)))))"


section \<open>What is freed\<close>

lemma queue_put_server [simp]: "queue_of (put_server s S w) l = queue_of w l"
  by (simp add: queue_of_def)

text \<open>A connection of the map that nothing else holds.\<close>

definition sole :: "(nat \<Rightarrow> nat) \<Rightarrow> tcp_server \<Rightarrow> string \<Rightarrow> nat \<Rightarrow> nat \<Rightarrow> ('k, 'z) server_world_scheme \<Rightarrow> bool" where
  "sole held S name conn c w \<longleftrightarrow> connections S name = Some conn \<and> held conn = 0 \<and>
     (\<exists>C ch. conns w conn = Some C \<and> conn_name C = name \<and> conn_loop C = srv_loop S \<and> conn_channel C = c \<and>
        channels w c = Some ch \<and> \<not> ch_events_handling ch)"

lemma drop_entry_frees:
  assumes S: "servers w s = Some S" and sole: "sole held S name conn c w" and q: "queue_of w (srv_loop S) = []"
  obtains w' where "drop_entry K s held name w = Inr w'"
    and "servers w' = (servers w)(s \<mapsto> S\<lparr>connections := (connections S)(name := None)\<rparr>)"
    and "loops w' = loops w" and "acceptors w' = acceptors w"
    and "conns w' = (conns w)(conn := None)" and "channels w' = (channels w)(c := None)"
proof -
  let ?S = "S\<lparr>connections := (connections S)(name := None)\<rparr>"
  let ?w = "put_server s ?S w"
  obtain C ch where C: "conns w conn = Some C" "conn_name C = name" "conn_loop C = srv_loop S" "conn_channel C = c"
    and ch: "channels w c = Some ch" "\<not> ch_events_handling ch" and held: "held conn = 0" "connections S name = Some conn"
    using sole by (auto simp: sole_def)
  have "use_count s held ?w conn = 0"
    using C held q by (simp add: use_count_def in_map_def refs_in_def)
  then have "drop_entry K s held name w = TcpConnection_dtor K conn ?w"
    using S held by (simp add: drop_entry_def drop_ref_def)
  also have "\<dots> = Inr (?w\<lparr>channels := (channels w)(c := None), conns := (conns w)(conn := None),
      kern := Socket_dtor K (conn_socket C) (kern w)\<rparr>)"
    using C ch by (simp add: TcpConnection_dtor_def Channel_dtor_def check_def)
  finally show ?thesis by (rule that) simp_all
qed

lemma drop_entries_free:
  assumes "servers w s = Some S" and "queue_of w (srv_loop S) = []" and "distinct names"
    and "\<And>n. n \<in> set names \<Longrightarrow> sole held S n (cn n) (chn n) w"
    and "inj_on cn (set names)" and "inj_on chn (set names)"
  shows "okR (foldR (drop_entry K s held) names w) (\<lambda>w'. servers w' s \<noteq> None \<and> loops w' = loops w \<and>
    acceptors w' = acceptors w \<and> (\<forall>n\<in>set names. conns w' (cn n) = None \<and> channels w' (chn n) = None) \<and>
    (\<forall>d. d \<notin> chn ` set names \<longrightarrow> channels w' d = channels w d) \<and>
    (\<forall>d. d \<notin> cn ` set names \<longrightarrow> conns w' d = conns w d))"
  using assms
proof (induction names arbitrary: w S)
  case Nil
  then show ?case by simp
next
  case (Cons n names)
  let ?S = "S\<lparr>connections := (connections S)(n := None)\<rparr>"
  have "sole held S n (cn n) (chn n) w" using Cons.prems(4) by simp
  with Cons.prems(1) obtain w1 where w1: "drop_entry K s held n w = Inr w1"
    "servers w1 = (servers w)(s \<mapsto> ?S)" "loops w1 = loops w" "acceptors w1 = acceptors w"
    "conns w1 = (conns w)(cn n := None)" "channels w1 = (channels w)(chn n := None)"
    using Cons.prems(2) by (rule drop_entry_frees)
  have "sole held ?S m (cn m) (chn m) w1" if m: "m \<in> set names" for m
  proof -
    have "m \<noteq> n" using m Cons.prems(3) by auto
    then have "cn m \<noteq> cn n" "chn m \<noteq> chn n"
      using m Cons.prems(5,6) by (metis inj_onD list.set_intros)+
    then show ?thesis using Cons.prems(4)[of m] m \<open>m \<noteq> n\<close> w1 by (simp add: sole_def)
  qed
  then have "okR (foldR (drop_entry K s held) names w1) (\<lambda>w'. servers w' s \<noteq> None \<and> loops w' = loops w1 \<and>
      acceptors w' = acceptors w1 \<and> (\<forall>n\<in>set names. conns w' (cn n) = None \<and> channels w' (chn n) = None) \<and>
      (\<forall>d. d \<notin> chn ` set names \<longrightarrow> channels w' d = channels w1 d) \<and>
      (\<forall>d. d \<notin> cn ` set names \<longrightarrow> conns w' d = conns w1 d))"
    using Cons.prems w1 by (intro Cons.IH[of w1 ?S]) (simp_all add: queue_of_def)
  moreover have "cn n \<notin> cn ` set names" "chn n \<notin> chn ` set names"
    using Cons.prems(3,5,6) by auto
  ultimately show ?case
    using w1 by (auto elim!: okR_mono)
qed

text \<open>\<open>fillActiveChannels\<close> looks into the channel of the first ready entry.\<close>

lemma fill_dangling:
  assumes "ready pfds = pfd # rest" and "cm (pfd_fd pfd) = Some c" and "h c = None" and "0 < n"
  shows "fillActiveChannels cm pfds n h act = Inl NullDeref"
  using assms by (induction pfds) (auto simp: ready_def split: if_splits)

lemma iteration_dangling:
  assumes L: "loops w l = Some L" "loop_poller L = Some p"
    and sys: "sys_poll K (poll_fds p) kPollTimeMs (kern w) = ((n, rs), k1)" "0 < n"
    and rdy: "ready (set_revents (poll_fds p) rs) = pfd # rest" "channel_map p (pfd_fd pfd) = Some c" "channels w c = None"
  shows "loop_iter tid K call run l w = Inl NullDeref"
  using L sys fill_dangling[where cm = "channel_map p" and h = "channels w" and act = "[]", OF rdy sys(2)]
  by (simp add: loop_iter_def Poller_poll_def Let_def case_prod_beta)

lemma TcpServer_dtor_frees:
  assumes S: "servers w s = Some S" and q: "queue_of w (srv_loop S) = []" and names: "distinct names"
    and sole: "\<And>n. n \<in> set names \<Longrightarrow> sole held S n (cn n) (chn n) w"
    and inj: "inj_on cn (set names)" "inj_on chn (set names)"
    and A: "acceptors w (srv_acceptor S) = Some A" "channels w (acc_channel A) = Some ch" "\<not> ch_events_handling ch"
      "acc_channel A \<notin> chn ` set names"
  shows "okR (TcpServer_dtor tid K pj names [] held s w) (\<lambda>w'. loops w' = loops w \<and> servers w' s = None \<and>
    acceptors w' (srv_acceptor S) = None \<and> channels w' (acc_channel A) = None \<and>
    (\<forall>n\<in>set names. conns w' (cn n) = None \<and> channels w' (chn n) = None))"
proof -
  obtain w1 where w1: "foldR (drop_entry K s held) names w = Inr w1" "loops w1 = loops w" "acceptors w1 = acceptors w"
    "\<forall>n\<in>set names. conns w1 (cn n) = None \<and> channels w1 (chn n) = None"
    "\<forall>d. d \<notin> chn ` set names \<longrightarrow> channels w1 d = channels w d"
    using drop_entries_free[OF S q names sole inj, of K] unfolding okR_iff_ex by blast
  show ?thesis
    using S A w1 by (simp add: TcpServer_dtor_def Acceptor_dtor_def Channel_dtor_def check_def)
qed

section \<open>Properties\<close>

text \<open>
  C34: destroying a server leaves dangling channels in the poller. Let a server without I/O threads go,
  with its connections open and held by nobody else and nothing queued in the loop. The destructor
  returns; every connection and its channel are freed, but nothing is taken out of the poller, whose
  map still leads from the descriptor of each connection to its freed channel. When \<open>poll(2)\<close> next
  reports such a descriptor first, \<open>fillActiveChannels\<close> dereferences the freed channel.
\<close>

theorem server_dtor_leaves_dangling_channels:
  assumes "servers w s = Some S" and "queue_of w (srv_loop S) = []"
    and "distinct names" and "set names = dom (connections S)"
    and "\<forall>name conn. connections S name = Some conn \<longrightarrow> echo_conn tid (srv_loop S) conn w \<and>
      conn_name (the_conn conn w) = name \<and> held conn = 0 \<and> \<not> ch_events_handling (the (channels w (conn_ch conn w)))"
    and "acceptors w (srv_acceptor S) = Some A" and "channels w (acc_channel A) = Some ach"
    and "ch_read_cb ach = Some (AcceptorHandleRead (srv_acceptor S))" and "\<not> ch_events_handling ach"
    and "connections S name = Some conn"
  shows "okR (TcpServer_dtor tid K pthread_join names [] held s w) (\<lambda>w'.
    conns w' conn = None \<and> channels w' (conn_ch conn w) = None \<and>
    the_poller w' (srv_loop S) = the_poller w (srv_loop S) \<and>
    channel_map (the_poller w (srv_loop S)) (conn_fd conn w) = Some (conn_ch conn w) \<and>
    (\<forall>n rs k1 pfd rest. sys_poll K (poll_fds (the_poller w' (srv_loop S))) kPollTimeMs (kern w') = ((n, rs), k1) \<and> 0 < n \<and>
       ready (set_revents (poll_fds (the_poller w' (srv_loop S))) rs) = pfd # rest \<and> pfd_fd pfd = conn_fd conn w \<longrightarrow>
       loop_iter tid K call run (srv_loop S) w' = Inl NullDeref))"
proof -
  let ?l = "srv_loop S" and ?cn = "\<lambda>n. the (connections S n)" and ?chn = "\<lambda>n. conn_ch (the (connections S n)) w"
  have entry: "echo_conn tid ?l (?cn n) w" "conn_name (the_conn (?cn n) w) = n" "held (?cn n) = 0"
    "\<not> ch_events_handling (the (channels w (?chn n)))" "connections S n = Some (?cn n)" if "n \<in> set names" for n
    using assms(4,5) that by (auto simp: dom_def)
  have sole: "sole held S n (?cn n) (?chn n) w" if "n \<in> set names" for n
    using entry[OF that] the_conn_ok[of tid "?cn n" w "the_conn (?cn n) w"]
    by (auto simp: sole_def echo_conn_def conn_ch_def)
  have inj: "inj_on ?cn (set names)" using entry(2) by (intro inj_onI) metis
  have "inj_on ?chn (set names)"
  proof (rule inj_onI)
    fix x y
    assume x: "x \<in> set names" and y: "y \<in> set names" and "?chn x = ?chn y"
    then have "?cn x = ?cn y" using echo_conn_distinct(1)[OF entry(1)[OF y] entry(1)[OF x]] by blast
    then show "x = y" using inj_onD[OF inj _ x y] by simp
  qed
  moreover have "ch_read_cb (the (channels w (?chn n))) = Some (ConnHandleRead (?cn n))" if "n \<in> set names" for n
    using entry(1)[OF that] by (auto simp: echo_conn_def)
  then have "acc_channel A \<notin> ?chn ` set names" using assms(7,8) by force
  ultimately have freed: "okR (TcpServer_dtor tid K pthread_join names [] held s w) (\<lambda>w'. loops w' = loops w \<and>
      (\<forall>n\<in>set names. conns w' (?cn n) = None \<and> channels w' (?chn n) = None))"
    by (intro okR_mono[OF TcpServer_dtor_frees[OF assms(1-3) sole inj _ assms(6,7,9)]]) auto
  have conn: "name \<in> set names" "?cn name = conn" using assms(4,10) by auto
  then have at: "channel_map (the_poller w ?l) (conn_fd conn w) = Some (conn_ch conn w)" "loop_ready w ?l"
    using echo_conn_map[OF entry(1)[OF conn(1)]] by simp_all
  obtain L where L: "loops w ?l = Some L" "loop_poller L = Some (the_poller w ?l)" using at(2) by (auto elim: loop_readyE)
  obtain w' where w': "TcpServer_dtor tid K pthread_join names [] held s w = Inr w'" "loops w' = loops w"
    and gone: "conns w' conn = None" "channels w' (conn_ch conn w) = None"
    using freed conn by (auto simp: okR_iff_ex)
  have p: "the_poller w' ?l = the_poller w ?l" using w'(2) by (simp add: the_poller_def)
  have "loop_iter tid K call run ?l w' = Inl NullDeref"
    if "sys_poll K (poll_fds (the_poller w' ?l)) kPollTimeMs (kern w') = ((n, rs), k1)" "0 < n"
      "ready (set_revents (poll_fds (the_poller w' ?l)) rs) = pfd # rest" "pfd_fd pfd = conn_fd conn w"
    for n rs k1 pfd rest
    using that L w'(2) p gone(2) at(1) by (intro iteration_dangling[where pfd = pfd]) simp_all
  then show ?thesis using w'(1) gone p at(1) by auto
qed

definition down_acceptor :: "chan_cb channel" where
  "down_acceptor = setReadCallback (AcceptorHandleRead 5) (Channel_ctor 0 3)"

definition down_world :: "sim server_world" where
  "down_world = demo_server_world\<lparr>channels := [2 \<mapsto> demo_channel, 6 \<mapsto> down_acceptor]\<rparr>"

lemma down_fields:
  "channels down_world = [2 \<mapsto> demo_channel, 6 \<mapsto> down_acceptor]" "loops down_world = [0 \<mapsto> demo_loop]"
  "conns down_world = [3 \<mapsto> demo_conn]" "servers down_world = [9 \<mapsto> demo_server]"
  "acceptors down_world = [5 \<mapsto> \<lparr>acc_loop = 0, acc_socket = 3, acc_channel = 6, has_new_conn_cb = False, acc_listenning = True\<rparr>]"
  "the_conn 3 down_world = demo_conn"
  by (simp_all add: down_world_def demo_server_world_fields the_conn_def)
    (simp add: demo_server_world_def demo_acc_world_def acc_world.defs tcp_world.defs)

lemma down_views: "conn_ch 3 down_world = 2" "conn_fd 3 down_world = 7" "the_poller down_world 0 = demo_poller"
  "queue_of down_world 0 = []" "\<not> ch_events_handling demo_channel" "\<not> ch_events_handling down_acceptor"
  by (simp_all add: conn_ch_def conn_fd_def the_poller_def queue_of_def down_fields demo_conn_fields demo_loop_def)
    (simp_all add: demo_channel_def down_acceptor_def Channel_ctor_def setReadCallback_def)

lemma down_echo: "echo_conn 1 0 3 down_world"
proof -
  have "table_inv (demo_poller, [2 \<mapsto> demo_channel, 6 \<mapsto> down_acceptor])"
    by (auto simp: table_inv_def poller_inv_def events_synced_def at_slot_def demo_poller_def demo_channel_def
        split: if_splits)
  then have "loop_ready down_world 0"
    by (simp add: loop_ready_def down_fields del: fun_upd_apply) (simp add: demo_loop_def)
  then have at: "conn_at down_world 3 demo_conn demo_channel"
    by (simp add: conn_at_def down_fields demo_conn_fields registered_def down_views)
      (simp add: demo_channel_def demo_poller_def)
  have "conn_ok 1 3 down_world demo_conn"
    using at demo_idle[OF down_fields(2)]
    by (intro conn_okI[OF at]) (simp_all add: demo_conn_fields demo_channel_def isWriting_def has_const)
  then show ?thesis
    by (simp add: echo_conn_def down_fields down_views demo_conn_fields) (simp add: demo_conn_def demo_channel_def)
qed

theorem server_dtor_leaves_dangling_channels_witness:
  "okR (TcpServer_dtor 1 sim_ops (\<lambda>t k. (0, k)) [''0.0.0.0:2007#1''] [] (\<lambda>c. 0) 9 down_world) (\<lambda>w'.
    channels w' 2 = None \<and>
    loop_iter 1 sim_ops (echo_call 1 sim_ops sim_net 9) (echo_run 1 sim_ops sim_net 9) 0 w' = Inl NullDeref)"
proof -
  have S: "servers down_world 9 = Some demo_server" by (simp add: down_fields)
  have acc: "acceptors down_world (srv_acceptor demo_server) =
      Some \<lparr>acc_loop = 0, acc_socket = 3, acc_channel = 6, has_new_conn_cb = False, acc_listenning = True\<rparr>"
    by (simp add: down_fields demo_server_def)
  have "okR (TcpServer_dtor 1 sim_ops (\<lambda>t k. (0, k)) [''0.0.0.0:2007#1''] [] (\<lambda>c. 0) 9 down_world) (\<lambda>w'.
    conns w' 3 = None \<and> channels w' (conn_ch 3 down_world) = None \<and>
    the_poller w' (srv_loop demo_server) = the_poller down_world (srv_loop demo_server) \<and>
    channel_map (the_poller down_world (srv_loop demo_server)) (conn_fd 3 down_world) = Some (conn_ch 3 down_world) \<and>
    (\<forall>n rs k1 pfd rest. sys_poll sim_ops (poll_fds (the_poller w' (srv_loop demo_server))) kPollTimeMs (kern w') = ((n, rs), k1) \<and> 0 < n \<and>
       ready (set_revents (poll_fds (the_poller w' (srv_loop demo_server))) rs) = pfd # rest \<and> pfd_fd pfd = conn_fd 3 down_world \<longrightarrow>
       loop_iter 1 sim_ops (echo_call 1 sim_ops sim_net 9) (echo_run 1 sim_ops sim_net 9) (srv_loop demo_server) w' = Inl NullDeref))"
    by (rule server_dtor_leaves_dangling_channels[where name = "''0.0.0.0:2007#1''" and ach = down_acceptor, OF S _ _ _ _ acc])
      (use down_echo in \<open>simp_all add: demo_server_fields down_fields down_views demo_conn_def demo_server_def
        down_acceptor_def setReadCallback_def Channel_ctor_def\<close>)
  then show ?thesis
    by (rule okR_mono) (simp add: demo_server_fields down_views demo_poll demo_pfd_def)
qed

end
