(* ===== verification/TimerQueue.thy ===== *)
theory TimerQueue
  imports EventLoop Timestamp
begin

text \<open>
  \<open>class Timer\<close>, \<open>class TimerId\<close> and \<open>class TimerQueue\<close> (\<open>src/src/include/timer.h\<close>,
  \<open>src/src/include/timer_id.h\<close>, \<open>src/src/include/timer_queue.h\<close>, \<open>src/src/timer_queue.cpp\<close>) with
  \<open>EventLoop::runAt\<close>, \<open>runAfter\<close> and \<open>runEvery\<close>. A \<open>std::set\<close> is the list of its elements in the
  order of its comparator; the comparator may fail, since it dereferences the timers. The locale
  \<open>set_order\<close> states what a comparator promises to the set, and the set operations are shown
  equal to insertion into, and searching of, a sorted list.

  Two places of the source are not accepted by a compiler and are read by their evident meaning: the
  set's elements are pairs, and \<open>TimerEntryCmp\<close> is applied to their second components; the
  closure bound in \<open>addTimer\<close> and the vector filled by \<open>std::copy\<close> hold the timer's pointer.
\<close>

section \<open>State\<close>

text \<open>
  Timers live in a heap; a \<open>unique_ptr\<close> is an address or null. \<open>'t\<close> is the type of timer
  callbacks; an empty \<open>std::function\<close> is \<open>None\<close>.
\<close>

record 't timer =
  t_callback :: "'t option"
  t_expiration :: timestamp
  t_interval :: double
  t_repeat :: bool

type_synonym 't timer_store = "nat \<rightharpoonup> 't timer"
type_synonym timer_entry = "timestamp \<times> nat option"

datatype timer_id = TimerId nat

record timer_queue =
  tq_loop :: nat
  tq_timerfd :: int
  tq_channel :: nat
  tq_timers :: "timer_entry list"

text \<open>The timer queue's own channel callback and closure, beside those of the rest of the program.\<close>

datatype 'c timer_callback = TimerQueueHandleRead nat | OtherCallback 'c
datatype 'g timer_closure = AddTimerInLoop nat nat | OtherClosure 'g

record ('t, 'cb, 'f, 'k) timer_world = "('cb, 'f, 'k) reactor" +
  timer_heap :: "'t timer_store"
  timer_queues :: "nat \<rightharpoonup> timer_queue"
  loop_timer_queue :: "nat \<rightharpoonup> nat"

type_synonym ('t, 'c, 'g, 'k) tworld = "('t, 'c timer_callback, 'g timer_closure, 'k) timer_world"

definition put_timer_queue :: "nat \<Rightarrow> timer_queue \<Rightarrow> ('t, 'c, 'g, 'k) tworld \<Rightarrow> ('t, 'c, 'g, 'k) tworld" where
  "put_timer_queue q Q w = w\<lparr>timer_queues := (timer_queues w)(q \<mapsto> Q)\<rparr>"

definition put_timer :: "nat \<Rightarrow> 't timer \<Rightarrow> ('t, 'c, 'g, 'k) tworld \<Rightarrow> ('t, 'c, 'g, 'k) tworld" where
  "put_timer a tm w = w\<lparr>timer_heap := (timer_heap w)(a \<mapsto> tm)\<rparr>"

definition deref_ptr :: "('p \<rightharpoonup> 'o) \<Rightarrow> 'p option \<Rightarrow> 'o res" where
  "deref_ptr h p = bindR (optR NullDeref p) (deref h)"

text \<open>\<open>delete\<close> on an address that holds no object is an error.\<close>

definition delete_timer :: "nat \<Rightarrow> ('t, 'c, 'g, 'k) tworld \<Rightarrow> ('t, 'c, 'g, 'k) tworld res" where
  "delete_timer a w = bindR (deref (timer_heap w) a) (\<lambda>_. Inr (w\<lparr>timer_heap := (timer_heap w)(a := None)\<rparr>))"

text \<open>System calls of the timers: \<open>gettimeofday\<close>, \<open>timerfd_create\<close>, \<open>timerfd_settime\<close> (with the
  \<open>it_value\<close> of its argument; the interval is zero).\<close>

record 'k timerops =
  sys_gettimeofday :: "'k \<Rightarrow> (int \<times> int) \<times> 'k"
  sys_timerfd_create :: "'k \<Rightarrow> int \<times> 'k"
  sys_timerfd_settime :: "int \<Rightarrow> int \<times> int \<Rightarrow> 'k \<Rightarrow> int \<times> 'k"


section \<open>Timer\<close>

definition Timer_ctor :: "'t option \<Rightarrow> timestamp \<Rightarrow> double \<Rightarrow> 't timer" where
  "Timer_ctor cb expiration interval =
     \<lparr>t_callback = cb, t_expiration = expiration, t_interval = interval,
      t_repeat = double_positive interval\<rparr>"

definition Timer_run :: "('t \<Rightarrow> 'w \<Rightarrow> 'w res) \<Rightarrow> 't timer \<Rightarrow> 'w \<Rightarrow> 'w res" where
  "Timer_run call tm w = bindR (optR BadFunctionCall (t_callback tm)) (\<lambda>cb. call cb w)"

definition getExpiration :: "'t timer \<Rightarrow> timestamp" where
  "getExpiration tm = t_expiration tm"

definition isRepeat :: "'t timer \<Rightarrow> bool" where
  "isRepeat tm = t_repeat tm"

definition restart :: "timestamp \<Rightarrow> 't timer \<Rightarrow> 't timer res" where
  "restart now tm =
     (if t_repeat tm then bindR (addTime now (t_interval tm)) (\<lambda>e. Inr (tm\<lparr>t_expiration := e\<rparr>))
      else Inr (tm\<lparr>t_expiration := invalid\<rparr>))"


section \<open>The set\<close>

definition TimerEntryCmp :: "'t timer_store \<Rightarrow> nat option \<Rightarrow> nat option \<Rightarrow> bool res" where
  "TimerEntryCmp h l r =
     bindR (deref_ptr h l) (\<lambda>tl. bindR (deref_ptr h r) (\<lambda>tr. Inr (getExpiration tl < getExpiration tr)))"

abbreviation entry_less :: "'t timer_store \<Rightarrow> timer_entry \<Rightarrow> timer_entry \<Rightarrow> bool res" where
  "entry_less h x y \<equiv> TimerEntryCmp h (snd x) (snd y)"

text \<open>\<open>std::set::insert\<close>: an element equivalent to one in the set is not inserted.\<close>

fun set_insert :: "('a \<Rightarrow> 'a \<Rightarrow> bool res) \<Rightarrow> 'a \<Rightarrow> 'a list \<Rightarrow> ('a list \<times> bool) res" where
  "set_insert lt x [] = Inr ([x], True)"
| "set_insert lt x (y # ys) =
     bindR (lt x y) (\<lambda>before. if before then Inr (x # y # ys, True) else
     bindR (lt y x) (\<lambda>after. if after then bindR (set_insert lt x ys) (\<lambda>(zs, b). Inr (y # zs, b))
       else Inr (y # ys, False)))"

text \<open>\<open>std::set::lower_bound\<close>: the position of the first element that is not less.\<close>

fun set_lower_bound :: "('a \<Rightarrow> 'a \<Rightarrow> bool res) \<Rightarrow> 'a \<Rightarrow> 'a list \<Rightarrow> nat res" where
  "set_lower_bound lt x [] = Inr 0"
| "set_lower_bound lt x (y # ys) =
     bindR (lt y x) (\<lambda>less. if less then bindR (set_lower_bound lt x ys) (\<lambda>n. Inr (Suc n)) else Inr 0)"


section \<open>The timer descriptor\<close>

definition read_clock :: "'k timerops \<Rightarrow> ('t, 'c, 'g, 'k) tworld \<Rightarrow> (timestamp \<times> ('t, 'c, 'g, 'k) tworld) res" where
  "read_clock T w = bindR (Timestamp_now (sys_gettimeofday T) (kern w)) (\<lambda>(t, k'). Inr (t, w\<lparr>kern := k'\<rparr>))"

definition createTimerfd :: "'k timerops \<Rightarrow> ('t, 'c, 'g, 'k) tworld \<Rightarrow> int \<times> ('t, 'c, 'g, 'k) tworld" where
  "createTimerfd T w = (let (fd, k') = sys_timerfd_create T (kern w) in (fd, w\<lparr>kern := k'\<rparr>))"

definition howMuchTimeFromNow :: "'k timerops \<Rightarrow> timestamp \<Rightarrow> ('t, 'c, 'g, 'k) tworld \<Rightarrow>
    ((int \<times> int) \<times> ('t, 'c, 'g, 'k) tworld) res" where
  "howMuchTimeFromNow T when w =
     bindR (read_clock T w) (\<lambda>(n, w1).
     bindR (int64 (microSecondsSinceEpoch when - microSecondsSinceEpoch n)) (\<lambda>us.
     let microseconds = (if us < 100 then 100 else us) in
     Inr ((microseconds sdiv microSecondsPerSecond, (microseconds smod microSecondsPerSecond) * 1000), w1)))"

definition readTimerfd :: "'k sysops \<Rightarrow> int \<Rightarrow> ('t, 'c, 'g, 'k) tworld \<Rightarrow> ('t, 'c, 'g, 'k) tworld" where
  "readTimerfd K timerfd w = (let (r, k') = sys_read K timerfd 8 (kern w) in w\<lparr>kern := k'\<rparr>)"

definition resetTimerfd :: "'k timerops \<Rightarrow> int \<Rightarrow> timestamp \<Rightarrow> ('t, 'c, 'g, 'k) tworld \<Rightarrow>
    ('t, 'c, 'g, 'k) tworld res" where
  "resetTimerfd T timerfd expiration w =
     bindR (howMuchTimeFromNow T expiration w) (\<lambda>(it_value, w1).
     let (ret, k') = sys_timerfd_settime T timerfd it_value (kern w1) in Inr (w1\<lparr>kern := k'\<rparr>))"


section \<open>TimerQueue\<close>

text \<open>The queue gets address \<open>q\<close> and the channel inside it address \<open>c\<close>.\<close>

definition TimerQueue_ctor :: "int \<Rightarrow> 'k timerops \<Rightarrow> nat \<Rightarrow> nat \<Rightarrow> nat \<Rightarrow> ('t, 'c, 'g, 'k) tworld \<Rightarrow>
    ('t, 'c, 'g, 'k) tworld res" where
  "TimerQueue_ctor tid T q c loop w =
     (let (timerfd, w1) = createTimerfd T w;
          Q = \<lparr>tq_loop = loop, tq_timerfd = timerfd, tq_channel = c, tq_timers = []\<rparr>;
          ch = setReadCallback (TimerQueueHandleRead q) (Channel_ctor loop timerfd) in
      enableReading tid c (put_timer_queue q Q (put_channel c ch w1)))"

text \<open>The body closes the descriptor; then the members are destroyed: the timers, the channel.\<close>

definition TimerQueue_dtor :: "'k sysops \<Rightarrow> nat \<Rightarrow> ('t, 'c, 'g, 'k) tworld \<Rightarrow> ('t, 'c, 'g, 'k) tworld res" where
  "TimerQueue_dtor K q w =
     bindR (deref (timer_queues w) q) (\<lambda>Q.
     let (r, k') = sys_close K (tq_timerfd Q) (kern w) in
     bindR (foldR (\<lambda>e. case snd e of None \<Rightarrow> Inr | Some a \<Rightarrow> delete_timer a) (tq_timers Q) (w\<lparr>kern := k'\<rparr>)) (\<lambda>w1.
     bindR (deref (channels w1) (tq_channel Q)) (\<lambda>ch.
     bindR (Channel_dtor ch) (\<lambda>_.
     Inr (w1\<lparr>channels := (channels w1)(tq_channel Q := None), timer_queues := (timer_queues w1)(q := None)\<rparr>)))))"

definition TimerQueue_insert :: "nat \<Rightarrow> nat option \<Rightarrow> ('t, 'c, 'g, 'k) tworld \<Rightarrow>
    (bool \<times> ('t, 'c, 'g, 'k) tworld) res" where
  "TimerQueue_insert q timer w =
     bindR (deref (timer_queues w) q) (\<lambda>Q.
     bindR (deref_ptr (timer_heap w) timer) (\<lambda>tm.
     let when = getExpiration tm;
         earliest_to_alarm = (case tq_timers Q of [] \<Rightarrow> True | e # _ \<Rightarrow> when < fst e) in
     bindR (set_insert (entry_less (timer_heap w)) (when, timer) (tq_timers Q)) (\<lambda>(ts, inserted).
     check inserted (AssertFailed ''timer_queue.cpp:146'')
     (Inr (earliest_to_alarm, put_timer_queue q (Q\<lparr>tq_timers := ts\<rparr>) w)))))"

text \<open>After \<open>std::move(timer)\<close> the reference \<open>timer\<close> is null.\<close>

definition addTimerInLoop :: "int \<Rightarrow> 'k timerops \<Rightarrow> nat \<Rightarrow> nat option \<Rightarrow> ('t, 'c, 'g, 'k) tworld \<Rightarrow>
    ('t, 'c, 'g, 'k) tworld res" where
  "addTimerInLoop tid T q timer w =
     bindR (deref (timer_queues w) q) (\<lambda>Q.
     bindR (assertInLoopThread tid (tq_loop Q) w) (\<lambda>_.
     bindR (TimerQueue_insert q timer w) (\<lambda>(earliest_to_alarm, w1).
     let timer = None in
     if earliest_to_alarm then
       bindR (deref_ptr (timer_heap w1) timer) (\<lambda>tm. resetTimerfd T (tq_timerfd Q) (getExpiration tm) w1)
     else Inr w1)))"

fun run_timer_closure :: "int \<Rightarrow> 'k timerops \<Rightarrow> ('g \<Rightarrow> ('t, 'c, 'g, 'k) tworld \<Rightarrow> ('t, 'c, 'g, 'k) tworld res) \<Rightarrow>
    'g timer_closure \<Rightarrow> ('t, 'c, 'g, 'k) tworld \<Rightarrow> ('t, 'c, 'g, 'k) tworld res" where
  "run_timer_closure tid T run (AddTimerInLoop q a) w = addTimerInLoop tid T q (Some a) w"
| "run_timer_closure tid T run (OtherClosure g) w = run g w"

text \<open>\<open>a\<close> is the address of the timer made by \<open>make_unique\<close>.\<close>

definition addTimer :: "int \<Rightarrow> 'k sysops \<Rightarrow> 'k timerops \<Rightarrow>
    ('g \<Rightarrow> ('t, 'c, 'g, 'k) tworld \<Rightarrow> ('t, 'c, 'g, 'k) tworld res) \<Rightarrow> nat \<Rightarrow> nat \<Rightarrow>
    't option \<Rightarrow> timestamp \<Rightarrow> double \<Rightarrow> ('t, 'c, 'g, 'k) tworld \<Rightarrow> (timer_id \<times> ('t, 'c, 'g, 'k) tworld) res" where
  "addTimer tid K T run a q cb when interval w =
     bindR (deref (timer_queues w) q) (\<lambda>Q.
     bindR (runInLoop tid K (run_timer_closure tid T run) (tq_loop Q) (AddTimerInLoop q a)
              (put_timer a (Timer_ctor cb when interval) w)) (\<lambda>w1.
     Inr (TimerId a, w1)))"

text \<open>\<open>reinterpret_cast<Timer*>(UINTPTR_MAX)\<close>.\<close>

definition UINTPTR_MAX :: nat where
  "UINTPTR_MAX = 2 ^ 64 - 1"

text \<open>The sentry's \<open>unique_ptr\<close> deletes its pointer when the function returns.\<close>

definition getExpired :: "nat \<Rightarrow> timestamp \<Rightarrow> ('t, 'c, 'g, 'k) tworld \<Rightarrow>
    (timer_entry list \<times> ('t, 'c, 'g, 'k) tworld) res" where
  "getExpired q now w =
     bindR (deref (timer_queues w) q) (\<lambda>Q.
     let sentry = (now, Some UINTPTR_MAX) in
     bindR (set_lower_bound (entry_less (timer_heap w)) sentry (tq_timers Q)) (\<lambda>it.
     check (it = length (tq_timers Q) \<or> now < fst (tq_timers Q ! it)) (AssertFailed ''timer_queue.cpp:109'')
     (let expired = take it (tq_timers Q);
          w1 = put_timer_queue q (Q\<lparr>tq_timers := drop it (tq_timers Q)\<rparr>) w in
      bindR (delete_timer UINTPTR_MAX w1) (\<lambda>w2. Inr (expired, w2)))))"

text \<open>One round of the loop in \<open>reset\<close>: a repeating timer goes back, any other is destroyed.\<close>

definition reset_one :: "nat \<Rightarrow> timestamp \<Rightarrow> timer_entry \<Rightarrow> ('t, 'c, 'g, 'k) tworld \<Rightarrow>
    ('t, 'c, 'g, 'k) tworld res" where
  "reset_one q now e w =
     bindR (optR NullDeref (snd e)) (\<lambda>a.
     bindR (deref (timer_heap w) a) (\<lambda>tm.
     if isRepeat tm then
       bindR (restart now tm) (\<lambda>tm'.
       bindR (TimerQueue_insert q (Some a) (put_timer a tm' w)) (\<lambda>(_, w'). Inr w'))
     else delete_timer a w))"

definition TimerQueue_reset :: "'k timerops \<Rightarrow> nat \<Rightarrow> timer_entry list \<Rightarrow> timestamp \<Rightarrow>
    ('t, 'c, 'g, 'k) tworld \<Rightarrow> ('t, 'c, 'g, 'k) tworld res" where
  "TimerQueue_reset T q expired now w =
     bindR (foldR (reset_one q now) expired w) (\<lambda>w1.
     bindR (deref (timer_queues w1) q) (\<lambda>Q.
     bindR (case tq_timers Q of [] \<Rightarrow> Inr Timestamp_default
            | e # _ \<Rightarrow> bindR (deref_ptr (timer_heap w1) (snd e)) (\<lambda>tm. Inr (getExpiration tm))) (\<lambda>next_expire.
     if valid next_expire then resetTimerfd T (tq_timerfd Q) next_expire w1 else Inr w1)))"

definition TimerQueue_handleRead :: "int \<Rightarrow> 'k sysops \<Rightarrow> 'k timerops \<Rightarrow>
    ('t \<Rightarrow> ('t, 'c, 'g, 'k) tworld \<Rightarrow> ('t, 'c, 'g, 'k) tworld res) \<Rightarrow> nat \<Rightarrow>
    ('t, 'c, 'g, 'k) tworld \<Rightarrow> ('t, 'c, 'g, 'k) tworld res" where
  "TimerQueue_handleRead tid K T call q w =
     bindR (deref (timer_queues w) q) (\<lambda>Q.
     bindR (assertInLoopThread tid (tq_loop Q) w) (\<lambda>_.
     bindR (read_clock T w) (\<lambda>(now, w1).
     bindR (getExpired q now (readTimerfd K (tq_timerfd Q) w1)) (\<lambda>(expired, w2).
     bindR (foldR (\<lambda>e w. bindR (deref_ptr (timer_heap w) (snd e)) (\<lambda>tm. Timer_run call tm w)) expired w2) (\<lambda>w3.
     TimerQueue_reset T q expired now w3)))))"


section \<open>Timers of the event loop\<close>

text \<open>\<open>timer_queue_\<close> is a \<open>unique_ptr\<close> that may be null.\<close>

definition runAt :: "int \<Rightarrow> 'k sysops \<Rightarrow> 'k timerops \<Rightarrow>
    ('g \<Rightarrow> ('t, 'c, 'g, 'k) tworld \<Rightarrow> ('t, 'c, 'g, 'k) tworld res) \<Rightarrow> nat \<Rightarrow> nat \<Rightarrow>
    timestamp \<Rightarrow> 't option \<Rightarrow> ('t, 'c, 'g, 'k) tworld \<Rightarrow> (timer_id \<times> ('t, 'c, 'g, 'k) tworld) res" where
  "runAt tid K T run a l time cb w =
     bindR (deref (loop_timer_queue w) l) (\<lambda>q. addTimer tid K T run a q cb time (Finite 0 0) w)"

definition runAfter :: "int \<Rightarrow> 'k sysops \<Rightarrow> 'k timerops \<Rightarrow>
    ('g \<Rightarrow> ('t, 'c, 'g, 'k) tworld \<Rightarrow> ('t, 'c, 'g, 'k) tworld res) \<Rightarrow> nat \<Rightarrow> nat \<Rightarrow>
    double \<Rightarrow> 't option \<Rightarrow> ('t, 'c, 'g, 'k) tworld \<Rightarrow> (timer_id \<times> ('t, 'c, 'g, 'k) tworld) res" where
  "runAfter tid K T run a l delay cb w =
     bindR (read_clock T w) (\<lambda>(n, w1). bindR (addTime n delay) (\<lambda>time. runAt tid K T run a l time cb w1))"

definition runEvery :: "int \<Rightarrow> 'k sysops \<Rightarrow> 'k timerops \<Rightarrow>
    ('g \<Rightarrow> ('t, 'c, 'g, 'k) tworld \<Rightarrow> ('t, 'c, 'g, 'k) tworld res) \<Rightarrow> nat \<Rightarrow> nat \<Rightarrow>
    double \<Rightarrow> 't option \<Rightarrow> ('t, 'c, 'g, 'k) tworld \<Rightarrow> (timer_id \<times> ('t, 'c, 'g, 'k) tworld) res" where
  "runEvery tid K T run a l interval cb w =
     bindR (read_clock T w) (\<lambda>(n, w1). bindR (addTime n interval) (\<lambda>time.
     bindR (deref (loop_timer_queue w1) l) (\<lambda>q. addTimer tid K T run a q cb time interval w1)))"

section \<open>What a comparator promises to the set\<close>

text \<open>
  On the elements that satisfy \<open>ok\<close> the comparator does not fail and compares a key. Then
  inserting into the set is inserting into the list sorted by that key, unless the key is already
  there, and \<open>lower_bound\<close> splits the list at the key.
\<close>

locale set_order =
  fixes lt :: "'a \<Rightarrow> 'a \<Rightarrow> bool res" and key :: "'a \<Rightarrow> 'b :: linorder" and ok :: "'a \<Rightarrow> bool"
  assumes lt_key: "ok x \<Longrightarrow> ok y \<Longrightarrow> lt x y = Inr (key x < key y)"
begin

definition ordered :: "'a list \<Rightarrow> bool" where
  "ordered ys \<longleftrightarrow> list_all ok ys \<and> sorted_wrt (<) (map key ys)"

lemma ordered_Cons: "ordered (y # ys) \<longleftrightarrow> ok y \<and> (\<forall>z \<in> set ys. key y < key z) \<and> ordered ys"
  by (auto simp: ordered_def list_all_iff)

lemma insert_eq_insort:
  assumes "ok x" and "ordered ys"
  shows "set_insert lt x ys =
    Inr (if key x \<in> key ` set ys then (ys, False) else (insort_key key x ys, True))"
  using assms(2)
proof (induction ys)
  case Nil
  then show ?case by simp
next
  case (Cons y ys)
  then have y: "ok y" and ys: "\<forall>z \<in> set ys. key y < key z" and o: "ordered ys"
    by (simp_all add: ordered_Cons)
  consider "key x < key y" | "key y < key x" | "key x = key y" by fastforce
  then show ?case
  proof cases
    case 1
    then have "key x \<notin> key ` set ys" using ys by force
    then show ?thesis using 1 y assms(1) by (auto simp: lt_key)
  next
    case 2
    then show ?thesis using Cons.IH[OF o] y assms(1) by (auto simp: lt_key)
  next
    case 3
    then show ?thesis using y assms(1) by (auto simp: lt_key)
  qed
qed

lemma insort_ordered:
  assumes "ok x" and "ordered ys" and "key x \<notin> key ` set ys"
  shows "ordered (insort_key key x ys)"
  using assms(2,3)
proof (induction ys)
  case Nil
  then show ?case using assms(1) by (simp add: ordered_def)
next
  case (Cons y ys)
  show ?case
  proof (cases "key x \<le> key y")
    case True
    then have "key x < key y" using Cons.prems(2) by auto
    then show ?thesis using True Cons.prems(1) assms(1) by (auto simp: ordered_Cons)
  next
    case False
    then show ?thesis using Cons by (auto simp: ordered_Cons set_insort_key)
  qed
qed

lemma lower_bound_eq:
  assumes "ok x" and "ordered ys"
  shows "set_lower_bound lt x ys = Inr (length (filter (\<lambda>y. key y < key x) ys))"
  using assms(2)
proof (induction ys)
  case (Cons y ys)
  then have y: "ok y" and ys: "\<forall>z \<in> set ys. key y < key z" and o: "ordered ys"
    by (simp_all add: ordered_Cons)
  show ?case
  proof (cases "key y < key x")
    case True
    then show ?thesis using Cons.IH[OF o] y assms(1) by (simp add: lt_key)
  next
    case False
    then have "filter (\<lambda>z. key z < key x) ys = []" using ys by (auto simp: filter_empty_conv)
    then show ?thesis using False y assms(1) by (simp add: lt_key)
  qed
qed simp

lemma first_is_least:
  assumes "ordered (y # ys)"
  shows "Min (key ` set (y # ys)) = key y"
  using assms by (intro Min_eqI) (auto simp: ordered_Cons less_imp_le)

end

text \<open>
  \<open>TimerEntryCmp\<close> keeps that promise on entries whose timer is alive and expires at the time the
  entry is filed under.
\<close>

definition entry_ok :: "'t timer_store \<Rightarrow> timer_entry \<Rightarrow> bool" where
  "entry_ok h e \<longleftrightarrow> (\<exists>a tm. snd e = Some a \<and> h a = Some tm \<and> t_expiration tm = fst e)"

lemma deref_ptr_simps [simp]:
  "deref_ptr h None = Inl NullDeref"
  "deref_ptr h (Some a) = deref h a"
  by (simp_all add: deref_ptr_def)

lemma TimerEntryCmp_key: "entry_ok h x \<Longrightarrow> entry_ok h y \<Longrightarrow> entry_less h x y = Inr (fst x < fst y)"
  by (auto simp: entry_ok_def TimerEntryCmp_def getExpiration_def)

interpretation tset: set_order "entry_less h" fst "entry_ok h" for h :: "'t timer_store"
  by unfold_locales (rule TimerEntryCmp_key)

abbreviation timers_ok :: "'t timer_store \<Rightarrow> timer_entry list \<Rightarrow> bool" where
  "timers_ok h ts \<equiv> set_order.ordered fst (entry_ok h) ts"

lemma timers_ok_iff: "timers_ok h ts \<longleftrightarrow> list_all (entry_ok h) ts \<and> sorted_wrt (<) (map fst ts)"
  by (rule tset.ordered_def)


section \<open>Inserting\<close>

lemma put_timer_queue_simps [simp]:
  "timer_queues (put_timer_queue q Q w) = (timer_queues w)(q \<mapsto> Q)"
  "timer_heap (put_timer_queue q Q w) = timer_heap w"
  "kern (put_timer_queue q Q w) = kern w"
  "loops (put_timer_queue q Q w) = loops w"
  "timer_heap (put_timer a tm w) = (timer_heap w)(a \<mapsto> tm)"
  "timer_queues (put_timer a tm w) = timer_queues w"
  "kern (put_timer a tm w) = kern w"
  "loops (put_timer a tm w) = loops w"
  by (simp_all add: put_timer_queue_def put_timer_def)

text \<open>\<open>earliest ts t\<close>: the time \<open>t\<close> comes before all entries.\<close>

definition earliest :: "timer_entry list \<Rightarrow> timestamp \<Rightarrow> bool" where
  "earliest ts t \<longleftrightarrow> (\<forall>e \<in> set ts. t < fst e)"

lemma earliest_iff: "timers_ok h ts \<Longrightarrow> earliest ts t \<longleftrightarrow> (case ts of [] \<Rightarrow> True | e # _ \<Rightarrow> t < fst e)"
  by (cases ts) (auto simp: earliest_def tset.ordered_Cons)

lemma insert_eq:
  assumes "timer_queues w q = Some Q" and "timers_ok (timer_heap w) (tq_timers Q)"
    and "timer_heap w a = Some tm"
  shows "TimerQueue_insert q (Some a) w =
    (if t_expiration tm \<in> fst ` set (tq_timers Q) then Inl (AssertFailed ''timer_queue.cpp:146'')
     else Inr (earliest (tq_timers Q) (t_expiration tm),
       put_timer_queue q (Q\<lparr>tq_timers := insort_key fst (t_expiration tm, Some a) (tq_timers Q)\<rparr>) w))"
proof -
  have "entry_ok (timer_heap w) (t_expiration tm, Some a)"
    using assms(3) by (simp add: entry_ok_def)
  then show ?thesis
    using assms by (simp add: TimerQueue_insert_def getExpiration_def tset.insert_eq_insort earliest_iff Let_def)
qed

lemma insert_timers_ok:
  assumes "timers_ok h ts" and "h a = Some tm" and "t_expiration tm \<notin> fst ` set ts"
  shows "timers_ok h (insort_key fst (t_expiration tm, Some a) ts)"
  using assms by (intro tset.insort_ordered) (auto simp: entry_ok_def)

section \<open>Resetting the expired timers\<close>

text \<open>The entries \<open>reset\<close> puts back: each repeating timer at \<open>now\<close> plus its interval.\<close>

definition restarted :: "'t timer_store \<Rightarrow> timestamp \<Rightarrow> timer_entry \<Rightarrow> timer_entry option" where
  "restarted h now e = Option.bind (snd e) (\<lambda>a. Option.bind (h a) (\<lambda>tm.
     if isRepeat tm then (case addTime now (t_interval tm) of Inl x \<Rightarrow> None | Inr t \<Rightarrow> Some (t, Some a))
     else None))"

definition restarts :: "'t timer_store \<Rightarrow> timestamp \<Rightarrow> timer_entry list \<Rightarrow> timer_entry list" where
  "restarts h now es = List.map_filter (restarted h now) es"

text \<open>An expired entry holds a live timer, and restarting it does not overflow.\<close>

definition restartable :: "'t timer_store \<Rightarrow> timestamp \<Rightarrow> timer_entry \<Rightarrow> bool" where
  "restartable h now e \<longleftrightarrow> (\<exists>a tm. snd e = Some a \<and> h a = Some tm \<and>
     (isRepeat tm \<longrightarrow> (\<exists>t. addTime now (t_interval tm) = Inr t)))"

lemma restarts_simps [simp]:
  "restarts h now [] = []"
  "restarts h now (e # es) = (case restarted h now e of None \<Rightarrow> [] | Some x \<Rightarrow> [x]) @ restarts h now es"
  by (simp_all add: restarts_def map_filter_simps split: option.splits)

lemma restarts_cong:
  assumes "\<forall>e \<in> set es. \<forall>b. snd e = Some b \<longrightarrow> h' b = h b"
  shows "restarts h' now es = restarts h now es"
  using assms by (induction es) (auto simp: restarted_def split: Option.bind_split)

lemma restartable_cong:
  "(\<And>b. snd e = Some b \<Longrightarrow> h' b = h b) \<Longrightarrow> restartable h' now e = restartable h now e"
  unfolding restartable_def by metis

lemma entry_ok_cong: "(\<And>b. snd e = Some b \<Longrightarrow> h' b = h b) \<Longrightarrow> entry_ok h' e = entry_ok h e"
  unfolding entry_ok_def by metis

lemma timers_ok_cong:
  assumes "timers_ok h ts" and "\<And>b. Some b \<in> snd ` set ts \<Longrightarrow> h' b = h b"
  shows "timers_ok h' ts"
  using assms entry_ok_cong[of _ h' h] unfolding timers_ok_iff list_all_iff by (metis image_eqI)

text \<open>One round: either the timer goes back into the set at its next time, or it is freed.\<close>

lemma reset_one_ok:
  assumes Q: "timer_queues w q = Some Q" and ok: "timers_ok (timer_heap w) (tq_timers Q)"
    and e: "snd e = Some a" "timer_heap w a = Some tm" "restartable (timer_heap w) now e"
    and new: "Some a \<notin> snd ` set (tq_timers Q)"
    and free: "\<And>x. restarted (timer_heap w) now e = Some x \<Longrightarrow> fst x \<notin> fst ` set (tq_timers Q)"
  shows "okR (reset_one q now e w) (\<lambda>w'. \<exists>v ts'.
    w' = w\<lparr>timer_heap := (timer_heap w)(a := v), timer_queues := (timer_queues w)(q \<mapsto> Q\<lparr>tq_timers := ts'\<rparr>)\<rparr> \<and>
    timers_ok ((timer_heap w)(a := v)) ts' \<and> (\<not> isRepeat tm \<longrightarrow> v = None) \<and>
    set ts' = set_option (restarted (timer_heap w) now e) \<union> set (tq_timers Q))"
proof (cases "isRepeat tm")
  case False
  have "timers_ok ((timer_heap w)(a := None)) (tq_timers Q)"
    by (rule timers_ok_cong[OF ok]) (use new in auto)
  moreover have "restarted (timer_heap w) now e = None"
    using e False by (simp add: restarted_def)
  moreover have "(timer_queues w)(q \<mapsto> Q\<lparr>tq_timers := tq_timers Q\<rparr>) = timer_queues w"
    using Q by auto
  ultimately show ?thesis
    using e False by (auto simp: reset_one_def delete_timer_def intro!: exI[of _ "tq_timers Q"])
next
  case True
  then obtain t where t: "addTime now (t_interval tm) = Inr t"
    using e by (auto simp: restartable_def)
  let ?tm = "tm\<lparr>t_expiration := t\<rparr>" and ?w = "put_timer a (tm\<lparr>t_expiration := t\<rparr>) w"
  have x: "restarted (timer_heap w) now e = Some (t, Some a)"
    using e True t by (simp add: restarted_def)
  have ok': "timers_ok (timer_heap ?w) (tq_timers Q)"
    by (rule timers_ok_cong[OF ok]) (use new in auto)
  have notin: "t_expiration ?tm \<notin> fst ` set (tq_timers Q)" using free[OF x] by simp
  have "TimerQueue_insert q (Some a) ?w = Inr (earliest (tq_timers Q) t,
      put_timer_queue q (Q\<lparr>tq_timers := insort_key fst (t, Some a) (tq_timers Q)\<rparr>) ?w)"
    using insert_eq[of ?w q Q a ?tm] Q ok' notin by simp
  then have "reset_one q now e w =
      Inr (put_timer_queue q (Q\<lparr>tq_timers := insort_key fst (t, Some a) (tq_timers Q)\<rparr>) ?w)"
    using e True t by (simp add: reset_one_def restart_def isRepeat_def)
  moreover have "timers_ok (timer_heap ?w) (insort_key fst (t, Some a) (tq_timers Q))"
    using insert_timers_ok[OF ok' _ notin, of a] by simp
  ultimately show ?thesis
    using True x by (auto simp: put_timer_def put_timer_queue_def set_insort_key
        intro!: exI[of _ "Some ?tm"] exI[of _ "insort_key fst (t, Some a) (tq_timers Q)"])
qed


lemma restarted_snd: "restarted h now e = Some x \<Longrightarrow> snd x = snd e"
  by (auto simp: restarted_def split: Option.bind_splits if_splits sum.splits)

lemma timers_ok_distinct: "timers_ok h ts \<Longrightarrow> distinct (map fst ts)"
  using strict_sorted_iff[of "map fst ts"] by (simp add: timers_ok_iff)

text \<open>
  The effect of the loop: the set stays well-formed and gains exactly the restarted entries, timers
  that are not among the expired ones are untouched, expired one-shot timers are freed.
\<close>

definition reset_effect :: "nat \<Rightarrow> timestamp \<Rightarrow> timer_entry list \<Rightarrow> ('t, 'c, 'g, 'k) tworld \<Rightarrow> timer_queue \<Rightarrow>
    't timer_store \<Rightarrow> timer_entry list \<Rightarrow> ('t, 'c, 'g, 'k) tworld \<Rightarrow> bool" where
  "reset_effect q now es w Q h' ts' w' \<longleftrightarrow>
     w' = w\<lparr>timer_heap := h', timer_queues := (timer_queues w)(q \<mapsto> Q\<lparr>tq_timers := ts'\<rparr>)\<rparr> \<and>
     timers_ok h' ts' \<and> set ts' = set (restarts (timer_heap w) now es) \<union> set (tq_timers Q) \<and>
     (\<forall>a. Some a \<notin> snd ` set es \<longrightarrow> h' a = timer_heap w a) \<and>
     (\<forall>a tm. Some a \<in> snd ` set es \<longrightarrow> timer_heap w a = Some tm \<longrightarrow> \<not> isRepeat tm \<longrightarrow> h' a = None)"

text \<open>The whole loop, for expired timers whose next times are pairwise different and not taken.\<close>

lemma reset_loop_ok:
  assumes "timer_queues w q = Some Q" and "timers_ok (timer_heap w) (tq_timers Q)"
    and "list_all (restartable (timer_heap w) now) es"
    and "distinct (map snd es)" and "snd ` set es \<inter> snd ` set (tq_timers Q) = {}"
    and "distinct (map fst (restarts (timer_heap w) now es @ tq_timers Q))"
  shows "okR (foldR (reset_one q now) es w) (\<lambda>w'. \<exists>h' ts'. reset_effect q now es w Q h' ts' w')"
  using assms
proof (induction es arbitrary: w Q)
  case Nil
  then show ?case
    by (auto simp: fun_upd_idem simp del: fun_upd_apply intro!: exI[of _ "timer_heap w"] exI[of _ "tq_timers Q"]
        simp: reset_effect_def)
next
  case (Cons e es)
  obtain a tm where e: "snd e = Some a" "timer_heap w a = Some tm" "restartable (timer_heap w) now e"
    using Cons.prems(3) by (auto simp: restartable_def)
  have "okR (reset_one q now e w) (\<lambda>w'. \<exists>v ts'.
      w' = w\<lparr>timer_heap := (timer_heap w)(a := v), timer_queues := (timer_queues w)(q \<mapsto> Q\<lparr>tq_timers := ts'\<rparr>)\<rparr> \<and>
      timers_ok ((timer_heap w)(a := v)) ts' \<and> (\<not> isRepeat tm \<longrightarrow> v = None) \<and>
      set ts' = set_option (restarted (timer_heap w) now e) \<union> set (tq_timers Q))"
    using Cons.prems e by (intro reset_one_ok) (auto simp: image_iff)
  then obtain v ts1 where one: "reset_one q now e w = Inr (w\<lparr>timer_heap := (timer_heap w)(a := v),
        timer_queues := (timer_queues w)(q \<mapsto> Q\<lparr>tq_timers := ts1\<rparr>)\<rparr>)" (is "_ = Inr ?w1")
    and ok1: "timers_ok ((timer_heap w)(a := v)) ts1" and v: "\<not> isRepeat tm \<longrightarrow> v = None"
    and ts1: "set ts1 = set_option (restarted (timer_heap w) now e) \<union> set (tq_timers Q)"
    unfolding okR_iff_ex by blast
  have away: "\<And>x b. x \<in> set es \<Longrightarrow> snd x = Some b \<Longrightarrow> b \<noteq> a"
    using Cons.prems(4) e(1) by (auto simp: image_iff)
  then have heap1: "restarts ((timer_heap w)(a := v)) now es = restarts (timer_heap w) now es"
    by (intro restarts_cong) auto
  have ready1: "list_all (restartable ((timer_heap w)(a := v)) now) es"
    using Cons.prems(3) away restartable_cong[of _ "(timer_heap w)(a := v)" "timer_heap w"]
    by (auto simp: list_all_iff)
  have apart1: "snd ` set es \<inter> snd ` set ts1 = {}"
    using Cons.prems(4,5) restarted_snd[of "timer_heap w" now e] by (auto simp: ts1 image_iff)
  have distinct1: "distinct (map fst (restarts (timer_heap w) now es @ ts1))"
    using Cons.prems(6) timers_ok_distinct[OF ok1]
    by (cases "restarted (timer_heap w) now e") (simp_all add: ts1 Int_commute)
  have "okR (foldR (reset_one q now) es ?w1)
      (\<lambda>w'. \<exists>h' ts'. reset_effect q now es ?w1 (Q\<lparr>tq_timers := ts1\<rparr>) h' ts' w')"
    using ok1 ready1 Cons.prems(4) apart1 distinct1 by (intro Cons.IH) (simp_all add: heap1 fun_upd_same del: fun_upd_apply)
  then obtain h' ts' where rest: "foldR (reset_one q now) es ?w1 = Inr (w\<lparr>timer_heap := h',
        timer_queues := (timer_queues w)(q \<mapsto> Q\<lparr>tq_timers := ts'\<rparr>)\<rparr>)"
    and ts': "timers_ok h' ts'" "set ts' = set (restarts (timer_heap w) now es) \<union> set ts1"
    and same: "\<forall>b. Some b \<notin> snd ` set es \<longrightarrow> h' b = ((timer_heap w)(a := v)) b"
    and gone: "\<forall>b tm. Some b \<in> snd ` set es \<longrightarrow> ((timer_heap w)(a := v)) b = Some tm \<longrightarrow> \<not> isRepeat tm \<longrightarrow> h' b = None"
    unfolding okR_iff_ex by (auto simp: reset_effect_def heap1 simp del: fun_upd_apply)
  have "Some a \<notin> snd ` set es" using Cons.prems(4) e(1) by simp
  then have "h' a = v" using same by simp
  have one_shot: "h' b = None" if "Some b \<in> snd ` set (e # es)" "timer_heap w b = Some t" "\<not> isRepeat t" for b t
    using that e v gone \<open>h' a = v\<close> by (cases "b = a") auto
  have others: "h' b = timer_heap w b" if "Some b \<notin> snd ` set (e # es)" for b
    using that e same by auto
  have "set ts' = set (restarts (timer_heap w) now (e # es)) \<union> set (tq_timers Q)"
    unfolding ts' ts1 by (auto split: option.splits)
  then show ?case
    unfolding foldR.simps one bindR_Inr rest okR_simps reset_effect_def using ts'(1) one_shot others by blast
qed


section \<open>Arming the timer descriptor\<close>

text \<open>A \<open>timespec\<close> of so many microseconds.\<close>

definition timespec_of :: "int \<Rightarrow> int \<times> int" where
  "timespec_of us = (us div 1000000, us mod 1000000 * 1000)"

text \<open>The clock is after the epoch and the microsecond part is in range, as documented.\<close>

definition clock_ok :: "'k timerops \<Rightarrow> bool" where
  "clock_ok T \<longleftrightarrow> (\<forall>k. case fst (sys_gettimeofday T k) of (s, us) \<Rightarrow>
     0 \<le> s \<and> s < 2 ^ 40 \<and> 0 \<le> us \<and> us < 1000000)"

definition clock_us :: "'k timerops \<Rightarrow> 'k \<Rightarrow> int" where
  "clock_us T k = (case fst (sys_gettimeofday T k) of (s, us) \<Rightarrow> s * 1000000 + us)"

lemma read_clock_eq:
  assumes "clock_ok T"
  shows "read_clock T w = Inr (Timestamp (clock_us T (kern w)), w\<lparr>kern := snd (sys_gettimeofday T (kern w))\<rparr>)"
    and "0 \<le> clock_us T k \<and> clock_us T k < 2 ^ 61"
proof -
  have range: "0 \<le> s \<and> s < 2 ^ 40 \<and> 0 \<le> us \<and> us < 1000000"
    if "sys_gettimeofday T k = ((s, us), k')" for s us k k'
    using assms that unfolding clock_ok_def by (metis (mono_tags, lifting) case_prod_conv fst_conv)
  obtain s us k' where g: "sys_gettimeofday T (kern w) = ((s, us), k')" by (metis prod.collapse)
  then show "read_clock T w = Inr (Timestamp (clock_us T (kern w)), w\<lparr>kern := snd (sys_gettimeofday T (kern w))\<rparr>)"
    using range[OF g] by (simp add: read_clock_def Timestamp_now_def clock_us_def microSecondsPerSecond_def)
  obtain s us k' where g: "sys_gettimeofday T k = ((s, us), k')" by (metis prod.collapse)
  then show "0 \<le> clock_us T k \<and> clock_us T k < 2 ^ 61"
    using range[OF g] by (simp add: clock_us_def)
qed

lemma howMuchTimeFromNow_eq:
  assumes "clock_ok T" and "0 \<le> t" and "t < 2 ^ 63"
  shows "howMuchTimeFromNow T (Timestamp t) w =
    Inr (timespec_of (max 100 (t - clock_us T (kern w))), w\<lparr>kern := snd (sys_gettimeofday T (kern w))\<rparr>)"
proof -
  let ?d = "t - clock_us T (kern w)"
  have "int64 ?d = Inr ?d" using assms(2,3) read_clock_eq(2)[OF assms(1), of "kern w"] by simp
  moreover have "max 100 ?d sdiv 1000000 = max 100 ?d div 1000000 \<and> max 100 ?d smod 1000000 = max 100 ?d mod 1000000"
    by (rule sdiv_smod_nonneg) simp_all
  moreover have "(if ?d < 100 then 100 else ?d) = max 100 ?d" by (simp add: max_def)
  ultimately show ?thesis
    by (simp add: howMuchTimeFromNow_def read_clock_eq(1)[OF assms(1)] timespec_of_def microSecondsPerSecond_def Let_def)
qed

text \<open>What \<open>resetTimerfd\<close> does to the kernel.\<close>

definition armed :: "'k timerops \<Rightarrow> int \<Rightarrow> int \<Rightarrow> 'k \<Rightarrow> 'k" where
  "armed T fd t k = snd (sys_timerfd_settime T fd (timespec_of (max 100 (t - clock_us T k))) (snd (sys_gettimeofday T k)))"

lemma resetTimerfd_eq:
  assumes "clock_ok T" and "0 \<le> t" and "t < 2 ^ 63"
  shows "resetTimerfd T fd (Timestamp t) w = Inr (w\<lparr>kern := armed T fd t (kern w)\<rparr>)"
  by (simp add: resetTimerfd_def howMuchTimeFromNow_eq[OF assms] armed_def case_prod_beta)

lemma reset_ok:
  assumes Q: "timer_queues w q = Some Q" and ok: "timers_ok (timer_heap w) (tq_timers Q)"
    and es: "list_all (restartable (timer_heap w) now) es" "distinct (map snd es)"
      "snd ` set es \<inter> snd ` set (tq_timers Q) = {}"
      "distinct (map fst (restarts (timer_heap w) now es @ tq_timers Q))"
    and clock: "clock_ok T"
    and times: "\<forall>e \<in> set (restarts (timer_heap w) now es @ tq_timers Q). valid (fst e) \<and> fst e < Timestamp (2 ^ 63)"
  shows "okR (TimerQueue_reset T q es now w) (\<lambda>w'. \<exists>h' ts' w1. reset_effect q now es w Q h' ts' w1 \<and>
    w' = (if ts' = [] then w1
          else w1\<lparr>kern := armed T (tq_timerfd Q) (microSecondsSinceEpoch (Min (fst ` set ts'))) (kern w)\<rparr>))"
proof -
  obtain w1 h' ts' where loop: "foldR (reset_one q now) es w = Inr w1"
    and eff: "reset_effect q now es w Q h' ts' w1"
    using reset_loop_ok[OF Q ok es] unfolding okR_iff_ex by blast
  have w1: "timer_queues w1 q = Some (Q\<lparr>tq_timers := ts'\<rparr>)" "timer_heap w1 = h'" "kern w1 = kern w"
    and ts': "timers_ok h' ts'" "set ts' = set (restarts (timer_heap w) now es) \<union> set (tq_timers Q)"
    using eff by (auto simp: reset_effect_def)
  show ?thesis
  proof (cases ts')
    case Nil
    then show ?thesis
      using loop eff w1 by (auto simp: TimerQueue_reset_def Timestamp_default_def valid_def)
  next
    case (Cons e ts)
    then have e: "entry_ok h' e" "Min (fst ` set ts') = fst e" "e \<in> set ts'"
      using ts'(1) tset.first_is_least[of h' e ts] by (simp_all add: tset.ordered_Cons)
    then obtain a tm where a: "snd e = Some a" "h' a = Some tm" "t_expiration tm = fst e"
      by (auto simp: entry_ok_def)
    obtain t where t: "fst e = Timestamp t" by (cases "fst e") simp
    have "valid (fst e) \<and> fst e < Timestamp (2 ^ 63)" using times e(3) ts'(2) by auto
    then have "valid (fst e)" "0 \<le> t" "t < 2 ^ 63" by (simp_all add: t valid_def)
    then have "TimerQueue_reset T q es now w = Inr (w1\<lparr>kern := armed T (tq_timerfd Q) t (kern w1)\<rparr>)"
      using loop w1 a Cons t clock by (simp add: TimerQueue_reset_def getExpiration_def resetTimerfd_eq)
    then show ?thesis
      using eff e(2) t w1(3) Cons by (auto intro!: exI[of _ h'] exI[of _ "e # ts"] exI[of _ w1])
  qed
qed

section \<open>Paths that fail\<close>

text \<open>\<open>lower_bound\<close> compares with the sentry, whose pointer is not a timer; and the sentry deletes it.\<close>

lemma getExpired_fails:
  assumes "timer_queues w q = Some Q" and "timers_ok (timer_heap w) (tq_timers Q)"
    and "timer_heap w UINTPTR_MAX = None"
  shows "getExpired q now w = Inl NullDeref"
proof (cases "tq_timers Q")
  case Nil
  then show ?thesis using assms by (simp add: getExpired_def delete_timer_def)
next
  case (Cons e ts)
  then have "entry_ok (timer_heap w) e" using assms(2) by (simp add: tset.ordered_Cons)
  then have "entry_less (timer_heap w) e (now, Some UINTPTR_MAX) = Inl NullDeref"
    using assms(3) by (auto simp: entry_ok_def TimerEntryCmp_def)
  then show ?thesis using assms(1) Cons by (simp add: getExpired_def)
qed

lemma assertInLoopThread_eq:
  "loop_tid w l = Some tid \<Longrightarrow> assertInLoopThread tid l w = Inr ()"
  by (auto simp: assertInLoopThread_def isInLoopThread_def loop_tid_def)

lemma handleRead_fails:
  assumes Q: "timer_queues w q = Some Q" "timers_ok (timer_heap w) (tq_timers Q)"
    and sentry: "timer_heap w UINTPTR_MAX = None"
    and tid: "loop_tid w (tq_loop Q) = Some tid" and clock: "clock_ok T"
  shows "TimerQueue_handleRead tid K T call q w = Inl NullDeref"
proof -
  define w1 where "w1 = readTimerfd K (tq_timerfd Q) (w\<lparr>kern := snd (sys_gettimeofday T (kern w))\<rparr>)"
  have "timer_queues w1 q = Some Q" "timer_heap w1 = timer_heap w"
    using Q by (simp_all add: w1_def readTimerfd_def case_prod_beta)
  then have "getExpired q n w1 = Inl NullDeref" for n
    using Q sentry by (intro getExpired_fails) simp_all
  then show ?thesis
    using Q tid by (simp add: TimerQueue_handleRead_def assertInLoopThread_eq read_clock_eq(1)[OF clock]
        flip: w1_def)
qed

lemma addTimerInLoop_eq:
  assumes Q: "timer_queues w q = Some Q" "timers_ok (timer_heap w) (tq_timers Q)"
    and tm: "timer_heap w a = Some tm" and tid: "loop_tid w (tq_loop Q) = Some tid"
  shows "addTimerInLoop tid T q (Some a) w =
    (if t_expiration tm \<in> fst ` set (tq_timers Q) then Inl (AssertFailed ''timer_queue.cpp:146'')
     else if earliest (tq_timers Q) (t_expiration tm) then Inl NullDeref
     else Inr (put_timer_queue q (Q\<lparr>tq_timers := insort_key fst (t_expiration tm, Some a) (tq_timers Q)\<rparr>) w))"
  using Q tid by (simp add: addTimerInLoop_def assertInLoopThread_eq insert_eq[OF Q tm])

text \<open>A loop whose constructor has run has no timer queue; every way to add a timer fails.\<close>

lemma run_without_queue:
  assumes "loop_timer_queue w l = None"
  shows "runAt tid K T run a l time cb w = Inl NullDeref"
    and "\<not> okR (runAfter tid K T run a l d cb w) P"
    and "\<not> okR (runEvery tid K T run a l d cb w) P"
  using assms
  by (auto simp: runAt_def runAfter_def runEvery_def read_clock_def wp okR_iff_ex bindR_eq_Inr_iff)

text \<open>Two repeating timers of the same interval that expire together are restarted to the same time.\<close>

lemma same_interval_collide:
  assumes Q: "timer_queues w q = Some Q" "timers_ok (timer_heap w) (tq_timers Q)"
    and fresh: "Some a \<notin> snd ` set (tq_timers Q)" "Some b \<notin> snd ` set (tq_timers Q)" "a \<noteq> b"
    and tm: "timer_heap w a = Some ta" "timer_heap w b = Some tb" "isRepeat ta" "isRepeat tb"
      "t_interval ta = t_interval tb"
  shows "\<not> okR (foldR (reset_one q now) [(t, Some a), (t', Some b)] w) P"
proof
  assume "okR (foldR (reset_one q now) [(t, Some a), (t', Some b)] w) P"
  then obtain w1 w2 where one: "reset_one q now (t, Some a) w = Inr w1"
    and two: "reset_one q now (t', Some b) w1 = Inr w2"
    by (auto simp: okR_iff_ex bindR_eq_Inr_iff)
  obtain s where s: "addTime now (t_interval ta) = Inr s"
    using one tm by (auto simp: reset_one_def restart_def isRepeat_def bindR_eq_Inr_iff)
  let ?ta = "ta\<lparr>t_expiration := s\<rparr>" and ?tb = "tb\<lparr>t_expiration := s\<rparr>"
  let ?w = "put_timer a ?ta w"
  have ok: "timers_ok (timer_heap ?w) (tq_timers Q)"
    by (rule timers_ok_cong[OF Q(2)]) (use fresh in auto)
  have notin: "s \<notin> fst ` set (tq_timers Q)"
    using one tm s insert_eq[of ?w q Q a ?ta] Q(1) ok
    by (auto simp: reset_one_def restart_def isRepeat_def split: if_splits)
  define Q1 where "Q1 = Q\<lparr>tq_timers := insort_key fst (s, Some a) (tq_timers Q)\<rparr>"
  have w1: "w1 = put_timer_queue q Q1 ?w"
    using one tm s insert_eq[of ?w q Q a ?ta] Q(1) ok notin
    by (simp add: reset_one_def restart_def isRepeat_def Q1_def)
  let ?w2 = "put_timer b ?tb w1"
  have ok1: "timers_ok (timer_heap ?w) (tq_timers Q1)"
    using insert_timers_ok[OF ok, of a ?ta] notin by (simp add: Q1_def)
  have "timers_ok (timer_heap ?w2) (tq_timers Q1)"
    by (rule timers_ok_cong[OF ok1]) (use fresh in \<open>auto simp: w1 Q1_def set_insort_key\<close>)
  then have "TimerQueue_insert q (Some b) ?w2 = Inl (AssertFailed ''timer_queue.cpp:146'')"
    using insert_eq[of ?w2 q Q1 b ?tb] by (simp add: w1 Q1_def set_insort_key)
  then show False
    using two tm s fresh(3) by (simp add: reset_one_def restart_def isRepeat_def w1)
qed

section \<open>A queue to apply the theorems to\<close>

text \<open>The kernel state is the log of \<open>timerfd_settime\<close> calls; the clock stands at 1000.000005.\<close>

definition demo_timerops :: "(int \<times> int \<times> int) list timerops" where
  "demo_timerops = \<lparr>sys_gettimeofday = (\<lambda>k. ((1000, 5), k)), sys_timerfd_create = (\<lambda>k. (9, k)),
     sys_timerfd_settime = (\<lambda>fd v k. (0, k @ [(fd, v)]))\<rparr>"

definition demo_timer_loop :: "unit timer_closure event_loop" where
  "demo_timer_loop = \<lparr>looping = True, quit_flag = False, calling_pending_functors = False, thread_id = 1,
     poll_return_time = 0, loop_poller = Some Poller_ctor, wakeup_fd = Some 4, wakeup_channel = None,
     active_channels = [], mutex_holder = None, pending_functors = []\<rparr>"

text \<open>Timers 10 (every two seconds) and 11 (once) have expired and left the set; 12 is waiting.\<close>

definition demo_timer_heap :: "nat timer_store" where
  "demo_timer_heap = [10 \<mapsto> Timer_ctor (Some 3) (Timestamp 999000000) (Finite 1 1),
     11 \<mapsto> Timer_ctor (Some 4) (Timestamp 999500000) (Finite 0 0),
     12 \<mapsto> Timer_ctor (Some 5) (Timestamp 1009000000) (Finite 0 0)]"

definition demo_timer_world :: "(nat, unit, unit, (int \<times> int \<times> int) list) tworld" where
  "demo_timer_world = \<lparr>channels = Map.empty, loops = [2 \<mapsto> demo_timer_loop], event_loop_in_thread = [1 \<mapsto> 2],
     kern = [], timer_heap = demo_timer_heap,
     timer_queues = [5 \<mapsto> \<lparr>tq_loop = 2, tq_timerfd = 9, tq_channel = 6, tq_timers = [(Timestamp 1009000000, Some 12)]\<rparr>],
     loop_timer_queue = [2 \<mapsto> 5]\<rparr>"

lemma demo_clock: "clock_ok demo_timerops"
  by (simp add: clock_ok_def demo_timerops_def)

lemma demo_timers_ok: "timers_ok (timer_heap demo_timer_world) [(Timestamp 1009000000, Some 12)]"
  by (simp add: timers_ok_iff entry_ok_def demo_timer_world_def demo_timer_heap_def Timer_ctor_def)

lemma demo_queue: "timer_queues demo_timer_world 5 =
    Some \<lparr>tq_loop = 2, tq_timerfd = 9, tq_channel = 6, tq_timers = [(Timestamp 1009000000, Some 12)]\<rparr>"
  by (simp add: demo_timer_world_def)

lemma demo_addTime: "addTime (Timestamp 1000000005) (Finite 1 1) = Inr (Timestamp 1002000005)"
  by code_simp

section \<open>Properties\<close>

text \<open>
  C23: inserting a timer is insertion into a list sorted by expiration. On a well-formed set, with
  every entry filed under its live timer's expiration and the expirations strictly increasing,
  \<open>insert\<close> through \<open>std::set\<close> and \<open>TimerEntryCmp\<close> gives the same set as \<open>insort_key\<close>, reports
  whether the new timer is the earliest, and keeps the set well-formed; a second timer for the same
  microsecond fails the assertion.
\<close>

theorem insert_equals_insort:
  assumes "timer_queues w q = Some Q" and "timers_ok (timer_heap w) (tq_timers Q)"
    and "timer_heap w a = Some tm"
  shows "TimerQueue_insert q (Some a) w =
      (if t_expiration tm \<in> fst ` set (tq_timers Q) then Inl (AssertFailed ''timer_queue.cpp:146'')
       else Inr (\<forall>e \<in> set (tq_timers Q). t_expiration tm < fst e,
         put_timer_queue q (Q\<lparr>tq_timers := insort_key fst (t_expiration tm, Some a) (tq_timers Q)\<rparr>) w)) \<and>
    (t_expiration tm \<notin> fst ` set (tq_timers Q) \<longrightarrow>
      timers_ok (timer_heap w) (insort_key fst (t_expiration tm, Some a) (tq_timers Q)))"
  using insert_eq[OF assms] insert_timers_ok[OF assms(2,3)] by (auto simp: earliest_def)

theorem insert_equals_insort_witness:
  "okR (TimerQueue_insert 5 (Some 11) demo_timer_world) (\<lambda>(earliest, w'). earliest \<and>
     map_option tq_timers (timer_queues w' 5) = Some [(Timestamp 999500000, Some 11), (Timestamp 1009000000, Some 12)])"
proof -
  have "timer_heap demo_timer_world 11 = Some (Timer_ctor (Some 4) (Timestamp 999500000) (Finite 0 0))"
    by (simp add: demo_timer_world_def demo_timer_heap_def)
  from insert_equals_insort[OF demo_queue _ this] demo_timers_ok show ?thesis
    by (simp add: Timer_ctor_def)
qed



text \<open>
  C28: the delay handed to \<open>timerfd_settime\<close> is a proper \<open>timespec\<close> and never zero, which would
  disarm the descriptor: it is the time left until the expiration, at least 100 microseconds.
\<close>

theorem delay_is_proper:
  assumes "clock_ok T" and "0 \<le> microSecondsSinceEpoch due" and "microSecondsSinceEpoch due < 2 ^ 63"
  shows "okR (howMuchTimeFromNow T due w) (\<lambda>((tv_sec, tv_nsec), w').
    0 \<le> tv_sec \<and> 0 \<le> tv_nsec \<and> tv_nsec < 1000000000 \<and> (tv_sec, tv_nsec) \<noteq> (0, 0) \<and>
    tv_sec * 1000000000 + tv_nsec = 1000 * max 100 (microSecondsSinceEpoch due - clock_us T (kern w)))"
proof -
  have *: "0 \<le> us div 1000000 \<and> us mod 1000000 * 1000 < 1000000000 \<and>
      us div 1000000 * 1000000000 + us mod 1000000 * 1000 = 1000 * us" if "100 \<le> us" for us :: int
  proof -
    have "us div 1000000 * 1000000 + us mod 1000000 = us" "us mod 1000000 < 1000000" "0 \<le> us div 1000000"
      using that by (simp_all add: pos_imp_zdiv_nonneg_iff)
    then show ?thesis by linarith
  qed
  show ?thesis
    using assms *[of "max 100 (microSecondsSinceEpoch due - clock_us T (kern w))"]
    by (cases due) (auto simp: howMuchTimeFromNow_eq timespec_of_def)
qed

theorem delay_is_proper_witness:
  "okR (howMuchTimeFromNow demo_timerops (Timestamp 1009000000) demo_timer_world)
     (\<lambda>((tv_sec, tv_nsec), w'). tv_sec * 1000000000 + tv_nsec = 8999995000)"
  using delay_is_proper[OF demo_clock, of "Timestamp 1009000000" demo_timer_world]
  by (auto simp: clock_us_def demo_timerops_def elim: okR_mono)

text \<open>
  C36: the timers of the code cannot fire. \<open>addTimerInLoop\<close> dereferences the \<open>unique_ptr\<close> it has
  just moved from, so adding a timer that becomes the earliest, in particular the first one, fails;
  and when the descriptor becomes readable, \<open>getExpired\<close> compares with, and deletes, a sentry that
  points to no timer, so \<open>handleRead\<close> fails before any callback, whatever the set holds.
\<close>

theorem timers_cannot_fire:
  assumes "timer_queues w q = Some Q" and "timers_ok (timer_heap w) (tq_timers Q)"
    and "timer_heap w UINTPTR_MAX = None" and "loop_tid w (tq_loop Q) = Some tid" and "clock_ok T"
  shows "TimerQueue_handleRead tid K T call q w = Inl NullDeref \<and>
    (\<forall>a tm. timer_heap w a = Some tm \<longrightarrow> (\<forall>e \<in> set (tq_timers Q). t_expiration tm < fst e) \<longrightarrow>
       addTimerInLoop tid T q (Some a) w = Inl NullDeref)"
  using handleRead_fails[OF assms] addTimerInLoop_eq[OF assms(1,2) _ assms(4)]
  by (fastforce simp: earliest_def)

theorem timers_cannot_fire_witness:
  "\<forall>K call. TimerQueue_handleRead 1 K demo_timerops call 5 demo_timer_world = Inl NullDeref"
  using timers_cannot_fire[OF demo_queue _ _ _ demo_clock, of 1] demo_timers_ok
  by (simp add: demo_timer_world_def demo_timer_heap_def UINTPTR_MAX_def loop_tid_def demo_timer_loop_def)

end
