(* ===== verification/PoolThreads.thy ===== *)
theory PoolThreads
  imports LoopThread ThreadPool
begin

text \<open>
  \<open>EventLoopThreadPool::start\<close> (\<open>src/src/event_loop_thread_pool.cpp\<close>) over the steps of the threads it
  starts. \<open>ThreadPool\<close> describes \<open>startLoop\<close> by its effect; here the handshake of \<open>LoopThread\<close> runs
  together with the reactor state, the new thread constructing its \<open>EventLoop\<close> in one of its steps,
  and the effect is shown to be what every interleaving yields.
\<close>

section \<open>The handshake and the reactor state\<close>

text \<open>
  What a step does to the reactor state: \<open>pthread_create\<close> takes the new thread's id from the kernel,
  and the new thread constructs the loop at address \<open>l\<close>. Nobody calls \<open>quit\<close> during
  \<open>EventLoopThreadPool::start\<close>, so \<open>loop()\<close> does not return.
\<close>

definition create_effect :: "'k netops \<Rightarrow> handshake \<Rightarrow> ('cb, 'f, 'k, 'z) reactor_scheme \<Rightarrow>
    ('cb, 'f, 'k, 'z) reactor_scheme" where
  "create_effect N s w = (if hs_starter s = SCalled then w\<lparr>kern := snd (sys_clone N (kern w))\<rparr> else w)"

definition construct_effect :: "int \<Rightarrow> bool \<Rightarrow> nat \<Rightarrow> handshake \<Rightarrow> ('cb, 'f, 'k, 'z) reactor_scheme \<Rightarrow>
    ('cb, 'f, 'k, 'z) reactor_scheme" where
  "construct_effect gettid uninit l s w = (if hs_worker s = WConstruct then EventLoop_ctor gettid l uninit w else w)"

inductive startLoop_run :: "'k netops \<Rightarrow> bool \<Rightarrow> nat \<Rightarrow> ('cb, 'f, 'k, 'z) reactor_scheme \<Rightarrow> nat \<Rightarrow> nat \<Rightarrow>
    handshake \<Rightarrow> ('cb, 'f, 'k, 'z) reactor_scheme \<Rightarrow> bool"
  for N :: "'k netops" and uninit :: bool and l :: nat and w0 :: "('cb, 'f, 'k, 'z) reactor_scheme" where
  init: "startLoop_run N uninit l w0 0 0 hs_init w0"
| starter: "startLoop_run N uninit l w0 n k s w \<Longrightarrow> startLoop_step 0 s s' \<Longrightarrow>
    startLoop_run N uninit l w0 (Suc n) k s' (create_effect N s w)"
| worker: "startLoop_run N uninit l w0 n k s w \<Longrightarrow> startThread_step (fst (sys_clone N (kern w0))) l s s' \<Longrightarrow>
    hs_worker s' \<noteq> WDone \<Longrightarrow>
    startLoop_run N uninit l w0 (Suc n) k s' (construct_effect (fst (sys_clone N (kern w0))) uninit l s w)"
| spurious: "startLoop_run N uninit l w0 n k s w \<Longrightarrow> spurious_step s s' \<Longrightarrow>
    startLoop_run N uninit l w0 n (Suc k) s' w"

text \<open>The loop of \<open>start\<close>: one \<open>EventLoopThread\<close> after the other, each handshake to its return.\<close>

inductive start_threads_run :: "'k netops \<Rightarrow> bool \<Rightarrow> nat \<Rightarrow> nat \<Rightarrow> ('cb, 'f, 'k, 'z) reactor_scheme \<Rightarrow>
    nat \<Rightarrow> nat \<Rightarrow> nat option list \<Rightarrow> ('cb, 'f, 'k, 'z) reactor_scheme \<Rightarrow> bool"
  for N :: "'k netops" and uninit :: bool where
  all: "start_threads_run N uninit 0 a w 0 0 [] w"
| thread: "startLoop_run N uninit a w n k s w1 \<Longrightarrow> hs_starter s = SReturned r \<Longrightarrow>
    start_threads_run N uninit i (Suc a) w1 n' k' rs w' \<Longrightarrow>
    start_threads_run N uninit (Suc i) a w (n + n') (k + k') (r # rs) w'"


section \<open>Refinement\<close>

lemma startLoop_run_handshake:
  "startLoop_run N uninit l w0 n k s w \<Longrightarrow> handshake_run (fst (sys_clone N (kern w0))) l 0 n k s"
  by (induction rule: startLoop_run.induct) (auto intro: handshake_run.intros)

text \<open>The reactor state is a function of where the new thread stands.\<close>

definition world_at :: "'k netops \<Rightarrow> bool \<Rightarrow> nat \<Rightarrow> ('cb, 'f, 'k, 'z) reactor_scheme \<Rightarrow> worker_pc \<Rightarrow>
    ('cb, 'f, 'k, 'z) reactor_scheme" where
  "world_at N uninit l w0 p =
     (if p = WNone then w0
      else if p \<in> {WRun, WCountLock, WCountDown, WConstruct} then w0\<lparr>kern := snd (sys_clone N (kern w0))\<rparr>
      else startLoop N uninit l w0)"

lemma starter_keeps_worker:
  "startLoop_step 0 s s' \<Longrightarrow> thread_inv gettid s \<Longrightarrow>
     (if hs_starter s = SCalled then hs_worker s = WNone \<and> hs_worker s' = WRun else hs_worker s' = hs_worker s)"
  by (induction rule: startLoop_step.induct) (auto simp: hs_defs thread_inv_def)

lemma worker_order:
  "startThread_step gettid l s s' \<Longrightarrow>
     (hs_worker s, hs_worker s') \<in> {(WRun, WCountLock), (WCountLock, WCountDown), (WCountDown, WConstruct),
       (WConstruct, WLoopLock), (WLoopLock, WPublish), (WPublish, WLooping), (WLooping, WDone)}"
  by (induction rule: startThread_step.induct) (simp_all add: hs_defs)

lemma spurious_keeps_worker: "spurious_step s s' \<Longrightarrow> hs_worker s' = hs_worker s \<and> hs_starter s' = hs_starter s"
  by (induction rule: spurious_step.induct) (simp_all add: hs_defs)

lemma startLoop_run_world:
  assumes "startLoop_run N uninit l w0 n k s w" and "0 < fst (sys_clone N (kern w0))"
  shows "w = world_at N uninit l w0 (hs_worker s) \<and> hs_worker s \<noteq> WDone"
  using assms(1)
proof (induction rule: startLoop_run.induct)
  case init
  show ?case by (simp add: world_at_def hs_init_def)
next
  case (starter n k s w s')
  have "thread_inv (fst (sys_clone N (kern w0))) s"
    using run_inv[OF startLoop_run_handshake[OF starter.hyps(1)] assms(2)] by (simp add: handshake_inv_def)
  from starter_keeps_worker[OF starter.hyps(2) this] show ?case
    using starter.IH by (auto simp: world_at_def create_effect_def split: if_splits)
next
  case (worker n k s w s')
  then show ?case
    using worker_order[OF worker.hyps(2)]
    by (auto simp: world_at_def construct_effect_def startLoop_def case_prod_beta)
next
  case (spurious n k s w s')
  then show ?case using spurious_keeps_worker by metis
qed

lemma returned_effect:
  assumes "startLoop_run N uninit l w0 n k s w" and "0 < fst (sys_clone N (kern w0))" and "hs_starter s = SReturned r"
  shows "r = Some l" and "w = startLoop N uninit l w0" and "n \<le> 25 + 2 * k"
proof -
  note run = startLoop_run_handshake[OF assms(1)]
  have "loop_inv l s" using run_inv[OF run assms(2)] by (simp add: handshake_inv_def)
  then have r: "r = Some l" "\<not> before_publish (hs_worker s)" using assms(3) by (auto simp: loop_inv_def)
  show "r = Some l" by (rule r(1))
  show "w = startLoop N uninit l w0"
    using startLoop_run_world[OF assms(1,2)] r(2) by (auto simp: world_at_def before_publish_def)
  show "n \<le> 25 + 2 * k" using run_bound[OF run assms(2)] by simp
qed

text \<open>Every handshake can be completed, whatever has happened so far.\<close>

lemma startLoop_run_extends:
  assumes "startLoop_run N uninit l w0 n k s w" and "0 < fst (sys_clone N (kern w0))"
  shows "\<exists>n' s' w' r. startLoop_run N uninit l w0 n' k s' w' \<and> hs_starter s' = SReturned r"
  using assms(1)
proof (induction "handshake_rank s" arbitrary: n s w rule: less_induct)
  case less
  note run = startLoop_run_handshake[OF less.prems]
  note inv = run_inv[OF run assms(2)]
  show ?case
  proof (cases "\<exists>r. hs_starter s = SReturned r")
    case True
    then show ?thesis using less.prems by blast
  next
    case False
    then obtain s' where "startLoop_step 0 s s' \<or> startThread_step (fst (sys_clone N (kern w0))) l s s'"
      using handshake_moves[OF inv] by (auto simp: can_move_def)
    then show ?thesis
    proof
      assume step: "startLoop_step 0 s s'"
      from starter_rank_falls[OF step inv] startLoop_run.starter[OF less.prems step]
      show ?thesis by (rule less.hyps)
    next
      assume step: "startThread_step (fst (sys_clone N (kern w0))) l s s'"
      have "hs_worker s' \<noteq> WDone" using step False by (cases rule: startThread_step.cases) (auto simp: hs_defs)
      from worker_rank_falls[OF step inv] startLoop_run.worker[OF less.prems step this]
      show ?thesis by (rule less.hyps)
    qed
  qed
qed

text \<open>The kernel gives every new thread a positive id.\<close>

definition clone_ok :: "'k netops \<Rightarrow> bool" where
  "clone_ok N \<longleftrightarrow> (\<forall>k. 0 < fst (sys_clone N k))"

lemma start_threads_run_exists:
  assumes "clone_ok N"
  shows "\<exists>n rs w'. start_threads_run N uninit i a w n 0 rs w'"
proof (induction i arbitrary: a w)
  case 0
  show ?case using start_threads_run.all by blast
next
  case (Suc i)
  obtain n s w1 r where 1: "startLoop_run N uninit a w n 0 s w1" "hs_starter s = SReturned r"
    using startLoop_run_extends[OF startLoop_run.init] assms unfolding clone_ok_def by blast
  obtain n' rs w' where "start_threads_run N uninit i (Suc a) w1 n' 0 rs w'" using Suc by blast
  from start_threads_run.thread[OF 1 this] show ?case by auto
qed

lemma start_threads_run_effect:
  assumes "start_threads_run N uninit i a w n k rs w'" and "clone_ok N"
  shows "rs = map Some (fst (start_threads i N uninit a w)) \<and> w' = snd (start_threads i N uninit a w) \<and>
    n \<le> 25 * i + 2 * k"
  using assms(1)
proof (induction rule: start_threads_run.induct)
  case (all a w)
  show ?case by simp
next
  case (thread a w n k s w1 r i n' k' rs w')
  have "0 < fst (sys_clone N (kern w))" using assms(2) by (simp add: clone_ok_def)
  from returned_effect[OF thread.hyps(1) this thread.hyps(2)] show ?case
    using thread.IH by (simp add: case_prod_beta Let_def)
qed

lemma start_threads_addresses: "fst (start_threads i N uninit a w) = [a..<a + i]"
proof (induction i arbitrary: a w)
  case (Suc i)
  then show ?case by (simp add: case_prod_beta Let_def upt_conv_Cons del: upt_Suc)
qed simp

lemma startLoop_loops:
  "\<exists>L. loops (startLoop N uninit l w) = (loops w)(l \<mapsto> L) \<and> thread_id L = fst (sys_clone N (kern w)) \<and>
     pending_functors L = []"
  by (simp add: startLoop_def EventLoop_ctor_def put_loop_def Let_def case_prod_beta)
    (intro conjI impI exI[where x = "\<lparr>looping = False, quit_flag = True, calling_pending_functors = uninit,
      thread_id = fst (sys_clone N (kern w)), poll_return_time = 0, loop_poller = None, wakeup_fd = None,
      wakeup_channel = None, active_channels = [], mutex_holder = None, pending_functors = []\<rparr>"]; simp)

text \<open>Every published loop exists and belongs to a thread the kernel has created.\<close>

lemma start_threads_Suc:
  "snd (start_threads (Suc i) N uninit a w) = snd (start_threads i N uninit (Suc a) (startLoop N uninit a w))"
  by (simp add: case_prod_beta Let_def)

lemma start_threads_below: "l < a \<Longrightarrow> loops (snd (start_threads i N uninit a w)) l = loops w l"
proof (induction i arbitrary: a w)
  case (Suc i)
  obtain L where "loops (startLoop N uninit a w) = (loops w)(a \<mapsto> L)" using startLoop_loops by blast
  then show ?case using Suc by (simp add: start_threads_Suc del: start_threads.simps)
qed simp

lemma start_threads_loops:
  "a \<le> l \<Longrightarrow> l < a + i \<Longrightarrow> \<exists>L. loops (snd (start_threads i N uninit a w)) l = Some L \<and>
     thread_id L \<in> range (\<lambda>k. fst (sys_clone N k)) \<and> pending_functors L = []"
proof (induction i arbitrary: a w)
  case (Suc i)
  obtain L where L: "loops (startLoop N uninit a w) = (loops w)(a \<mapsto> L)" "thread_id L = fst (sys_clone N (kern w))"
    "pending_functors L = []"
    using startLoop_loops by blast
  show ?case
    unfolding start_threads_Suc
    using L Suc.prems by (cases "l = a") (simp_all add: start_threads_below Suc.IH)
qed simp


section \<open>Properties\<close>



end
