(* ===== verification/Latch.thy ===== *)
theory Latch
  imports Threads
begin

text \<open>
  \<open>CountDownLatch\<close> (\<open>src/src/include/countdown_latch.h\<close>, \<open>src/src/count_down_latch.cpp\<close>) shared by any
  finite number of threads: each thread calls \<open>wait\<close> or \<open>countDown\<close> once. A step of a thread runs up to
  the next lock or wait; \<open>while (count_ > 0) cv_.wait(lock)\<close> is the cycle \<open>Testing\<close>, \<open>Asleep\<close>,
  \<open>Testing\<close>. The theory shows that \<open>wait\<close> returns only after \<open>count\<close> calls of \<open>countDown\<close>, that no
  wake-up is lost, and a bound on the number of steps.
\<close>

section \<open>Threads at a latch\<close>

datatype latch_pc =
    AtWait | Testing | Asleep | Passed
  | AtCountDown | Counting | Counted

record 't latch_sys =
  ls_latch :: "'t latch"
  ls_pc :: "'t \<rightharpoonup> latch_pc"

abbreviation ls_mon :: "'t latch_sys \<Rightarrow> 't monitor" where
  "ls_mon s \<equiv> latch_mon (ls_latch s)"

definition go :: "'t \<Rightarrow> latch_pc \<Rightarrow> 't monitor \<Rightarrow> 't latch_sys \<Rightarrow> 't latch_sys" where
  "go t p m s = s\<lparr>ls_latch := (ls_latch s)\<lparr>latch_mon := m\<rparr>, ls_pc := (ls_pc s)(t \<mapsto> p)\<rparr>"

text \<open>\<open>wait()\<close>.\<close>

inductive latch_wait_step :: "'t \<Rightarrow> 't latch_sys \<Rightarrow> 't latch_sys \<Rightarrow> bool" for t :: 't where
  lock: "ls_pc s t = Some AtWait \<Longrightarrow> mon_holder (ls_mon s) = None \<Longrightarrow>
    latch_wait_step t s (go t Testing (mon_lock t (ls_mon s)) s)"
| sleep: "ls_pc s t = Some Testing \<Longrightarrow> latch_must_wait (ls_latch s) \<Longrightarrow>
    latch_wait_step t s (go t Asleep (mon_wait t (ls_mon s)) s)"
| wake: "ls_pc s t = Some Asleep \<Longrightarrow> t \<notin> set (mon_waiters (ls_mon s)) \<Longrightarrow> mon_holder (ls_mon s) = None \<Longrightarrow>
    latch_wait_step t s (go t Testing (mon_lock t (ls_mon s)) s)"
| pass: "ls_pc s t = Some Testing \<Longrightarrow> \<not> latch_must_wait (ls_latch s) \<Longrightarrow>
    latch_wait_step t s (go t Passed (mon_unlock (ls_mon s)) s)"

text \<open>\<open>countDown()\<close>: its body runs with the mutex held.\<close>

inductive latch_count_step :: "'t \<Rightarrow> 't latch_sys \<Rightarrow> 't latch_sys \<Rightarrow> bool" for t :: 't where
  lock: "ls_pc s t = Some AtCountDown \<Longrightarrow> mon_holder (ls_mon s) = None \<Longrightarrow>
    latch_count_step t s (go t Counting (mon_lock t (ls_mon s)) s)"
| count: "ls_pc s t = Some Counting \<Longrightarrow>
    latch_count_step t s (s\<lparr>ls_latch := countDown (ls_latch s), ls_pc := (ls_pc s)(t \<mapsto> Counted)\<rparr>)"

definition latch_step :: "'t \<Rightarrow> 't latch_sys \<Rightarrow> 't latch_sys \<Rightarrow> bool" where
  "latch_step t s s' \<longleftrightarrow> latch_wait_step t s s' \<or> latch_count_step t s s'"

definition latch_spurious :: "'t \<Rightarrow> 't latch_sys \<Rightarrow> 't latch_sys" where
  "latch_spurious t s = s\<lparr>ls_latch := (ls_latch s)\<lparr>latch_mon := mon_spurious t (ls_mon s)\<rparr>\<rparr>"

definition latch_start :: "int \<Rightarrow> 't set \<Rightarrow> 't set \<Rightarrow> 't latch_sys" where
  "latch_start n W D = \<lparr>ls_latch = CountDownLatch_ctor n,
     ls_pc = (\<lambda>t. if t \<in> W then Some AtWait else if t \<in> D then Some AtCountDown else None)\<rparr>"

text \<open>\<open>latch_run n W D m k s\<close>: the threads \<open>W\<close> wait, the threads \<open>D\<close> count down; \<open>s\<close> is reached by \<open>m\<close>
  steps and \<open>k\<close> spurious wake-ups.\<close>

inductive latch_run :: "int \<Rightarrow> 't set \<Rightarrow> 't set \<Rightarrow> nat \<Rightarrow> nat \<Rightarrow> 't latch_sys \<Rightarrow> bool"
  for n :: int and W :: "'t set" and D :: "'t set" where
  start: "latch_run n W D 0 0 (latch_start n W D)"
| step: "latch_run n W D m k s \<Longrightarrow> latch_step t s s' \<Longrightarrow> latch_run n W D (Suc m) k s'"
| spurious: "latch_run n W D m k s \<Longrightarrow> t \<in> set (mon_waiters (ls_mon s)) \<Longrightarrow>
    latch_run n W D m (Suc k) (latch_spurious t s)"

lemma latch_step_cases [consumes 1, case_names wait_lock sleep wake pass count_lock count]:
  assumes "latch_step t s s'"
  obtains "ls_pc s t = Some AtWait" "mon_holder (ls_mon s) = None" "s' = go t Testing (mon_lock t (ls_mon s)) s"
  | "ls_pc s t = Some Testing" "latch_count (ls_latch s) > 0" "s' = go t Asleep (mon_wait t (ls_mon s)) s"
  | "ls_pc s t = Some Asleep" "t \<notin> set (mon_waiters (ls_mon s))" "mon_holder (ls_mon s) = None"
    "s' = go t Testing (mon_lock t (ls_mon s)) s"
  | "ls_pc s t = Some Testing" "\<not> latch_count (ls_latch s) > 0" "s' = go t Passed (mon_unlock (ls_mon s)) s"
  | "ls_pc s t = Some AtCountDown" "mon_holder (ls_mon s) = None" "s' = go t Counting (mon_lock t (ls_mon s)) s"
  | "ls_pc s t = Some Counting" "s' = s\<lparr>ls_latch := countDown (ls_latch s), ls_pc := (ls_pc s)(t \<mapsto> Counted)\<rparr>"
  using assms
  by (auto simp: latch_step_def latch_must_wait_def elim!: latch_wait_step.cases latch_count_step.cases)

lemma countDown_fields [simp]:
  "latch_count (countDown c) = latch_count c - 1"
  "mon_holder (latch_mon (countDown c)) = None"
  "mon_waiters (latch_mon (countDown c)) = (if latch_count c = 1 then [] else mon_waiters (latch_mon c))"
  by (simp_all add: countDown_def mon_unlock_def mon_notify_all_def Let_def)

lemmas latch_defs = go_def mon_lock_def mon_unlock_def mon_wait_def


section \<open>The invariant\<close>

definition waits :: "latch_pc \<Rightarrow> bool" where
  "waits p \<longleftrightarrow> p \<in> {AtWait, Testing, Asleep, Passed}"

definition counted :: "'t latch_sys \<Rightarrow> 't set" where
  "counted s = {t. ls_pc s t = Some Counted}"

text \<open>Who waits and who counts never changes.\<close>

definition role_of :: "'t set \<Rightarrow> 't set \<Rightarrow> 't \<Rightarrow> bool option" where
  "role_of W D t = (if t \<in> W then Some True else if t \<in> D then Some False else None)"

definition roles_ok :: "'t set \<Rightarrow> 't set \<Rightarrow> 't latch_sys \<Rightarrow> bool" where
  "roles_ok W D s \<longleftrightarrow> (\<forall>t. map_option waits (ls_pc s t) = role_of W D t)"

text \<open>Mutual exclusion: the holder of the mutex is the one thread inside a critical section.\<close>

definition holder_ok :: "'t latch_sys \<Rightarrow> bool" where
  "holder_ok s \<longleftrightarrow> (\<forall>t. ls_pc s t \<in> {Some Testing, Some Counting} \<longleftrightarrow> mon_holder (ls_mon s) = Some t)"

text \<open>No sleeper is left behind: whoever still waits for a notification sleeps before a closed latch.\<close>

definition sleepers_ok :: "'t latch_sys \<Rightarrow> bool" where
  "sleepers_ok s \<longleftrightarrow> (\<forall>t \<in> set (mon_waiters (ls_mon s)). ls_pc s t = Some Asleep) \<and>
     (latch_count (ls_latch s) \<le> 0 \<longrightarrow> mon_waiters (ls_mon s) = []) \<and>
     (\<forall>t. ls_pc s t = Some Passed \<longrightarrow> latch_count (ls_latch s) \<le> 0)"

definition count_ok :: "int \<Rightarrow> 't latch_sys \<Rightarrow> bool" where
  "count_ok n s \<longleftrightarrow> latch_count (ls_latch s) = n - int (card (counted s))"

definition latch_sys_inv :: "int \<Rightarrow> 't set \<Rightarrow> 't set \<Rightarrow> 't latch_sys \<Rightarrow> bool" where
  "latch_sys_inv n W D s \<longleftrightarrow> roles_ok W D s \<and> holder_ok s \<and> sleepers_ok s \<and> count_ok n s"

lemma start_latch_inv: "latch_sys_inv n W D (latch_start n W D)"
proof -
  have "counted (latch_start n W D) = {}" by (auto simp: counted_def latch_start_def)
  then show ?thesis
    by (simp add: latch_sys_inv_def roles_ok_def holder_ok_def sleepers_ok_def count_ok_def latch_start_def
        CountDownLatch_ctor_def monitor_init_def waits_def role_of_def)
qed

lemma roles_move:
  assumes "roles_ok W D s" and "ls_pc s t = Some p" and "waits q = waits p" and "ls_pc s' = (ls_pc s)(t \<mapsto> q)"
  shows "roles_ok W D s'"
  unfolding roles_ok_def
proof
  fix u
  show "map_option waits (ls_pc s' u) = role_of W D u"
    using assms spec[OF assms(1)[unfolded roles_ok_def], of u] by (cases "u = t") simp_all
qed

lemma step_pc:
  assumes "latch_step t s s'"
  shows "\<exists>p q. ls_pc s t = Some p \<and> ls_pc s' = (ls_pc s)(t \<mapsto> q) \<and> waits q = waits p"
  using assms by (cases rule: latch_step_cases) ((simp add: go_def waits_def, blast)+)

lemma step_roles: "latch_step t s s' \<Longrightarrow> roles_ok W D s \<Longrightarrow> roles_ok W D s'"
  using step_pc roles_move by metis

lemma holder_enter:
  assumes "holder_ok s" and "mon_holder (ls_mon s) = None" and "p = Testing \<or> p = Counting"
  shows "holder_ok (go t p (mon_lock t (ls_mon s)) s)"
proof -
  have "ls_pc s u \<notin> {Some Testing, Some Counting}" for u using assms(1,2) by (simp add: holder_ok_def)
  then show ?thesis using assms(3) by (auto simp: holder_ok_def go_def mon_lock_def)
qed

lemma holder_leave:
  assumes "holder_ok s" and "ls_pc s t \<in> {Some Testing, Some Counting}" and "p \<noteq> Testing" and "p \<noteq> Counting"
    and "mon_holder (ls_mon s') = None" and "ls_pc s' = (ls_pc s)(t \<mapsto> p)"
  shows "holder_ok s'"
proof -
  have "mon_holder (ls_mon s) = Some t" using assms(1,2) by (simp add: holder_ok_def)
  then have "u = t" if "ls_pc s u \<in> {Some Testing, Some Counting}" for u
    using assms(1) that by (simp add: holder_ok_def)
  then show ?thesis using assms(3-6) by (auto simp: holder_ok_def)
qed

lemma step_holder: "latch_step t s s' \<Longrightarrow> holder_ok s \<Longrightarrow> holder_ok s'"
  by (cases rule: latch_step_cases)
    (auto simp: mon_unlock_def mon_wait_def go_def intro: holder_leave
      intro!: holder_enter[unfolded go_def])

lemma step_sleepers:
  assumes "latch_step t s s'" and "sleepers_ok s"
  shows "sleepers_ok s'"
  using assms(1)
proof (cases rule: latch_step_cases)
  case sleep
  then show ?thesis using assms(2) by (auto simp: sleepers_ok_def latch_defs)
next
  case count
  then show ?thesis using assms(2) by (auto simp: sleepers_ok_def)
qed (use assms(2) in \<open>force simp: sleepers_ok_def latch_defs\<close>)+

lemma roles_okD: "roles_ok W D s \<Longrightarrow> role_of W D t = map_option waits (ls_pc s t)"
  by (simp add: roles_ok_def)

lemma counted_subset: "roles_ok W D s \<Longrightarrow> counted s \<subseteq> D"
proof
  fix t assume "roles_ok W D s" and "t \<in> counted s"
  then have "role_of W D t = Some False" using roles_okD[of W D s t] by (simp add: counted_def waits_def)
  then show "t \<in> D" by (simp add: role_of_def split: if_splits)
qed

lemma counted_finite: "roles_ok W D s \<Longrightarrow> finite D \<Longrightarrow> finite (counted s)"
  by (rule finite_subset[OF counted_subset])

lemma count_ok_go:
  assumes "ls_pc s t \<noteq> Some Counted" and "p \<noteq> Counted"
  shows "count_ok n (go t p m s) \<longleftrightarrow> count_ok n s"
proof -
  have "counted (go t p m s) = counted s" using assms by (auto simp: counted_def go_def)
  then show ?thesis by (simp add: count_ok_def go_def)
qed

lemma step_count:
  assumes "latch_step t s s'" and "count_ok n s" and "finite (counted s)"
  shows "count_ok n s'"
  using assms(1)
proof (cases rule: latch_step_cases)
  case count
  have "counted s' = insert t (counted s)" "t \<notin> counted s"
    using count by (auto simp: counted_def)
  then show ?thesis using count assms(2,3) by (simp add: count_ok_def)
next
  case wait_lock
  then show ?thesis using assms(2) by (simp add: count_ok_go)
next
  case sleep
  then show ?thesis using assms(2) by (simp add: count_ok_go)
next
  case wake
  then show ?thesis using assms(2) by (simp add: count_ok_go)
next
  case pass
  then show ?thesis using assms(2) by (simp add: count_ok_go)
next
  case count_lock
  then show ?thesis using assms(2) by (simp add: count_ok_go)
qed

lemma latch_spurious_fields [simp]:
  "ls_pc (latch_spurious t s) = ls_pc s"
  "latch_count (ls_latch (latch_spurious t s)) = latch_count (ls_latch s)"
  "mon_holder (ls_mon (latch_spurious t s)) = mon_holder (ls_mon s)"
  "mon_waiters (ls_mon (latch_spurious t s)) = removeAll t (mon_waiters (ls_mon s))"
  by (simp_all add: latch_spurious_def mon_spurious_def)

lemma spurious_latch_sys_inv:
  assumes "latch_sys_inv n W D s"
  shows "latch_sys_inv n W D (latch_spurious t s)"
proof -
  have "roles_ok W D (latch_spurious t s) = roles_ok W D s" by (simp add: roles_ok_def)
  moreover have "holder_ok (latch_spurious t s) = holder_ok s" by (simp add: holder_ok_def)
  moreover have "count_ok n (latch_spurious t s) = count_ok n s" by (simp add: count_ok_def counted_def)
  moreover have "sleepers_ok s \<Longrightarrow> sleepers_ok (latch_spurious t s)" by (auto simp: sleepers_ok_def)
  ultimately show ?thesis using assms by (simp add: latch_sys_inv_def)
qed

lemma latch_run_inv:
  assumes "latch_run n W D m k s" and "finite D"
  shows "latch_sys_inv n W D s"
  using assms(1)
proof (induction rule: latch_run.induct)
  case start
  show ?case by (rule start_latch_inv)
next
  case (step m k s t s')
  then show ?case
    using counted_finite[OF _ assms(2), of W s] step_roles[OF step.hyps(2), of W D] step_holder[OF step.hyps(2)]
      step_sleepers[OF step.hyps(2)] step_count[OF step.hyps(2), of n]
    by (simp add: latch_sys_inv_def)
next
  case (spurious m k s t)
  then show ?case by (intro spurious_latch_sys_inv)
qed


section \<open>Progress\<close>

definition finished :: "latch_pc \<Rightarrow> bool" where
  "finished p \<longleftrightarrow> p = Passed \<or> p = Counted"

text \<open>While the mutex is free, every thread that neither has finished nor waits for a notification can move.\<close>

lemma free_thread_moves:
  assumes "mon_holder (ls_mon s) = None" and "holder_ok s" and "ls_pc s t = Some p" and "\<not> finished p"
    and "t \<notin> set (mon_waiters (ls_mon s))"
  shows "\<exists>s'. latch_step t s s'"
proof (cases p)
  case AtWait
  then show ?thesis using latch_wait_step.lock[of s t] assms(1,3) by (auto simp: latch_step_def)
next
  case Asleep
  then show ?thesis using latch_wait_step.wake[of s t] assms(1,3,5) by (auto simp: latch_step_def)
next
  case AtCountDown
  then show ?thesis using latch_count_step.lock[of s t] assms(1,3) by (auto simp: latch_step_def)
next
  case Testing
  then show ?thesis using assms(1-3) by (auto simp: holder_ok_def)
next
  case Counting
  then show ?thesis using assms(1-3) by (auto simp: holder_ok_def)
qed (use assms(4) in \<open>simp_all add: finished_def\<close>)

text \<open>The holder of the mutex can always move.\<close>

lemma holder_moves:
  assumes "mon_holder (ls_mon s) = Some t" and "holder_ok s"
  shows "\<exists>s'. latch_step t s s'"
proof -
  consider "ls_pc s t = Some Testing" | "ls_pc s t = Some Counting" using assms by (auto simp: holder_ok_def)
  then show ?thesis
    using latch_wait_step.sleep[of s t] latch_wait_step.pass[of s t] latch_count_step.count[of s t]
    by cases (auto simp: latch_step_def)
qed

text \<open>If enough threads count down, a sleeper that waits for a notification is not alone.\<close>

lemma counter_left:
  assumes inv: "latch_sys_inv n W D s" and "finite D" and "W \<inter> D = {}" and "n \<le> int (card D)"
    and "latch_count (ls_latch s) > 0"
  shows "\<exists>t p. ls_pc s t = Some p \<and> \<not> finished p \<and> t \<in> D"
proof -
  have roles: "roles_ok W D s" and "card (counted s) < card D"
    using inv assms(4,5) by (auto simp: latch_sys_inv_def count_ok_def)
  then have "counted s \<noteq> D" by auto
  then obtain t where t: "t \<in> D" "t \<notin> counted s" using counted_subset[OF roles] by blast
  have "map_option waits (ls_pc s t) = Some False"
    using roles t(1) assms(3) by (auto simp: roles_ok_def role_of_def)
  then show ?thesis using t by (auto simp: counted_def finished_def waits_def)
qed

lemma latch_progress:
  assumes inv: "latch_sys_inv n W D s" and "finite D" and "W \<inter> D = {}" and "n \<le> int (card D)"
    and t: "ls_pc s t = Some p" "\<not> finished p"
  shows "\<exists>u s'. latch_step u s s'"
proof (cases "mon_holder (ls_mon s)")
  case (Some u)
  then show ?thesis using holder_moves[OF Some] inv by (auto simp: latch_sys_inv_def)
next
  case None
  have ok: "holder_ok s" "sleepers_ok s" "roles_ok W D s" using inv by (auto simp: latch_sys_inv_def)
  obtain u q where u: "ls_pc s u = Some q" "\<not> finished q" "u \<notin> set (mon_waiters (ls_mon s))"
  proof (cases "latch_count (ls_latch s) > 0")
    case True
    then obtain u q where u: "ls_pc s u = Some q" "\<not> finished q" "u \<in> D"
      using counter_left[OF inv assms(2,3,4)] by blast
    have "map_option waits (ls_pc s u) = Some False"
      using ok(3) u(3) assms(3) by (auto simp: roles_ok_def role_of_def)
    then have "u \<notin> set (mon_waiters (ls_mon s))" using ok(2) by (auto simp: sleepers_ok_def waits_def)
    then show ?thesis using that u by blast
  next
    case False
    then show ?thesis using that[OF t] ok(2) by (simp add: sleepers_ok_def)
  qed
  then show ?thesis using free_thread_moves[OF None ok(1)] by blast
qed


section \<open>The number of steps\<close>

text \<open>What a thread still has to do; a sleeper woken spuriously may have to test and sleep once more.\<close>

definition latch_rank :: "'t latch_sys \<Rightarrow> 't \<Rightarrow> nat" where
  "latch_rank s t = (case ls_pc s t of
       Some AtWait \<Rightarrow> 4
     | Some Testing \<Rightarrow> (if latch_count (ls_latch s) > 0 then 3 else 1)
     | Some Asleep \<Rightarrow> (if latch_count (ls_latch s) > 0 \<and> t \<notin> set (mon_waiters (ls_mon s)) then 4 else 2)
     | Some AtCountDown \<Rightarrow> 2
     | Some Counting \<Rightarrow> 1
     | _ \<Rightarrow> 0)"

lemma step_rank:
  assumes "latch_step t s s'" and "sleepers_ok s"
  shows "latch_rank s' u \<le> latch_rank s u" and "latch_rank s' t < latch_rank s t"
  using assms(1)
  by (cases rule: latch_step_cases;
      use assms(2) in \<open>auto simp: latch_rank_def latch_defs sleepers_ok_def split: option.splits latch_pc.splits\<close>)+

lemma latch_spurious_rank: "latch_rank (latch_spurious t s) u \<le> latch_rank s u + (if u = t then 2 else 0)"
  by (simp add: latch_rank_def split: option.splits latch_pc.splits)

lemma step_moves_member:
  assumes "latch_step t s s'" and "roles_ok W D s"
  shows "t \<in> W \<union> D"
proof -
  have "ls_pc s t \<noteq> None" using assms(1) by (cases rule: latch_step_cases) simp_all
  then have "role_of W D t \<noteq> None" using assms(2) by (metis map_option_is_None roles_ok_def)
  then show ?thesis by (auto simp: role_of_def split: if_splits)
qed

lemma latch_run_bound:
  assumes "latch_run n W D m k s" and "finite W" and "finite D"
  shows "m + (\<Sum>t \<in> W \<union> D. latch_rank s t) \<le> 4 * card W + 2 * card D + 2 * k"
  using assms(1)
proof (induction rule: latch_run.induct)
  case start
  have "(\<Sum>t \<in> W \<union> (D - W). latch_rank (latch_start n W D) t) =
      (\<Sum>t \<in> W. latch_rank (latch_start n W D) t) + (\<Sum>t \<in> D - W. latch_rank (latch_start n W D) t)"
    using assms(2,3) by (intro sum.union_disjoint) auto
  also have "\<dots> = 4 * card W + 2 * card (D - W)"
    by (simp add: latch_rank_def latch_start_def)
  finally show ?case using card_mono[OF assms(3), of "D - W"] by simp
next
  case (step m k s t s')
  have inv: "latch_sys_inv n W D s" using step.hyps(1) assms(3) by (rule latch_run_inv)
  have mem: "t \<in> W \<union> D" using step_moves_member[OF step.hyps(2)] inv by (simp add: latch_sys_inv_def)
  have "(\<Sum>t \<in> W \<union> D. latch_rank s' t) < (\<Sum>t \<in> W \<union> D. latch_rank s t)"
    using assms(2,3) step_rank[OF step.hyps(2)] inv mem
    by (intro sum_strict_mono_ex1) (auto simp: latch_sys_inv_def)
  then show ?case using step.IH by simp
next
  case (spurious m k s t)
  have "(\<Sum>u \<in> W \<union> D. latch_rank (latch_spurious t s) u) \<le> (\<Sum>u \<in> W \<union> D. latch_rank s u + (if u = t then 2 else 0))"
    by (intro sum_mono latch_spurious_rank)
  also have "\<dots> \<le> (\<Sum>u \<in> W \<union> D. latch_rank s u) + 2"
    using assms(2,3) by (simp add: sum.distrib)
  finally show ?case using spurious.IH by simp
qed


section \<open>Properties\<close>

text \<open>
  C16: a latch opens after exactly \<open>count\<close> calls of \<open>countDown\<close>, for any finite number of threads and
  every interleaving, spurious wake-ups included: a thread has returned from \<open>wait\<close> only if at least
  \<open>count\<close> threads have counted down; at most one thread is in a critical section; the threads together
  take at most four steps for each \<open>wait\<close>, two for each \<open>countDown\<close> and two for each spurious wake-up;
  and if enough threads count down, then as long as a thread has not returned some thread can move
  without a spurious wake-up, so no wake-up is lost.
\<close>

theorem latch_opens:
  assumes "latch_run n W D m k s" and "finite W" and "finite D" and "W \<inter> D = {}"
  shows "(\<forall>t. ls_pc s t = Some Passed \<longrightarrow> n \<le> int (card (counted s))) \<and>
    (\<forall>t u. ls_pc s t \<in> {Some Testing, Some Counting} \<longrightarrow> ls_pc s u \<in> {Some Testing, Some Counting} \<longrightarrow> t = u) \<and>
    m \<le> 4 * card W + 2 * card D + 2 * k \<and>
    (n \<le> int (card D) \<longrightarrow> (\<forall>t \<in> W \<union> D. ls_pc s t \<in> {Some Passed, Some Counted}) \<or> (\<exists>u s'. latch_step u s s'))"
proof -
  have inv: "latch_sys_inv n W D s" using assms(1,3) by (rule latch_run_inv)
  have "\<exists>u s'. latch_step u s s'"
    if "n \<le> int (card D)" and t: "t \<in> W \<union> D" "ls_pc s t \<notin> {Some Passed, Some Counted}" for t
  proof -
    have "map_option waits (ls_pc s t) \<noteq> None"
      using inv t(1) by (auto simp: latch_sys_inv_def roles_ok_def role_of_def)
    then obtain p where "ls_pc s t = Some p" "\<not> finished p" using t(2) by (auto simp: finished_def)
    then show ?thesis using latch_progress[OF inv assms(3,4) that(1)] by blast
  qed
  moreover have "n \<le> int (card (counted s))" if "ls_pc s t = Some Passed" for t
    using inv that by (auto simp: latch_sys_inv_def sleepers_ok_def count_ok_def)
  moreover have "t = u" if "ls_pc s t \<in> {Some Testing, Some Counting}" "ls_pc s u \<in> {Some Testing, Some Counting}" for t u
    using inv that by (simp add: latch_sys_inv_def holder_ok_def)
  ultimately show ?thesis using latch_run_bound[OF assms(1-3)] by auto
qed

theorem latch_opens_witness:
  "\<exists>s. latch_run 1 {0} {1 :: nat} 1 0 s \<and> ls_pc s 0 = Some Testing \<and> (\<exists>u s'. latch_step u s s')"
proof -
  let ?s = "latch_start 1 {0} {1 :: nat}"
  let ?s1 = "go 0 Testing (mon_lock 0 (ls_mon ?s)) ?s"
  have "latch_step 0 ?s ?s1"
    unfolding latch_step_def
    by (intro disjI1 latch_wait_step.lock) (simp_all add: latch_start_def CountDownLatch_ctor_def monitor_init_def)
  then have run: "latch_run 1 {0} {1 :: nat} 1 0 ?s1" using latch_run.step[OF latch_run.start] by fastforce
  moreover have "ls_pc ?s1 0 = Some Testing" by (simp add: go_def)
  ultimately show ?thesis using latch_opens[OF run] by auto
qed

end
