(* ===== verification/LogStream.thy ===== *)
theory LogStream
  imports InetAddr
begin

text \<open>
  \<open>class FixedBuffer\<close> and \<open>class LogStream\<close> (\<open>src/src/include/log_stream.h\<close>): a fixed array with a
  write pointer, and the \<open>operator<<\<close> whose bodies the repository has. The size of an appended
  block goes through \<open>static_cast<int>\<close>, with the wrap-around of a 32-bit integer. The formatting of
  numbers is declared but defined nowhere; where an operator calls it, it is a parameter.
\<close>

section \<open>FixedBuffer\<close>

text \<open>\<open>cur_\<close> is an offset into the array, whose length is the template's \<open>SIZE\<close>.\<close>

record fixed_buffer =
  fb_data :: "char list"
  fb_cur :: nat

definition kSmallBuffer :: nat where
  "kSmallBuffer = 4000"

text \<open>\<open>static_cast<int>\<close> of a \<open>size_t\<close>.\<close>

definition int_of_size :: "size_t \<Rightarrow> int" where
  "int_of_size n = (let r = int (n mod 2 ^ 32) in if r < 2 ^ 31 then r else r - 2 ^ 32)"

text \<open>The constructor sets the pointer only; the array's contents are indeterminate.\<close>

definition FixedBuffer_ctor :: "char list \<Rightarrow> fixed_buffer" where
  "FixedBuffer_ctor uninit = \<lparr>fb_data = uninit, fb_cur = 0\<rparr>"

definition fb_avail :: "fixed_buffer \<Rightarrow> int" where
  "fb_avail b = int_of_size (sz_sub (length (fb_data b)) (fb_cur b))"

definition fb_length :: "fixed_buffer \<Rightarrow> int" where
  "fb_length b = int_of_size (fb_cur b)"

definition fb_append :: "char list \<Rightarrow> size_t \<Rightarrow> fixed_buffer \<Rightarrow> fixed_buffer res" where
  "fb_append buf len b =
     (if fb_avail b > int_of_size len then
        bindR (read_range buf 0 len) (\<lambda>bytes.
        bindR (write_range (fb_data b) (fb_cur b) bytes) (\<lambda>d.
        Inr (b\<lparr>fb_data := d, fb_cur := fb_cur b + len\<rparr>)))
      else Inr b)"

definition fb_add :: "size_t \<Rightarrow> fixed_buffer \<Rightarrow> fixed_buffer res" where
  "fb_add len b = check (fb_cur b + len \<le> length (fb_data b)) OutOfBounds (Inr (b\<lparr>fb_cur := fb_cur b + len\<rparr>))"

definition fb_reset :: "fixed_buffer \<Rightarrow> fixed_buffer" where
  "fb_reset b = b\<lparr>fb_cur := 0\<rparr>"

definition fb_bzero :: "fixed_buffer \<Rightarrow> fixed_buffer" where
  "fb_bzero b = b\<lparr>fb_data := replicate (length (fb_data b)) CHR 0x00\<rparr>"

text \<open>The bytes written so far.\<close>

definition fb_text :: "fixed_buffer \<Rightarrow> string" where
  "fb_text b = take (fb_cur b) (fb_data b)"


section \<open>LogStream\<close>

type_synonym log_stream = fixed_buffer

definition put_bool :: "bool \<Rightarrow> log_stream \<Rightarrow> log_stream res" where
  "put_bool v = fb_append (if v then ''1'' else ''0'') 1"

definition put_char :: "char \<Rightarrow> log_stream \<Rightarrow> log_stream res" where
  "put_char v = fb_append [v] 1"

text \<open>A \<open>const char*\<close> is null or the characters from its address on; \<open>strlen\<close> stops at the first zero.\<close>

definition put_cstr :: "string option \<Rightarrow> log_stream \<Rightarrow> log_stream res" where
  "put_cstr str = (case str of
     Some s \<Rightarrow> fb_append s (length (c_str s))
   | None \<Rightarrow> fb_append ''(null)'' 6)"

definition put_ucstr :: "string option \<Rightarrow> log_stream \<Rightarrow> log_stream res" where
  "put_ucstr str = put_cstr str"

definition put_string :: "string \<Rightarrow> log_stream \<Rightarrow> log_stream res" where
  "put_string v = fb_append v (length v)"

definition put_float :: "('fl \<Rightarrow> 'db) \<Rightarrow> ('db \<Rightarrow> log_stream \<Rightarrow> log_stream res) \<Rightarrow> 'fl \<Rightarrow> log_stream \<Rightarrow>
    log_stream res" where
  "put_float to_double put_double v s = put_double (to_double v) s"

text \<open>\<open>append\<close> takes an \<open>int\<close>, which is converted to \<open>size_t\<close>.\<close>

definition LogStream_append :: "char list \<Rightarrow> int \<Rightarrow> log_stream \<Rightarrow> log_stream res" where
  "LogStream_append data len = fb_append data (nat (len mod 2 ^ 64))"

definition resetBuffer :: "log_stream \<Rightarrow> log_stream" where
  "resetBuffer s = fb_reset s"


section \<open>Appending\<close>

text \<open>The array has its size, the pointer is inside it, and one byte stays free.\<close>

definition fb_ok :: "nat \<Rightarrow> fixed_buffer \<Rightarrow> bool" where
  "fb_ok cap b \<longleftrightarrow> length (fb_data b) = cap \<and> fb_cur b < cap \<and> cap < 2 ^ 31"

lemma int_of_size_small: "n < 2 ^ 31 \<Longrightarrow> int_of_size n = int n"
  by (simp add: int_of_size_def)

lemma fb_avail_ok: "fb_ok cap b \<Longrightarrow> fb_avail b = int (cap - fb_cur b)"
  using int_of_size_small[of "cap - fb_cur b"] by (auto simp: fb_ok_def fb_avail_def sz)

lemma fb_append_eq:
  assumes "fb_ok cap b" and "len < 2 ^ 31" and "len \<le> length buf"
  shows "fb_append buf len b =
    Inr (if fb_cur b + len < cap
         then \<lparr>fb_data = blit (fb_data b) (fb_cur b) (take len buf), fb_cur = fb_cur b + len\<rparr> else b)"
proof -
  have "fb_avail b > int_of_size len \<longleftrightarrow> fb_cur b + len < cap"
    using assms(1,2) unfolding fb_avail_ok[OF assms(1)] by (auto simp: int_of_size_small fb_ok_def)
  then show ?thesis
    using assms by (auto simp: fb_append_def read_range_def write_range_def fb_ok_def)
qed

lemma fb_append_ok:
  assumes "fb_ok cap b" and "len < 2 ^ 31" and "len \<le> length buf"
  shows "okR (fb_append buf len b) (\<lambda>b'. fb_ok cap b' \<and>
    fb_text b' = (if length (fb_text b) + len < cap then fb_text b @ take len buf else fb_text b))"
proof -
  have l: "length (fb_text b) = fb_cur b" using assms(1) by (simp add: fb_ok_def fb_text_def)
  show ?thesis
  proof (cases "fb_cur b + len < cap")
    case True
    have "fb_cur b + length (take len buf) \<le> length (fb_data b)" using True assms by (simp add: fb_ok_def)
    then have "take (fb_cur b + length (take len buf)) (blit (fb_data b) (fb_cur b) (take len buf)) =
        take (fb_cur b) (fb_data b) @ take len buf"
      using drop_blit_less[of 0 "fb_cur b" "take len buf" "fb_data b"] by simp
    then show ?thesis
      using True assms l unfolding fb_append_eq[OF assms] by (simp add: fb_ok_def fb_text_def)
  next
    case False
    then show ?thesis using assms l by (simp add: fb_append_eq)
  qed
qed

text \<open>
  A block of \<open>2 ^ 31\<close> bytes or more has a negative size after the cast: the guard lets it through.
\<close>

lemma fb_append_oversized:
  assumes "fb_ok cap b" and "2 ^ 31 \<le> len" and "len < 2 ^ 32"
  shows "fb_append buf len b = Inl OutOfBounds"
proof -
  have "int_of_size len < 0" using assms by (simp add: int_of_size_def)
  then have "fb_avail b > int_of_size len" using fb_avail_ok[OF assms(1)] by linarith
  then show ?thesis
    using assms by (simp add: fb_append_def read_range_def write_range_def fb_ok_def check_def min_def)
qed

lemma LogStream_append_negative:
  assumes "fb_ok cap b" and "- (2 ^ 31) \<le> len" and "len < 0"
  shows "LogStream_append data len b = Inl OutOfBounds"
proof -
  define n where "n = nat (len mod 2 ^ 64)"
  have "len mod 2 ^ 64 = len + 2 ^ 64"
    using assms by (intro int_mod_pos_eq[where q = "- 1"]) simp_all
  then have n: "int n = len + 2 ^ 64" using assms by (simp add: n_def)
  have "int n mod 2 ^ 32 = len + 2 ^ 32"
    using assms n by (intro int_mod_pos_eq[where q = "2 ^ 32 - 1"]) simp_all
  then have "int_of_size n < 0" using assms by (simp add: int_of_size_def zmod_int)
  then have "fb_avail b > int_of_size n" using fb_avail_ok[OF assms(1)] by linarith
  moreover have "n > cap" using assms(1,2) n by (simp add: fb_ok_def)
  ultimately show ?thesis
    using assms(1) unfolding LogStream_append_def n_def[symmetric]
    by (auto simp: fb_append_def read_range_def write_range_def fb_ok_def check_def)
qed


section \<open>A chain of outputs\<close>

text \<open>What can follow \<open>LOG\<close> in a chain of \<open><<\<close>, and the text it stands for.\<close>

datatype log_item = LogBool bool | LogChar char | LogCStr "string option" | LogString string

fun put_item :: "log_item \<Rightarrow> log_stream \<Rightarrow> log_stream res" where
  "put_item (LogBool v) = put_bool v"
| "put_item (LogChar v) = put_char v"
| "put_item (LogCStr v) = put_cstr v"
| "put_item (LogString v) = put_string v"

fun item_text :: "log_item \<Rightarrow> string" where
  "item_text (LogBool v) = (if v then ''1'' else ''0'')"
| "item_text (LogChar v) = [v]"
| "item_text (LogCStr None) = ''(null)''"
| "item_text (LogCStr (Some s)) = c_str s"
| "item_text (LogString v) = v"

text \<open>The promise: an item is written whole if it leaves a byte free, otherwise it is left out.\<close>

definition accept :: "nat \<Rightarrow> string \<Rightarrow> string \<Rightarrow> string" where
  "accept cap line t = (if length line + length t < cap then line @ t else line)"

lemma put_item_append:
  "\<exists>buf. put_item x = fb_append buf (length (item_text x)) \<and> length (item_text x) \<le> length buf \<and>
     take (length (item_text x)) buf = item_text x"
proof (cases x rule: item_text.cases)
  case 3
  then show ?thesis
    by (auto simp: put_cstr_def eval_nat_numeral intro!: exI[of _ "''(null)''"])
next
  case (4 s)
  then show ?thesis
    by (auto simp: put_cstr_def c_str_def length_takeWhile_le takeWhile_eq_take[symmetric] intro!: exI[of _ s])
qed (auto simp: put_bool_def put_char_def put_cstr_def put_string_def)

lemma put_item_ok:
  assumes "fb_ok cap b" and "length (item_text x) < 2 ^ 31"
  shows "okR (put_item x b) (\<lambda>b'. fb_ok cap b' \<and> fb_text b' = accept cap (fb_text b) (item_text x))"
proof -
  obtain buf where buf: "put_item x = fb_append buf (length (item_text x))"
      "length (item_text x) \<le> length buf" "take (length (item_text x)) buf = item_text x"
    using put_item_append by blast
  show ?thesis
    using fb_append_ok[OF assms buf(2)] by (simp add: buf accept_def cong: if_cong)
qed

lemma put_items_ok:
  assumes "fb_ok cap b" and "\<forall>x \<in> set xs. length (item_text x) < 2 ^ 31"
  shows "okR (foldR put_item xs b) (\<lambda>b'. fb_ok cap b' \<and>
    fb_text b' = foldl (accept cap) (fb_text b) (map item_text xs))"
  using assms
proof (induction xs arbitrary: b)
  case Nil
  then show ?case by simp
next
  case (Cons x xs)
  obtain b1 where b1: "put_item x b = Inr b1" "fb_ok cap b1" "fb_text b1 = accept cap (fb_text b) (item_text x)"
    using put_item_ok[of cap b x] Cons.prems by (auto simp: okR_iff_ex)
  then show ?case using Cons.IH[of b1] Cons.prems by simp
qed


section \<open>Properties\<close>





end
