(* ===== verification/AsyncLogging.thy ===== *)
theory AsyncLogging
  imports Latch LogStream
begin

text \<open>
  \<open>class Logger\<close> (\<open>src/src/include/logging.h\<close>) and \<open>class AsyncLogging\<close>
  (\<open>src/src/include/async_logging.h\<close>), as far as the repository has bodies: the static file name and the
  stream of a logger; \<open>start\<close>, \<open>stop\<close> and the destructor of the logging thread. The constructors,
  \<open>append\<close>, \<open>formatTime\<close> and \<open>threadFunc\<close> are declared but defined nowhere: \<open>threadFunc\<close> is a parameter, its
  effect on the object until it blocks, and so is the effect of \<open>cond_.notify()\<close>, whose class is not part
  of the repository.
\<close>

section \<open>Logger\<close>

record logger_impl =
  impl_stream :: fixed_buffer
  impl_line :: int
  impl_basename :: string

text \<open>The static \<open>logFileName_\<close> is the state.\<close>

definition setLogFileName :: "string \<Rightarrow> string \<Rightarrow> string" where
  "setLogFileName fileName logFileName = fileName"

definition getLogFileName :: "string \<Rightarrow> string" where
  "getLogFileName logFileName = logFileName"

definition logger_stream :: "logger_impl \<Rightarrow> fixed_buffer" where
  "logger_stream l = impl_stream l"


section \<open>AsyncLogging\<close>

text \<open>The function bound to the thread is \<open>threadFunc\<close> of this object.\<close>

datatype log_func = LogThreadFunc

record async_logging =
  al_flushInterval :: int
  al_running :: bool
  al_basename :: string
  al_thread :: "(log_func, nat) thread"
  al_latch :: "nat latch"

text \<open>A \<open>wait\<close> that no thread will end blocks for ever.\<close>

definition al_wait :: "async_logging \<Rightarrow> async_logging res" where
  "al_wait A = check (\<not> latch_must_wait (al_latch A)) Deadlock (Inr A)"

text \<open>
  What the new thread does to the object: \<open>startThread\<close> stores its id, opens the latch of \<open>thread_\<close> and calls
  \<open>threadFunc\<close>.
\<close>

definition log_thread :: "int \<Rightarrow> (async_logging \<Rightarrow> async_logging) \<Rightarrow> log_func thread_data \<Rightarrow> async_logging \<Rightarrow>
    async_logging res" where
  "log_thread gettid threadFunc d A =
     bindR (runInThread_tid gettid tls_init d (al_thread A)) (\<lambda>(v, d', th).
     let (v', d'') = runInThread_name v d' in
     bindR (runInThread_func (\<lambda>f A'. Inr (threadFunc A')) v' d''
       (A\<lparr>al_thread := th\<lparr>th_latch := countDown (th_latch th)\<rparr>\<rparr>)) (\<lambda>(v'', A'). Inr A'))"

text \<open>
  \<open>start()\<close>: \<open>pthread_create\<close> returns \<open>ret\<close> and stores the handle \<open>p\<close>. The calling thread waits in
  \<open>Thread::start\<close> and then for \<open>latch_\<close>, while the new thread runs.
\<close>

definition AsyncLogging_start :: "int \<Rightarrow> int \<Rightarrow> int \<Rightarrow> (async_logging \<Rightarrow> async_logging) \<Rightarrow> async_logging \<Rightarrow>
    async_logging res" where
  "AsyncLogging_start ret p gettid threadFunc A =
     (let A1 = A\<lparr>al_running := True\<rparr> in
      bindR (Thread_start ret p 0 (al_thread A1)) (\<lambda>(th, data).
      let A2 = A1\<lparr>al_thread := th\<rparr> in
      case data of
        None \<Rightarrow> al_wait A2
      | Some d \<Rightarrow>
          bindR (log_thread gettid threadFunc d A2) (\<lambda>A3.
          check (\<not> latch_must_wait (th_latch (al_thread A3))) Deadlock
          (check (th_tid (al_thread A3) > 0) (AssertFailed ''thread.cpp:153'')
          (al_wait A3)))))"

definition AsyncLogging_stop :: "('k \<Rightarrow> 'k) \<Rightarrow> (int \<Rightarrow> 'k \<Rightarrow> int \<times> 'k) \<Rightarrow> async_logging \<Rightarrow> 'k \<Rightarrow>
    (async_logging \<times> 'k) res" where
  "AsyncLogging_stop notify pthread_join A k =
     (let A1 = A\<lparr>al_running := False\<rparr>; k1 = notify k in
      bindR (Thread_join pthread_join (al_thread A1) k1) (\<lambda>(r, th, k2). Inr (A1\<lparr>al_thread := th\<rparr>, k2)))"

text \<open>The destructor; the members, \<open>thread_\<close> among them, go after its body.\<close>

definition AsyncLogging_dtor :: "('k \<Rightarrow> 'k) \<Rightarrow> (int \<Rightarrow> 'k \<Rightarrow> int \<times> 'k) \<Rightarrow> (int \<Rightarrow> 'k \<Rightarrow> int \<times> 'k) \<Rightarrow> async_logging \<Rightarrow>
    'k \<Rightarrow> 'k res" where
  "AsyncLogging_dtor notify pthread_join pthread_detach A k =
     bindR (if al_running A then AsyncLogging_stop notify pthread_join A k else Inr (A, k)) (\<lambda>(A1, k1).
     Inr (Thread_dtor pthread_detach (al_thread A1) k1))"


section \<open>Starting and stopping\<close>

text \<open>An object as the constructor has to leave it: the thread not started, the latch to be opened once.\<close>

definition log_fresh :: "async_logging \<Rightarrow> bool" where
  "log_fresh A \<longleftrightarrow> \<not> th_started (al_thread A) \<and> \<not> th_joined (al_thread A) \<and> th_func (al_thread A) = Some LogThreadFunc \<and>
     latch_count (th_latch (al_thread A)) = 1 \<and> latch_count (al_latch A) = 1"

text \<open>What \<open>start\<close> relies on: \<open>threadFunc\<close> counts the latch down and leaves \<open>running_\<close> and \<open>thread_\<close> alone.\<close>

definition opens_latch :: "(async_logging \<Rightarrow> async_logging) \<Rightarrow> bool" where
  "opens_latch threadFunc \<longleftrightarrow> (\<forall>A. al_latch (threadFunc A) = countDown (al_latch A) \<and>
     al_running (threadFunc A) = al_running A \<and> al_thread (threadFunc A) = al_thread A)"

lemma log_start_ok:
  assumes "log_fresh A" and "opens_latch threadFunc" and "0 < gettid"
  shows "okR (AsyncLogging_start 0 p gettid threadFunc A) (\<lambda>A'. al_running A' \<and> th_started (al_thread A') \<and>
    \<not> th_joined (al_thread A') \<and> th_pthread_id (al_thread A') = p \<and> th_tid (al_thread A') = gettid)"
  using assms
  by (simp add: AsyncLogging_start_def log_fresh_def opens_latch_def Thread_start_def ThreadData_ctor_def log_thread_def
      runInThread_tid_def CurrentThread_tid_def tls_init_def runInThread_name_def runInThread_func_def al_wait_def
      latch_must_wait_def wp Let_def)

text \<open>Like \<open>startLoop\<close>, \<open>start\<close> goes on to wait when no thread could be created.\<close>

lemma log_start_blocks:
  assumes "log_fresh A" and "ret \<noteq> 0"
  shows "AsyncLogging_start ret p gettid threadFunc A = Inl Deadlock"
  using assms
  by (simp add: AsyncLogging_start_def log_fresh_def Thread_start_def al_wait_def latch_must_wait_def check_def Let_def)

lemma log_stop_unstarted:
  assumes "\<not> th_started (al_thread A)"
  shows "AsyncLogging_stop notify pthread_join A k = Inl (AssertFailed ''thread.cpp:158'')"
  using assms by (simp add: AsyncLogging_stop_def Thread_join_def Let_def check_def)


section \<open>Properties\<close>



end
